(* ===== verification/Prelude.thy ===== *)
theory Prelude
  imports Main "HOL-Library.Word"
begin

text \<open>
  Shared ground of the development: the result type of fallible Go code, the bool-valued Go maps
  the rule items are built on, the helpers of \<open>sing/common\<close> and \<open>strings\<close> that the modelled code
  calls, decimal printing and parsing, and the generic lemmas about them that the component
  theories rely on.
\<close>

unbundle bit_operations_syntax

named_theorems go_simps \<open>unfolding rules for the helpers of the Go standard library\<close>
named_theorems state_simps \<open>set-level reading of the rule match state bit sets\<close>

type_synonym uint8 = "8 word"
type_synonym uint16 = "16 word"
type_synonym uint32 = "32 word"
type_synonym uint64 = "64 word"

section \<open>Errors\<close>

text \<open>
  A Go function returning \<open>(T, error)\<close> returns \<open>error + T\<close> here. \<open>ErrMsg\<close> is an error made
  from a message (\<open>E.New\<close>), \<open>Cause\<close> is \<open>E.Cause\<close>: an error wrapped with a message,
  \<open>Extend\<close> is \<open>E.Extend\<close>: an error with a message appended,
  \<open>ErrInvalid\<close> is \<open>os.ErrInvalid\<close>, \<open>Sentinel\<close> another error variable that the code compares with,
  by its name, \<open>RejectedError\<close> and \<open>BypassedError\<close> are the error structs of the rule actions, and
  \<open>Panic\<close> is a Go panic.
\<close>

datatype error =
    ErrMsg string
  | Cause error string
  | Extend error string
  | ErrInvalid
  | Sentinel string
  | RejectedError error
  | BypassedError error
  | Panic string

type_synonym 'a result = "error + 'a"

definition bindR :: "'a result \<Rightarrow> ('a \<Rightarrow> 'b result) \<Rightarrow> 'b result" where
  "bindR r f = (case r of Inl e \<Rightarrow> Inl e | Inr x \<Rightarrow> f x)"

lemma bindR_Inl [simp]: "bindR (Inl e) f = Inl e"
  by (simp add: bindR_def)

lemma bindR_Inr [simp]: "bindR (Inr x) f = f x"
  by (simp add: bindR_def)

lemma bindR_eq_Inr: "bindR r f = Inr y \<longleftrightarrow> (\<exists>x. r = Inr x \<and> f x = Inr y)"
  by (cases r) auto

lemma bindR_eq_Inl: "bindR r f = Inl e \<longleftrightarrow> r = Inl e \<or> (\<exists>x. r = Inr x \<and> f x = Inl e)"
  by (cases r) auto

definition causeR :: "'a result \<Rightarrow> string \<Rightarrow> 'a result" where
  "causeR r msg = (case r of Inl e \<Rightarrow> Inl (Cause e msg) | Inr x \<Rightarrow> Inr x)"

lemma causeR_Inr [simp]: "causeR r m = Inr x \<longleftrightarrow> r = Inr x"
  by (cases r) (auto simp: causeR_def)

lemma causeR_of_Inr [simp]: "causeR (Inr x) m = Inr x"
  by (simp add: causeR_def)

section \<open>Go maps with boolean values\<close>

text \<open>
  \<open>boolMap xs\<close> is the map a loop \<open>for _, x := range xs { m[x] = true }\<close> builds, and
  \<open>mapGet m k\<close> is the read \<open>m[k]\<close> with the zero value \<open>false\<close> for a missing key.
\<close>

fun boolMapFrom :: "('a \<rightharpoonup> bool) \<Rightarrow> 'a list \<Rightarrow> ('a \<rightharpoonup> bool)" where
  "boolMapFrom m [] = m"
| "boolMapFrom m (x # xs) = boolMapFrom (m(x \<mapsto> True)) xs"

definition boolMap :: "'a list \<Rightarrow> ('a \<rightharpoonup> bool)" where
  "boolMap xs = boolMapFrom Map.empty xs"

definition mapGet :: "('a \<rightharpoonup> bool) \<Rightarrow> 'a \<Rightarrow> bool" where
  "mapGet m k = (case m k of None \<Rightarrow> False | Some v \<Rightarrow> v)"

lemma mapGet_boolMapFrom: "mapGet (boolMapFrom m xs) k \<longleftrightarrow> k \<in> set xs \<or> mapGet m k"
  by (induction xs arbitrary: m) (auto simp: mapGet_def)

lemma mapGet_boolMap [simp, go_simps]: "mapGet (boolMap xs) k \<longleftrightarrow> k \<in> set xs"
  by (simp add: boolMap_def mapGet_boolMapFrom) (simp add: mapGet_def)

section \<open>Strings\<close>

text \<open>\<open>strings.Join\<close> and \<open>strings.Contains\<close>.\<close>

fun strings_Join :: "string list \<Rightarrow> string \<Rightarrow> string" where
  "strings_Join [] sep = []"
| "strings_Join [s] sep = s"
| "strings_Join (s # t # ss) sep = s @ sep @ strings_Join (t # ss) sep"

fun hasPrefix :: "'a list \<Rightarrow> 'a list \<Rightarrow> bool" where
  "hasPrefix s [] = True"
| "hasPrefix [] (p # ps) = False"
| "hasPrefix (c # cs) (p # ps) = (c = p \<and> hasPrefix cs ps)"

fun strings_Contains :: "'a list \<Rightarrow> 'a list \<Rightarrow> bool" where
  "strings_Contains [] sub = hasPrefix [] sub"
| "strings_Contains (c # cs) sub = (hasPrefix (c # cs) sub \<or> strings_Contains cs sub)"

lemma hasPrefix_iff: "hasPrefix s p \<longleftrightarrow> (\<exists>r. s = p @ r)"
  by (induction s p rule: hasPrefix.induct) auto

lemma strings_Contains_iff: "strings_Contains s sub \<longleftrightarrow> (\<exists>l r. s = l @ sub @ r)"
proof (induction s)
  case Nil
  then show ?case by (auto simp: hasPrefix_iff)
next
  case (Cons c s)
  have "(\<exists>l r. c # s = l @ sub @ r) \<longleftrightarrow> (\<exists>r. c # s = sub @ r) \<or> (\<exists>l r. s = l @ sub @ r)"
    by (metis append_Cons append_Nil list.exhaust list.inject)
  with Cons.IH show ?case by (simp only: strings_Contains.simps hasPrefix_iff)
qed

text \<open>
  \<open>strings.Index\<close> for a single character: the offset of its first occurrence, \<open>None\<close> for the
  source's \<open>-1\<close>.
\<close>

fun strings_Index :: "string \<Rightarrow> char \<Rightarrow> nat option" where
  "strings_Index [] c = None"
| "strings_Index (x # xs) c = (if x = c then Some 0 else map_option Suc (strings_Index xs c))"

lemma strings_Index_None: "strings_Index s c = None \<longleftrightarrow> c \<notin> set s"
  by (induction s) auto

lemma strings_Index_Some:
  "strings_Index s c = Some i \<Longrightarrow> i < length s \<and> s ! i = c \<and> c \<notin> set (take i s)"
proof (induction s arbitrary: i)
  case Nil
  then show ?case by simp
next
  case (Cons x s)
  then show ?case by (cases i) (auto split: if_splits)
qed

lemma strings_Index_append: "c \<notin> set a \<Longrightarrow> strings_Index (a @ c # b) c = Some (length a)"
  by (induction a) auto

subsection \<open>Decimal numbers\<close>

definition digit :: "nat \<Rightarrow> char" where
  "digit d = char_of (48 + d)"

definition isDigit :: "char \<Rightarrow> bool" where
  "isDigit c \<longleftrightarrow> 48 \<le> (of_char c :: nat) \<and> (of_char c :: nat) \<le> 57"

definition digitVal :: "char \<Rightarrow> nat" where
  "digitVal c = of_char c - 48"

fun itoa :: "nat \<Rightarrow> string" where
  "itoa n = (if n < 10 then [digit n] else itoa (n div 10) @ [digit (n mod 10)])"

declare itoa.simps [simp del]

fun atoiFrom :: "nat \<Rightarrow> string \<Rightarrow> nat option" where
  "atoiFrom acc [] = Some acc"
| "atoiFrom acc (c # cs) = (if isDigit c then atoiFrom (acc * 10 + digitVal c) cs else None)"

text \<open>
  \<open>strconv.ParseUint(s, 10, 16)\<close>: the empty string and any character that is not a decimal
  digit are syntax errors, and a value above \<open>2 ^ 16 - 1\<close> is a range error.
\<close>

definition parseUint16 :: "string \<Rightarrow> uint16 result" where
  "parseUint16 s =
     (if s = [] then Inl (ErrMsg ''invalid syntax'')
      else case atoiFrom 0 s of
        None \<Rightarrow> Inl (ErrMsg ''invalid syntax'')
      | Some n \<Rightarrow> if n < 2 ^ 16 then Inr (of_nat n) else Inl (ErrMsg ''value out of range''))"

lemma digit_simps [simp]:
  "d < 10 \<Longrightarrow> isDigit (digit d)"
  "d < 10 \<Longrightarrow> digitVal (digit d) = d"
  by (simp_all add: isDigit_def digitVal_def digit_def)

lemma atoiFrom_append:
  "atoiFrom acc (s @ t) = (case atoiFrom acc s of None \<Rightarrow> None | Some n \<Rightarrow> atoiFrom n t)"
  by (induction s arbitrary: acc) auto

lemma atoiFrom_itoa: "atoiFrom 0 (itoa n) = Some n"
proof (induction n rule: itoa.induct)
  case (1 n)
  show ?case
  proof (cases "n < 10")
    case True
    then show ?thesis by (simp add: itoa.simps [of n])
  next
    case False
    with "1.IH" show ?thesis by (simp add: itoa.simps [of n] atoiFrom_append)
  qed
qed

lemma itoa_nonempty [simp]: "itoa n \<noteq> []"
  by (simp add: itoa.simps [of n])

lemma itoa_isDigit: "c \<in> set (itoa n) \<Longrightarrow> isDigit c"
proof (induction n rule: itoa.induct)
  case (1 n)
  then show ?case by (cases "n < 10") (auto simp: itoa.simps [of n])
qed

lemma parseUint16_itoa: "parseUint16 (itoa (unat (p :: uint16))) = Inr p"
  using unsigned_less [of p, where ?'a = nat] by (simp add: parseUint16_def atoiFrom_itoa)

section \<open>Helpers of sing/common\<close>

text \<open>\<open>common.Any\<close>, \<open>common.All\<close> and \<open>common.Find\<close> (the zero value when nothing is found).\<close>

definition common_Find :: "'a \<Rightarrow> 'a list \<Rightarrow> ('a \<Rightarrow> bool) \<Rightarrow> 'a" where
  "common_Find zero xs p = (case find p xs of None \<Rightarrow> zero | Some x \<Rightarrow> x)"

lemma map_eqI: "(\<And>x. x \<in> set xs \<Longrightarrow> f x = g x) \<Longrightarrow> map f xs = map g xs"
  by simp

end
