(* ===== verification/Match_State.thy ===== *)
theory Match_State
  imports Prelude
begin

text \<open>
  The match states of \<open>src/route/rule/match_state.go\<close>: a state is a bit mask of the address and
  port groups a rule has satisfied, and a state set is a 16-bit bitmap of such masks. The theory
  holds the operations, their reading as sets of sets of groups, and the locale that states this
  reading as the contract the rule engine relies on.
\<close>

section \<open>The operations\<close>

type_synonym ruleMatchState = uint8
type_synonym ruleMatchStateSet = uint16

definition ruleMatchSourceAddress :: ruleMatchState where
  "ruleMatchSourceAddress = push_bit 0 1"

definition ruleMatchSourcePort :: ruleMatchState where
  "ruleMatchSourcePort = push_bit 1 1"

definition ruleMatchDestinationAddress :: ruleMatchState where
  "ruleMatchDestinationAddress = push_bit 2 1"

definition ruleMatchDestinationPort :: ruleMatchState where
  "ruleMatchDestinationPort = push_bit 3 1"

definition has :: "ruleMatchState \<Rightarrow> ruleMatchState \<Rightarrow> bool" where
  "has s target \<longleftrightarrow> s AND target \<noteq> 0"

definition singleRuleMatchState :: "ruleMatchState \<Rightarrow> ruleMatchStateSet" where
  "singleRuleMatchState state = push_bit (unat state) 1"

definition emptyRuleMatchState :: ruleMatchStateSet where
  "emptyRuleMatchState = singleRuleMatchState 0"

definition isEmpty :: "ruleMatchStateSet \<Rightarrow> bool" where
  "isEmpty s \<longleftrightarrow> s = 0"

definition contains :: "ruleMatchStateSet \<Rightarrow> ruleMatchState \<Rightarrow> bool" where
  "contains s state \<longleftrightarrow> s AND push_bit (unat state) 1 \<noteq> 0"

definition add :: "ruleMatchStateSet \<Rightarrow> ruleMatchState \<Rightarrow> ruleMatchStateSet" where
  "add s state = s OR singleRuleMatchState state"

definition merge :: "ruleMatchStateSet \<Rightarrow> ruleMatchStateSet \<Rightarrow> ruleMatchStateSet" where
  "merge s other = s OR other"

text \<open>The values of the loop variable of \<open>for state := range ruleMatchState(16)\<close>, in order.\<close>

definition stateRange :: "ruleMatchState list" where
  "stateRange = map of_nat [0..<16]"

definition combine :: "ruleMatchStateSet \<Rightarrow> ruleMatchStateSet \<Rightarrow> ruleMatchStateSet" where
  "combine s other =
     (if isEmpty s \<or> isEmpty other then 0
      else foldl (\<lambda>combined left.
             if \<not> contains s left then combined
             else foldl (\<lambda>combined right.
                    if \<not> contains other right then combined
                    else add combined (left OR right)) combined stateRange) 0 stateRange)"

definition withBase :: "ruleMatchStateSet \<Rightarrow> ruleMatchState \<Rightarrow> ruleMatchStateSet" where
  "withBase s base =
     (if isEmpty s then 0
      else foldl (\<lambda>acc state. if \<not> contains s state then acc else add acc (state OR base))
             0 stateRange)"

definition filterStates ::
  "ruleMatchStateSet \<Rightarrow> (ruleMatchState \<Rightarrow> bool) \<Rightarrow> ruleMatchStateSet" where
  "filterStates s allowed =
     (foldl (\<lambda>filtered state.
        if \<not> contains s state then filtered
        else if allowed state then add filtered state else filtered) 0 stateRange)"

section \<open>Reading states as sets of groups\<close>

text \<open>
  The four groups a state records. A state stands for the set of groups whose bit it has, and a
  state set stands for the set of the group sets of its members. Only the 16 masks over the four
  group bits are ever stored; \<open>validState\<close> says that a mask is one of them.
\<close>

datatype group = SourceAddress | SourcePort | DestinationAddress | DestinationPort

fun groupBit :: "group \<Rightarrow> nat" where
  "groupBit SourceAddress = 0"
| "groupBit SourcePort = 1"
| "groupBit DestinationAddress = 2"
| "groupBit DestinationPort = 3"

definition groups :: "ruleMatchState \<Rightarrow> group set" where
  "groups s = {g. bit s (groupBit g)}"

definition validState :: "ruleMatchState \<Rightarrow> bool" where
  "validState s \<longleftrightarrow> take_bit 4 s = s"

definition states :: "ruleMatchStateSet \<Rightarrow> group set set" where
  "states s = groups ` {x. validState x \<and> contains s x}"

lemma groupBit_less: "groupBit g < 4"
  by (cases g) simp_all

lemma groupBit_surj: "n < 4 \<Longrightarrow> \<exists>g. groupBit g = n"
proof -
  assume "n < 4"
  then have "n = 0 \<or> n = 1 \<or> n = 2 \<or> n = 3" by arith
  then show ?thesis by (metis groupBit.simps)
qed

lemma groups_OR [simp, state_simps]: "groups (x OR y) = groups x \<union> groups y"
  by (auto simp: groups_def bit_or_iff)

lemma groups_0 [simp, state_simps]: "groups 0 = {}"
  by (simp add: groups_def)

lemma groups_masks [simp, state_simps]:
  "groups ruleMatchSourceAddress = {SourceAddress}"
  "groups ruleMatchSourcePort = {SourcePort}"
  "groups ruleMatchDestinationAddress = {DestinationAddress}"
  "groups ruleMatchDestinationPort = {DestinationPort}"
  unfolding groups_def ruleMatchSourceAddress_def ruleMatchSourcePort_def
    ruleMatchDestinationAddress_def ruleMatchDestinationPort_def
  by (safe; rename_tac g; case_tac g; simp add: bit_simps)+

lemma validState_masks [simp, state_simps]:
  "validState ruleMatchSourceAddress"
  "validState ruleMatchSourcePort"
  "validState ruleMatchDestinationAddress"
  "validState ruleMatchDestinationPort"
  "validState 0"
  by (simp_all add: validState_def ruleMatchSourceAddress_def ruleMatchSourcePort_def
      ruleMatchDestinationAddress_def ruleMatchDestinationPort_def)

lemma validState_OR [simp, state_simps]: "validState x \<Longrightarrow> validState y \<Longrightarrow> validState (x OR y)"
  by (simp add: validState_def take_bit_or)

lemma has_masks [simp, state_simps]:
  "has s ruleMatchSourceAddress \<longleftrightarrow> SourceAddress \<in> groups s"
  "has s ruleMatchSourcePort \<longleftrightarrow> SourcePort \<in> groups s"
  "has s ruleMatchDestinationAddress \<longleftrightarrow> DestinationAddress \<in> groups s"
  "has s ruleMatchDestinationPort \<longleftrightarrow> DestinationPort \<in> groups s"
  by (simp_all add: has_def groups_def ruleMatchSourceAddress_def ruleMatchSourcePort_def
      ruleMatchDestinationAddress_def ruleMatchDestinationPort_def bit_iff_and_push_bit_not_eq_0)

lemma groups_inject: "validState x \<Longrightarrow> validState y \<Longrightarrow> groups x = groups y \<Longrightarrow> x = y"
proof (rule bit_eqI)
  fix n
  assume v: "validState x" "validState y" and eq: "groups x = groups y"
  show "bit x n \<longleftrightarrow> bit y n"
  proof (cases "n < 4")
    case True
    then obtain g where "groupBit g = n" using groupBit_surj by blast
    with eq show ?thesis by (auto simp: groups_def)
  next
    case False
    with v have "\<not> bit x n" "\<not> bit y n"
      unfolding validState_def by (metis bit_take_bit_iff)+
    then show ?thesis by simp
  qed
qed

lemma validState_iff: "validState x \<longleftrightarrow> unat x < 16"
proof -
  have "validState x \<longleftrightarrow> unat (take_bit 4 x) = unat x"
    by (simp add: validState_def unsigned_word_eqI word_unat_eq_iff)
  also have "\<dots> \<longleftrightarrow> unat x mod 16 = unat x"
    by (simp only: unsigned_take_bit_eq) (simp add: take_bit_eq_mod)
  finally show ?thesis by (metis mod_less mod_less_divisor zero_less_numeral)
qed

lemma set_stateRange: "set stateRange = {x. validState x}"
proof -
  have "x \<in> set stateRange" if "unat x < 16" for x :: ruleMatchState
    using that unfolding stateRange_def by (auto intro!: image_eqI [of _ _ "unat x"])
  moreover have "unat x < 16" if "x \<in> set stateRange" for x
    using that by (auto simp: stateRange_def unat_of_nat take_bit_eq_mod)
  ultimately show ?thesis by (auto simp: validState_iff)
qed

lemma contains_iff: "contains s x \<longleftrightarrow> bit s (unat x)"
  by (simp add: contains_def bit_iff_and_push_bit_not_eq_0)

lemma bit_single: "validState x \<Longrightarrow> bit (singleRuleMatchState x) n \<longleftrightarrow> n = unat x"
  by (auto simp: singleRuleMatchState_def validState_iff bit_simps)

lemma contains_0 [simp]: "\<not> contains 0 x"
  by (simp add: contains_def)

lemma contains_merge: "contains (merge s t) x \<longleftrightarrow> contains s x \<or> contains t x"
  by (simp add: contains_iff merge_def bit_or_iff)

lemma contains_add: "validState y \<Longrightarrow> contains (add s y) x \<longleftrightarrow> contains s x \<or> x = y"
  by (auto simp: contains_iff add_def bit_or_iff bit_single word_unat_eq_iff)

text \<open>A loop that adds states to an accumulator adds exactly the states it names.\<close>

lemma contains_foldl:
  assumes "\<And>acc x y. x \<in> set xs \<Longrightarrow> contains (f acc x) y \<longleftrightarrow> contains acc y \<or> P x y"
  shows "contains (foldl f a xs) y \<longleftrightarrow> contains a y \<or> (\<exists>x\<in>set xs. P x y)"
  using assms by (induction xs arbitrary: a) auto

lemma state_set_eqI:
  assumes "\<And>x. validState x \<Longrightarrow> contains s x \<longleftrightarrow> contains t x"
  shows "s = (t :: ruleMatchStateSet)"
proof (rule bit_eqI)
  fix n
  assume "possible_bit TYPE(16 word) n"
  then have "n < 16" by (simp add: possible_bit_word)
  moreover from this have "unat (of_nat n :: ruleMatchState) = n"
    by (simp add: unat_of_nat take_bit_eq_mod)
  ultimately show "bit s n \<longleftrightarrow> bit t n"
    using assms [of "of_nat n"] by (simp add: contains_iff validState_iff)
qed

lemma isEmpty_iff: "isEmpty s \<longleftrightarrow> (\<forall>x. validState x \<longrightarrow> \<not> contains s x)"
  unfolding isEmpty_def using state_set_eqI [of s 0] by auto

lemma contains_combine:
  "validState y \<Longrightarrow> contains (combine s t) y \<longleftrightarrow>
     (\<exists>l r. validState l \<and> validState r \<and> contains s l \<and> contains t r \<and> y = l OR r)"
proof -
  assume "validState y"
  let ?inner = "\<lambda>l acc. foldl (\<lambda>acc r. if \<not> contains t r then acc else add acc (l OR r)) acc stateRange"
  have inner: "contains (?inner l acc) y \<longleftrightarrow>
      contains acc y \<or> (\<exists>r\<in>set stateRange. contains t r \<and> y = l OR r)" if "validState l" for l acc y
    using that by (intro contains_foldl) (auto simp: contains_add set_stateRange)
  have "contains (foldl (\<lambda>acc l. if \<not> contains s l then acc else ?inner l acc) 0 stateRange) y \<longleftrightarrow>
      contains 0 y \<or> (\<exists>l\<in>set stateRange. contains s l \<and> (\<exists>r\<in>set stateRange. contains t r \<and> y = l OR r))"
    by (intro contains_foldl) (auto simp: inner set_stateRange)
  then show ?thesis
    unfolding combine_def set_stateRange by (auto simp: isEmpty_iff)
qed

lemma contains_withBase:
  assumes "validState base"
  shows "contains (withBase s base) y \<longleftrightarrow> (\<exists>x. validState x \<and> contains s x \<and> y = x OR base)"
proof -
  have "contains (foldl (\<lambda>acc x. if \<not> contains s x then acc else add acc (x OR base)) 0 stateRange) y
      \<longleftrightarrow> contains 0 y \<or> (\<exists>x\<in>set stateRange. contains s x \<and> y = x OR base)"
    using assms by (intro contains_foldl) (auto simp: contains_add set_stateRange)
  then show ?thesis
    unfolding withBase_def set_stateRange by (auto simp: isEmpty_iff)
qed

lemma contains_filterStates:
  "contains (filterStates s allowed) y \<longleftrightarrow> validState y \<and> contains s y \<and> allowed y"
proof -
  have "contains (filterStates s allowed) y \<longleftrightarrow>
      contains 0 y \<or> (\<exists>x\<in>set stateRange. contains s x \<and> allowed x \<and> y = x)"
    unfolding filterStates_def by (intro contains_foldl) (auto simp: contains_add set_stateRange)
  then show ?thesis by (auto simp: set_stateRange)
qed

section \<open>The operations on sets of group sets\<close>

lemma mem_states: "A \<in> states s \<longleftrightarrow> (\<exists>x. validState x \<and> contains s x \<and> A = groups x)"
  by (auto simp: states_def)

lemma states_0 [simp, state_simps]: "states 0 = {}"
  by (simp add: states_def)

lemma states_single [simp, state_simps]: "validState b \<Longrightarrow> states (singleRuleMatchState b) = {groups b}"
  by (auto simp: mem_states contains_iff bit_single word_unat_eq_iff [symmetric])

lemma states_empty [simp, state_simps]: "states emptyRuleMatchState = {{}}"
  by (simp add: emptyRuleMatchState_def validState_def)

lemma states_merge [simp, state_simps]: "states (merge s t) = states s \<union> states t"
  by (auto simp: states_def contains_merge)

lemma mem_states_combine:
  "C \<in> states (combine s t) \<longleftrightarrow> (\<exists>A\<in>states s. \<exists>B\<in>states t. C = A \<union> B)"
proof
  assume "C \<in> states (combine s t)"
  then obtain y where "validState y" "contains (combine s t) y" "C = groups y"
    by (auto simp: mem_states)
  then obtain l r where "validState l" "contains s l" "validState r" "contains t r" "C = groups (l OR r)"
    using contains_combine [of y s t] by blast
  then have "groups l \<in> states s" "groups r \<in> states t" "C = groups l \<union> groups r"
    by (auto simp: mem_states groups_OR)
  then show "\<exists>A\<in>states s. \<exists>B\<in>states t. C = A \<union> B" by blast
next
  assume "\<exists>A\<in>states s. \<exists>B\<in>states t. C = A \<union> B"
  then obtain l r where lr: "validState l" "contains s l" "validState r" "contains t r"
    and C: "C = groups (l OR r)"
    by (auto simp: mem_states groups_OR)
  then have "validState (l OR r)" "contains (combine s t) (l OR r)"
    using contains_combine [of "l OR r" s t] validState_OR by blast+
  then show "C \<in> states (combine s t)" using C by (auto simp: mem_states)
qed

lemma states_combine [simp, state_simps]:
  "states (combine s t) = (\<lambda>(A, B). A \<union> B) ` (states s \<times> states t)"
  by (rule set_eqI) (auto simp: mem_states_combine image_iff)

lemma states_withBase [simp, state_simps]:
  assumes "validState b"
  shows "states (withBase s b) = (\<lambda>A. A \<union> groups b) ` states s"
proof -
  have "{y. validState y \<and> contains (withBase s b) y} =
      (\<lambda>x. x OR b) ` {x. validState x \<and> contains s x}"
    using assms by (auto simp: contains_withBase validState_OR)
  then show ?thesis unfolding states_def by (simp add: image_image groups_OR)
qed

lemma states_filterStates:
  assumes "\<And>x. validState x \<Longrightarrow> allowed x \<longleftrightarrow> P (groups x)"
  shows "states (filterStates s allowed) = {A \<in> states s. P A}"
  using assms by (auto simp: states_def contains_filterStates)

lemma states_inject [simp]: "states s = states t \<longleftrightarrow> s = t"
proof
  assume eq: "states s = states t"
  show "s = t"
  proof (rule state_set_eqI)
    fix x :: ruleMatchState
    assume "validState x"
    then have "contains u x \<longleftrightarrow> groups x \<in> states u" for u
      using groups_inject by (auto simp: states_def)
    with eq show "contains s x \<longleftrightarrow> contains t x" by simp
  qed
qed simp

lemma isEmpty_states [simp, state_simps]: "isEmpty s \<longleftrightarrow> states s = {}"
  using states_inject [of s 0] by (simp add: isEmpty_def)

text \<open>
  What the rule engine relies on: the masks and their sets are representations of group sets and of
  sets of group sets, and every operation of the code is the set operation it stands for.
\<close>

locale group_state_sets =
  fixes gr :: "'m \<Rightarrow> 'g set"
    and valid :: "'m \<Rightarrow> bool"
    and join :: "'m \<Rightarrow> 'm \<Rightarrow> 'm"
    and sts :: "'s \<Rightarrow> 'g set set"
    and none :: "'s"
    and single :: "'m \<Rightarrow> 's"
    and union :: "'s \<Rightarrow> 's \<Rightarrow> 's"
    and comb :: "'s \<Rightarrow> 's \<Rightarrow> 's"
    and base :: "'s \<Rightarrow> 'm \<Rightarrow> 's"
  assumes valid_join: "valid a \<Longrightarrow> valid b \<Longrightarrow> valid (join a b)"
    and gr_join: "gr (join a b) = gr a \<union> gr b"
    and sts_inj: "sts s = sts t \<Longrightarrow> s = t"
    and sts_none: "sts none = {}"
    and sts_single: "valid b \<Longrightarrow> sts (single b) = {gr b}"
    and sts_union: "sts (union s t) = sts s \<union> sts t"
    and sts_comb: "sts (comb s t) = (\<lambda>(A, B). A \<union> B) ` (sts s \<times> sts t)"
    and sts_base: "valid b \<Longrightarrow> sts (base s b) = (\<lambda>A. A \<union> gr b) ` sts s"
begin

lemma mem_comb: "C \<in> sts (comb s t) \<longleftrightarrow> (\<exists>A\<in>sts s. \<exists>B\<in>sts t. C = A \<union> B)"
  by (auto simp: sts_comb)

lemma comb_commute: "comb s t = comb t s"
proof (rule sts_inj, rule set_eqI)
  fix C
  show "C \<in> sts (comb s t) \<longleftrightarrow> C \<in> sts (comb t s)"
    unfolding mem_comb by (metis Un_commute)
qed

lemma combI: "A \<in> sts s \<Longrightarrow> B \<in> sts t \<Longrightarrow> A \<union> B \<in> sts (comb s t)"
  by (auto simp: mem_comb)

lemma combE: "C \<in> sts (comb s t) \<Longrightarrow> (\<And>A B. A \<in> sts s \<Longrightarrow> B \<in> sts t \<Longrightarrow> C = A \<union> B \<Longrightarrow> thesis) \<Longrightarrow> thesis"
  by (auto simp: mem_comb)

lemma comb_assoc_le: "sts (comb (comb s t) u) \<subseteq> sts (comb s (comb t u))"
proof
  fix C
  assume "C \<in> sts (comb (comb s t) u)"
  then obtain E D where E: "E \<in> sts (comb s t)" and D: "D \<in> sts u" "C = E \<union> D"
    by (rule combE)
  from E obtain A B where "A \<in> sts s" "B \<in> sts t" "E = A \<union> B" by (rule combE)
  with D show "C \<in> sts (comb s (comb t u))" by (simp add: combI Un_assoc)
qed

lemma comb_assoc: "comb (comb s t) u = comb s (comb t u)"
proof (rule sts_inj, rule subset_antisym [OF comb_assoc_le])
  have "comb s (comb t u) = comb (comb u t) s" "comb u (comb t s) = comb (comb s t) u"
    by (metis comb_commute)+
  then show "sts (comb s (comb t u)) \<subseteq> sts (comb (comb s t) u)"
    using comb_assoc_le [of u t s] by simp
qed

lemma comb_union: "comb s (union t u) = union (comb s t) (comb s u)"
  by (rule sts_inj) (auto simp: sts_comb sts_union)

lemma base_eq_comb: "valid b \<Longrightarrow> base s b = comb s (single b)"
  by (rule sts_inj) (auto simp: sts_comb sts_base sts_single)

lemma base_base: "valid a \<Longrightarrow> valid b \<Longrightarrow> base (base s a) b = base s (join a b)"
  by (rule sts_inj) (simp add: sts_base valid_join gr_join image_image Un_assoc)

lemma base_union: "valid b \<Longrightarrow> base (union s t) b = union (base s b) (base t b)"
  by (rule sts_inj) (auto simp: sts_base sts_union)

lemma base_single: "valid a \<Longrightarrow> valid b \<Longrightarrow> base (single a) b = single (join a b)"
  by (rule sts_inj) (simp add: sts_base sts_single valid_join gr_join)

lemma comb_base: "valid b \<Longrightarrow> comb (base s b) t = base (comb s t) b"
  by (simp only: base_eq_comb comb_assoc comb_commute [of "single b" t])

lemma comb_none: "comb s none = none" "comb none s = none"
  by (auto intro!: sts_inj simp: sts_comb sts_none)

lemma sts_empty_iff: "sts s = {} \<longleftrightarrow> s = none"
  using sts_inj [of s none] by (auto simp: sts_none)

lemma comb_eq_none: "comb s t = none \<longleftrightarrow> s = none \<or> t = none"
proof -
  have "sts (comb s t) = {} \<longleftrightarrow> sts s = {} \<or> sts t = {}" by (simp add: sts_comb)
  then show ?thesis by (simp only: sts_empty_iff)
qed

end

interpretation rms: group_state_sets groups validState "(OR)" states 0 singleRuleMatchState
  merge combine withBase
  by unfold_locales (simp_all add: validState_OR groups_OR)

text \<open>
  C1: read as sets of groups, \<open>combine\<close> yields exactly the unions of a state of its first argument
  with a state of its second, for all 65536 values of either argument.
\<close>

theorem combine_spec: "states (combine s t) = {A \<union> B | A B. A \<in> states s \<and> B \<in> states t}"
proof (rule set_eqI, unfold mem_states_combine, rule iffI)
  fix C
  assume "\<exists>A\<in>states s. \<exists>B\<in>states t. C = A \<union> B"
  then show "C \<in> {A \<union> B | A B. A \<in> states s \<and> B \<in> states t}"
    by (elim bexE) (intro CollectI exI conjI)
next
  fix C
  assume "C \<in> {A \<union> B | A B. A \<in> states s \<and> B \<in> states t}"
  then show "\<exists>A\<in>states s. \<exists>B\<in>states t. C = A \<union> B"
    by (elim CollectE exE conjE) (intro bexI)
qed

end
