(* ===== verification/Domain_Matcher.thy ===== *)
theory Domain_Matcher
  imports Prelude "HOL-Library.Char_ord" "HOL-Library.List_Lexorder"
begin

text \<open>
  The domain matcher of \<open>replace/sing/common/domain\<close>: a succinct trie over the reversed domains
  (\<open>set.go\<close>) and the lookup that walks it (\<open>matcher.go\<close>). Slices are lists, bytes are characters,
  and an index out of range, where Go panics, is \<open>None\<close>. Bit positions are natural numbers; the
  \<open>int32\<close> counters of the code agree with them while the bitmap has fewer than \<open>2 ^ 31\<close> bits.
\<close>

section \<open>Bitmaps\<close>

definition index :: "'a list \<Rightarrow> nat \<Rightarrow> 'a option" where
  "index xs i = (if i < length xs then Some (xs ! i) else None)"

definition setBit :: "uint64 list \<Rightarrow> nat \<Rightarrow> uint64 \<Rightarrow> uint64 list" where
  "setBit bm i v =
     (let bm' = bm @ replicate (i div 64 + 1 - length bm) 0
      in bm'[i div 64 := bm' ! (i div 64) OR push_bit (i mod 64) v])"

definition getBit :: "uint64 list \<Rightarrow> nat \<Rightarrow> uint64 option" where
  "getBit bm i = map_option (\<lambda>w. w AND push_bit (i mod 64) 1) (index bm (i div 64))"

definition onesCount :: "'a::len word \<Rightarrow> nat" where
  "onesCount w = length (filter (bit w) [0..<LENGTH('a)])"

definition trailingZeros :: "'a::len word \<Rightarrow> nat" where
  "trailingZeros w = length (takeWhile (\<lambda>i. \<not> bit w i) [0..<LENGTH('a)])"

record succinctSet =
  leaves :: "uint64 list"
  labelBitmap :: "uint64 list"
  labels :: string
  ranks :: "nat list"
  selects :: "nat list"

text \<open>\<open>indexRank64\<close> with the trailing count: the number of ones before each word.\<close>

fun indexRankFrom :: "nat \<Rightarrow> uint64 list \<Rightarrow> nat list" where
  "indexRankFrom n [] = [n]"
| "indexRankFrom n (w # ws) = n # indexRankFrom (n + onesCount w) ws"

definition indexRank64 :: "uint64 list \<Rightarrow> nat list" where
  "indexRank64 words = indexRankFrom 0 words"

text \<open>The position of every 32nd one, and the rank index.\<close>

definition indexSelect32R64 :: "uint64 list \<Rightarrow> nat list \<times> nat list" where
  "indexSelect32R64 words =
     (let (_, sidx) = foldl (\<lambda>(ith, sidx) i.
            if words ! (i div 64) AND push_bit (i mod 64) 1 \<noteq> 0
            then (ith + 1, if ith mod 32 = 0 then sidx @ [i] else sidx)
            else (ith, sidx)) (0 :: nat, []) [0..<length words * 64]
      in (sidx, indexRank64 words))"

definition succinctSet_init :: "succinctSet \<Rightarrow> succinctSet" where
  "succinctSet_init ss =
     (let (s, r) = indexSelect32R64 (labelBitmap ss) in ss\<lparr>selects := s, ranks := r\<rparr>)"

definition rank64 :: "uint64 list \<Rightarrow> nat list \<Rightarrow> nat \<Rightarrow> (nat \<times> nat) option" where
  "rank64 words rindex i =
     (case (index rindex (i div 64), index words (i div 64)) of
        (Some n, Some w) \<Rightarrow>
          Some (n + onesCount (w AND mask (i mod 64)), if bit w (i mod 64) then 1 else 0)
      | _ \<Rightarrow> None)"

definition countZeros :: "uint64 list \<Rightarrow> nat list \<Rightarrow> nat \<Rightarrow> nat option" where
  "countZeros bm rindex i = map_option (\<lambda>(a, _). i - a) (rank64 bm rindex i)"

text \<open>
  The table of \<open>initSelectLookup\<close>: entry \<open>i * 8 + j\<close> is the position of the one number \<open>j\<close> of byte
  \<open>i\<close>, 8 when there is none.
\<close>

definition select8Lookup :: "nat \<Rightarrow> nat" where
  "select8Lookup k = trailingZeros (((\<lambda>w. w AND (w - 1)) ^^ (k mod 8)) (of_nat (k div 8) :: uint8))"

fun selectWord :: "nat list \<Rightarrow> nat \<Rightarrow> nat \<Rightarrow> nat \<Rightarrow> nat option" where
  "selectWord rankIndex i 0 wordI = None"
| "selectWord rankIndex i (Suc fuel) wordI =
     (case index rankIndex (wordI + 1) of
        None \<Rightarrow> None
      | Some r \<Rightarrow> if r \<le> i then selectWord rankIndex i fuel (wordI + 1) else Some wordI)"

text \<open>The part of \<open>select32R64\<close> inside a word: the position of its one number \<open>findIth\<close>.\<close>

definition selectInWord :: "uint64 \<Rightarrow> nat \<Rightarrow> nat" where
  "selectInWord w findIth0 =
     (let ones32 = onesCount (ucast w :: 32 word);
          (ww, findIth, offset) =
            (if ones32 \<le> findIth0 then (drop_bit 32 w, findIth0 - ones32, 32) else (w, findIth0, 0));
          ones16 = onesCount (ucast ww :: 16 word);
          (ww, findIth, offset) =
            (if ones16 \<le> findIth then (drop_bit 16 ww, findIth - ones16, offset OR 16)
             else (ww, findIth, offset));
          ones8 = onesCount (ucast ww :: 8 word)
      in if ones8 \<le> findIth
         then select8Lookup (unat ((drop_bit 5 ww AND 0x7f8) OR of_nat (findIth - ones8))) + offset + 8
         else select8Lookup (unat ((push_bit 3 (ww AND 0xff)) OR of_nat findIth)) + offset)"

text \<open>\<open>selectIthOne\<close> takes the first component of \<open>select32R64\<close>; the second is not used anywhere.\<close>

definition selectIthOne :: "uint64 list \<Rightarrow> nat list \<Rightarrow> nat list \<Rightarrow> nat \<Rightarrow> nat option" where
  "selectIthOne bm rindex sindex i =
     (case index sindex (i div 32) of
        None \<Rightarrow> None
      | Some s \<Rightarrow>
          (case selectWord rindex i (length rindex) (s div 64) of
             None \<Rightarrow> None
           | Some wordI \<Rightarrow>
               (case (index bm wordI, index rindex wordI) of
                  (Some w, Some r) \<Rightarrow> Some (selectInWord w (i - r) + wordI * 64)
                | _ \<Rightarrow> None)))"

section \<open>Building the trie\<close>

type_synonym qElt = "nat \<times> nat \<times> nat"

text \<open>The end of the run of keys that agree with \<open>c\<close> at \<open>col\<close>, among the \<open>n\<close> keys from \<open>j\<close>.\<close>

fun scanSame :: "string list \<Rightarrow> nat \<Rightarrow> char \<Rightarrow> nat \<Rightarrow> nat \<Rightarrow> nat option" where
  "scanSame keys col c 0 j = Some j"
| "scanSame keys col c (Suc n) j =
     (case Option.bind (index keys j) (\<lambda>k. index k col) of
        None \<Rightarrow> None
      | Some d \<Rightarrow> if d = c then scanSame keys col c n (j + 1) else Some j)"

text \<open>The children of a node over the keys \<open>j..<e\<close>: their queue elements and labels.\<close>

fun childLoop :: "string list \<Rightarrow> nat \<Rightarrow> nat \<Rightarrow> nat \<Rightarrow> nat \<Rightarrow> (qElt \<times> char) list option" where
  "childLoop keys col e 0 j = Some []"
| "childLoop keys col e (Suc n) j =
     (if j < e then
        (case Option.bind (index keys j) (\<lambda>k. index k col) of
           None \<Rightarrow> None
         | Some c \<Rightarrow>
             (case scanSame keys col c (e - j) j of
                None \<Rightarrow> None
              | Some j' \<Rightarrow>
                  map_option (\<lambda>rest. ((j, j', col + 1), c) # rest) (childLoop keys col e n j')))
      else Some [])"

definition addChild :: "succinctSet \<times> nat \<Rightarrow> char \<Rightarrow> succinctSet \<times> nat" where
  "addChild st c =
     (case st of (ss, lIdx) \<Rightarrow>
        (ss\<lparr>labels := labels ss @ [c], labelBitmap := setBit (labelBitmap ss) lIdx 0\<rparr>, lIdx + 1))"

fun buildLoop :: "nat \<Rightarrow> string list \<Rightarrow> qElt list \<Rightarrow> nat \<Rightarrow> succinctSet \<Rightarrow> nat \<Rightarrow> succinctSet option" where
  "buildLoop fuel keys [] i ss lIdx = Some ss"
| "buildLoop 0 keys (elt # queue) i ss lIdx = None"
| "buildLoop (Suc fuel) keys ((s, e, col) # queue) i ss lIdx =
     (case index keys s of
        None \<Rightarrow> None
      | Some k \<Rightarrow>
          (let (s', ss1) =
                 (if col = length k then (s + 1, ss\<lparr>leaves := setBit (leaves ss) i 1\<rparr>) else (s, ss))
           in case childLoop keys col e (e - s') s' of
                None \<Rightarrow> None
              | Some children \<Rightarrow>
                  (let (ss2, lIdx2) = foldl addChild (ss1, lIdx) (map snd children);
                       ss3 = ss2\<lparr>labelBitmap := setBit (labelBitmap ss2) lIdx2 1\<rparr>
                   in buildLoop fuel keys (queue @ map fst children) (i + 1) ss3 (lIdx2 + 1))))"

definition emptySuccinctSet :: succinctSet where
  "emptySuccinctSet = \<lparr>leaves = [], labelBitmap = [], labels = [], ranks = [], selects = []\<rparr>"

text \<open>The queue holds one element per node of the trie: at most one more than the keys' characters.\<close>

definition newSuccinctSet :: "string list \<Rightarrow> succinctSet option" where
  "newSuccinctSet keys =
     map_option succinctSet_init
       (buildLoop (1 + sum_list (map length keys)) keys [(0, length keys, 0)] 0 emptySuccinctSet 0)"

section \<open>Reversing a domain by runes\<close>

text \<open>
  \<open>utf8.DecodeRuneInString\<close>: the rune and its width, with the error rune and width one for every
  byte that does not begin a valid sequence.
\<close>

type_synonym rune = "32 word"

definition runeError :: rune where
  "runeError = 0xFFFD"

definition inRange :: "char \<Rightarrow> nat \<Rightarrow> nat \<Rightarrow> bool" where
  "inRange c lo hi \<longleftrightarrow> lo \<le> of_char c \<and> of_char c \<le> hi"

definition secondRange :: "char \<Rightarrow> nat \<times> nat" where
  "secondRange c =
     (if of_char c = (0xE0 :: nat) then (0xA0, 0xBF) else if of_char c = (0xED :: nat) then (0x80, 0x9F)
      else if of_char c = (0xF0 :: nat) then (0x90, 0xBF) else if of_char c = (0xF4 :: nat) then (0x80, 0x8F)
      else (0x80, 0xBF))"

definition runeWidth :: "char \<Rightarrow> nat" where
  "runeWidth c =
     (if inRange c 0 0x7F then 1 else if inRange c 0xC2 0xDF then 2 else if inRange c 0xE0 0xEF then 3
      else if inRange c 0xF0 0xF4 then 4 else 0)"

definition contBits :: "char \<Rightarrow> rune" where
  "contBits c = of_char c AND 0x3F"

definition DecodeRune :: "string \<Rightarrow> rune \<times> nat" where
  "DecodeRune s =
     (if s = [] then (runeError, 0)
      else
        let c = hd s; n = runeWidth c
        in if n = 0 \<or> length s < n then (runeError, 1)
           else if n = 1 then (of_char c, 1)
           else if \<not> inRange (s ! 1) (fst (secondRange c)) (snd (secondRange c)) then (runeError, 1)
           else if n = 2 then (push_bit 6 (of_char c AND 0x1F) OR contBits (s ! 1), 2)
           else if \<not> inRange (s ! 2) 0x80 0xBF then (runeError, 1)
           else if n = 3 then
             (push_bit 12 (of_char c AND 0x0F) OR push_bit 6 (contBits (s ! 1)) OR contBits (s ! 2), 3)
           else if \<not> inRange (s ! 3) 0x80 0xBF then (runeError, 1)
           else (push_bit 18 (of_char c AND 0x07) OR push_bit 12 (contBits (s ! 1))
                   OR push_bit 6 (contBits (s ! 2)) OR contBits (s ! 3), 4))"

definition byteChar :: "rune \<Rightarrow> char" where
  "byteChar r = char_of (uint r)"

definition EncodeRune :: "rune \<Rightarrow> string" where
  "EncodeRune r0 =
     (if r0 \<le> 0x7F then [byteChar r0]
      else if r0 \<le> 0x7FF then [byteChar (0xC0 OR drop_bit 6 r0), byteChar (0x80 OR (r0 AND 0x3F))]
      else
        let r = (if r0 > 0x10FFFF \<or> 0xD800 \<le> r0 \<and> r0 \<le> 0xDFFF then runeError else r0)
        in if r \<le> 0xFFFF then
             [byteChar (0xE0 OR drop_bit 12 r), byteChar (0x80 OR (drop_bit 6 r AND 0x3F)),
              byteChar (0x80 OR (r AND 0x3F))]
           else
             [byteChar (0xF0 OR drop_bit 18 r), byteChar (0x80 OR (drop_bit 12 r AND 0x3F)),
              byteChar (0x80 OR (drop_bit 6 r AND 0x3F)), byteChar (0x80 OR (r AND 0x3F))])"

text \<open>
  \<open>reverseDomain\<close> fills its buffer from the end: after \<open>i\<close> bytes are read the rune goes to
  \<open>b[l-i:]\<close>, which has \<open>i\<close> bytes; a longer encoding panics. The filled part of the buffer is the
  accumulator, so writing the encoding of the rune replaces its first bytes.
\<close>

function reverseLoop :: "string \<Rightarrow> string \<Rightarrow> string option" where
  "reverseLoop s acc =
     (if s = [] then Some acc
      else
        let (r, n) = DecodeRune s; out = EncodeRune r
        in if n + length acc < length out then None
           else reverseLoop (drop n s) (out @ drop (length out) (replicate n (CHR 0x00) @ acc)))"
  by pat_completeness auto

lemma DecodeRune_pos: "s \<noteq> [] \<Longrightarrow> 0 < snd (DecodeRune s)"
  unfolding DecodeRune_def Let_def if_distrib [of snd] snd_conv by simp

termination reverseLoop
proof (relation "measure (\<lambda>(s, acc). length s)")
  fix s acc :: string and x r n out
  assume "s \<noteq> []" "x = DecodeRune s" "(r, n) = x"
  then have "0 < n" using DecodeRune_pos [of s] by (metis snd_conv)
  with \<open>s \<noteq> []\<close> show "((drop n s, out @ drop (length out) (replicate n (CHR 0x00) @ acc)), s, acc) \<in> measure (\<lambda>(s, acc). length s)"
    by simp
qed simp

declare reverseLoop.simps [simp del]

definition reverseDomain :: "string \<Rightarrow> string option" where
  "reverseDomain domain = reverseLoop domain []"

section \<open>The matcher\<close>

abbreviation (input) prefixLabel :: char where
  "prefixLabel \<equiv> CHR 0x0D"

abbreviation (input) rootLabel :: char where
  "rootLabel \<equiv> CHR 0x0A"

type_synonym Matcher = succinctSet

text \<open>The strings of one domain suffix, with the \<open>seen\<close> keys it marks.\<close>

definition suffixKeys :: "bool \<Rightarrow> string list \<Rightarrow> string \<Rightarrow> string list \<times> string list" where
  "suffixKeys generateLegacy seen domain =
     (if hd domain = CHR ''.'' then ([prefixLabel # domain], domain # seen)
      else if generateLegacy then
        let suffixDomain = CHR ''.'' # domain; seen' = domain # seen
        in if suffixDomain \<in> set seen' then ([domain], seen')
           else ([domain, prefixLabel # suffixDomain], suffixDomain # seen')
      else ([rootLabel # domain], domain # seen))"

fun suffixLoop :: "bool \<Rightarrow> string list \<Rightarrow> string list \<Rightarrow> (string list \<times> string list) option" where
  "suffixLoop generateLegacy seen [] = Some ([], seen)"
| "suffixLoop generateLegacy seen (domain # rest) =
     (if domain \<in> set seen then suffixLoop generateLegacy seen rest
      else if domain = [] then None
      else
        let (ks, seen') = suffixKeys generateLegacy seen domain
        in map_option (\<lambda>(l, seen''). (ks @ l, seen'')) (suffixLoop generateLegacy seen' rest))"

fun domainLoop :: "string list \<Rightarrow> string list \<Rightarrow> string list" where
  "domainLoop seen [] = []"
| "domainLoop seen (domain # rest) =
     (if domain \<in> set seen then domainLoop seen rest else domain # domainLoop (domain # seen) rest)"

fun mapOption :: "('a \<Rightarrow> 'b option) \<Rightarrow> 'a list \<Rightarrow> 'b list option" where
  "mapOption f [] = Some []"
| "mapOption f (x # xs) =
     (case f x of None \<Rightarrow> None | Some y \<Rightarrow> map_option (\<lambda>ys. y # ys) (mapOption f xs))"

definition NewMatcher :: "string list \<Rightarrow> string list \<Rightarrow> bool \<Rightarrow> Matcher option" where
  "NewMatcher domains domainSuffix generateLegacy =
     Option.bind (suffixLoop generateLegacy [] domainSuffix) (\<lambda>(suffixes, seen).
       Option.bind (mapOption reverseDomain (suffixes @ domainLoop seen domains)) (\<lambda>domainList.
         newSuccinctSet (sort domainList)))"

text \<open>
  The search for the label \<open>c\<close> among the children of a node: \<open>Inl b\<close> when \<open>has\<close> returns \<open>b\<close>, \<open>Inr\<close>
  the bit of the child when the loop breaks. The bit position grows and reading past the bitmap
  panics, so as many rounds as the bitmap has bits, and one more, are enough.
\<close>

fun hasLabel :: "nat \<Rightarrow> Matcher \<Rightarrow> char \<Rightarrow> nat \<Rightarrow> nat \<Rightarrow> (bool + nat) option" where
  "hasLabel 0 m c nodeId bmIdx = None"
| "hasLabel (Suc fuel) m c nodeId bmIdx =
     (case getBit (labelBitmap m) bmIdx of
        None \<Rightarrow> None
      | Some b \<Rightarrow>
          if b \<noteq> 0 then Some (Inl False)
          else (case index (labels m) (bmIdx - nodeId) of
             None \<Rightarrow> None
           | Some nextLabel \<Rightarrow>
               if nextLabel = prefixLabel then Some (Inl True)
               else
                 let continue =
                   (if nextLabel = c then Some (Inr bmIdx) else hasLabel fuel m c nodeId (bmIdx + 1))
                 in if nextLabel = rootLabel then
                      Option.bind (countZeros (labelBitmap m) (ranks m) (bmIdx + 1)) (\<lambda>nextNodeId.
                        Option.bind (getBit (leaves m) nextNodeId) (\<lambda>hasNext.
                          if c = CHR ''.'' \<and> hasNext \<noteq> 0 then Some (Inl True) else continue))
                    else continue))"

fun hasTail :: "nat \<Rightarrow> Matcher \<Rightarrow> nat \<Rightarrow> nat \<Rightarrow> bool option" where
  "hasTail 0 m nodeId bmIdx = None"
| "hasTail (Suc fuel) m nodeId bmIdx =
     (case getBit (labelBitmap m) bmIdx of
        None \<Rightarrow> None
      | Some b \<Rightarrow>
          if b \<noteq> 0 then Some False
          else (case index (labels m) (bmIdx - nodeId) of
             None \<Rightarrow> None
           | Some nextLabel \<Rightarrow>
               if nextLabel = prefixLabel \<or> nextLabel = rootLabel then Some True
               else hasTail fuel m nodeId (bmIdx + 1)))"

definition bitmapFuel :: "Matcher \<Rightarrow> nat" where
  "bitmapFuel m = length (labelBitmap m) * 64 + 1"

fun matcher_has_from :: "Matcher \<Rightarrow> string \<Rightarrow> nat \<Rightarrow> nat \<Rightarrow> bool option" where
  "matcher_has_from m [] nodeId bmIdx =
     Option.bind (getBit (leaves m) nodeId) (\<lambda>leaf.
       if leaf \<noteq> 0 then Some True else hasTail (bitmapFuel m) m nodeId bmIdx)"
| "matcher_has_from m (c # key) nodeId bmIdx =
     (case hasLabel (bitmapFuel m) m c nodeId bmIdx of
        None \<Rightarrow> None
      | Some (Inl b) \<Rightarrow> Some b
      | Some (Inr bmIdx') \<Rightarrow>
          Option.bind (countZeros (labelBitmap m) (ranks m) (bmIdx' + 1)) (\<lambda>nodeId'.
            Option.bind (selectIthOne (labelBitmap m) (ranks m) (selects m) (nodeId' - 1)) (\<lambda>p.
              matcher_has_from m key nodeId' (p + 1))))"

definition matcher_has :: "Matcher \<Rightarrow> string \<Rightarrow> bool option" where
  "matcher_has m key = matcher_has_from m key 0 0"

definition Matcher_Match :: "Matcher \<Rightarrow> string \<Rightarrow> bool option" where
  "Matcher_Match m domain = Option.bind (reverseDomain domain) (matcher_has m)"

end
