(* ===== verification/Bitmap_Index.thy ===== *)
theory Bitmap_Index
  imports Domain_Matcher
begin

text \<open>
  Correctness of the bitmap routines of \<open>replace/sing/common/domain/set.go\<close>: setting and reading
  bits, the rank index of \<open>indexRank64\<close> and \<open>rank64\<close>, and the select index with the search inside a
  word of \<open>select32R64\<close>. \<open>testBit\<close> reads a bitmap as a set of positions and \<open>ones\<close> counts them below
  a bound; rank and select are proved against these two.
\<close>

unbundle bit_operations_syntax

section \<open>Bits of a bitmap\<close>

definition testBit :: "uint64 list \<Rightarrow> nat \<Rightarrow> bool" where
  "testBit bm j \<longleftrightarrow> j div 64 < length bm \<and> bit (bm ! (j div 64)) (j mod 64)"

definition ones :: "(nat \<Rightarrow> bool) \<Rightarrow> nat \<Rightarrow> nat" where
  "ones P n = length (filter P [0..<n])"

lemma ones_0 [simp]: "ones P 0 = 0"
  by (simp add: ones_def)

lemma ones_Suc [simp]: "ones P (Suc n) = ones P n + (if P n then 1 else 0)"
  by (simp add: ones_def)

lemma ones_mono: "m \<le> n \<Longrightarrow> ones P m \<le> ones P n"
  by (induction n) (auto simp: le_Suc_eq)

lemma ones_le: "ones P n \<le> n"
  by (induction n) auto

lemma ones_add: "ones P (m + n) = ones P m + ones (\<lambda>j. P (m + j)) n"
  by (induction n) auto

lemma ones_cong: "(\<And>j. j < n \<Longrightarrow> P j = Q j) \<Longrightarrow> ones P n = ones Q n"
  by (induction n) auto

lemma ones_less: "P m \<Longrightarrow> m < n \<Longrightarrow> ones P m < ones P n"
  using ones_mono [of "Suc m" n P] by simp

lemma ones_unique: "P p \<Longrightarrow> P q \<Longrightarrow> ones P p = ones P q \<Longrightarrow> p = q"
  by (metis ones_less nat_neq_iff)

lemma getBit_eq: "j div 64 < length bm \<Longrightarrow> \<exists>b. getBit bm j = Some b \<and> (b \<noteq> 0 \<longleftrightarrow> testBit bm j)"
  by (simp add: getBit_def index_def testBit_def and_exp_eq_0_iff_not_bit)

lemma length_setBit [simp]: "length (setBit bm i v) = max (length bm) (i div 64 + 1)"
  by (simp add: setBit_def Let_def)

lemma testBit_setBit:
  "testBit (setBit bm i v) j \<longleftrightarrow> testBit bm j \<or> (j div 64 = i div 64 \<and> bit (push_bit (i mod 64) v) (j mod 64))"
proof -
  let ?bm = "bm @ replicate (i div 64 + 1 - length bm) 0"
  have "bit (?bm ! k) n \<longleftrightarrow> k < length bm \<and> bit (bm ! k) n" if "k < length ?bm" for k n
    using that by (auto simp: nth_append)
  then show ?thesis
    by (auto simp: testBit_def setBit_def Let_def nth_list_update bit_or_iff)
qed

lemma testBit_set_1 [simp]: "testBit (setBit bm i 1) j \<longleftrightarrow> j = i \<or> testBit bm j"
proof -
  have "j div 64 = i div 64 \<and> j mod 64 = i mod 64 \<longleftrightarrow> j = i" by (metis div_mult_mod_eq)
  then show ?thesis by (auto simp: testBit_setBit bit_exp_iff)
qed

lemma testBit_set_0 [simp]: "testBit (setBit bm i 0) j \<longleftrightarrow> testBit bm j"
  by (simp add: testBit_setBit)

lemma testBit_Nil [simp]: "\<not> testBit [] j"
  by (simp add: testBit_def)

section \<open>The rank index\<close>

lemma onesCount_ones: "onesCount (w :: 'a::len word) = ones (bit w) LENGTH('a)"
  by (simp add: onesCount_def ones_def)

lemma ones_mask: "ones (bit (w AND mask j :: 'a::len word)) n = ones (bit w) (min j n)"
proof -
  have "ones P (min j n) = ones (\<lambda>k. P k \<and> k < j) n" for P
  proof (induction n)
    case (Suc n)
    then show ?case by (cases "n < j") (simp_all add: min_absorb1 min_absorb2)
  qed simp
  moreover have "bit (w AND mask j) = (\<lambda>k. bit w k \<and> k < j)"
    by (auto simp: fun_eq_iff bit_and_iff bit_mask_iff dest: bit_imp_le_length)
  ultimately show ?thesis by simp
qed

lemma ones_word:
  assumes "k < length bm" "j \<le> 64"
  shows "ones (testBit bm) (k * 64 + j) = ones (testBit bm) (k * 64) + ones (bit (bm ! k)) j"
proof -
  have "ones (\<lambda>i. testBit bm (k * 64 + i)) j = ones (bit (bm ! k)) j"
    using assms by (intro ones_cong) (simp add: testBit_def)
  then show ?thesis by (simp add: ones_add)
qed

lemma ones_words: "k \<le> length bm \<Longrightarrow> ones (testBit bm) (k * 64) = sum_list (map onesCount (take k bm))"
proof (induction k)
  case (Suc k)
  then have k: "k < length bm" by simp
  have "ones (testBit bm) (Suc k * 64) = ones (testBit bm) (k * 64) + onesCount (bm ! k)"
    using ones_word [OF k, of 64] by (simp add: onesCount_ones add.commute [of 64])
  with Suc k show ?case by (simp add: take_Suc_conv_app_nth del: mult_Suc)
qed simp

lemma indexRankFrom_nth: "k \<le> length ws \<Longrightarrow> indexRankFrom n ws ! k = n + sum_list (map onesCount (take k ws))"
  by (induction n ws arbitrary: k rule: indexRankFrom.induct) (auto simp: nth_Cons' take_Cons')

lemma length_indexRankFrom [simp]: "length (indexRankFrom n ws) = length ws + 1"
  by (induction n ws rule: indexRankFrom.induct) auto

lemma length_indexRank64 [simp]: "length (indexRank64 ws) = length ws + 1"
  by (simp add: indexRank64_def)

lemma indexRank64_nth: "k \<le> length ws \<Longrightarrow> indexRank64 ws ! k = ones (testBit ws) (k * 64)"
  by (simp add: indexRank64_def indexRankFrom_nth ones_words)

lemma rank64_ones:
  assumes "i < 64 * length ws"
  shows "rank64 ws (indexRank64 ws) i = Some (ones (testBit ws) i, if testBit ws i then 1 else 0)"
proof -
  have k: "i div 64 < length ws" using assms by simp
  have "onesCount (ws ! (i div 64) AND mask (i mod 64)) = ones (bit (ws ! (i div 64))) (i mod 64)"
    by (simp add: onesCount_ones ones_mask min_def)
  then show ?thesis
    using k ones_word [OF k, of "i mod 64"]
    by (simp add: rank64_def index_def indexRank64_nth testBit_def)
qed

lemma countZeros_eq:
  "i < 64 * length ws \<Longrightarrow> countZeros ws (indexRank64 ws) i = Some (i - ones (testBit ws) i)"
  by (simp add: countZeros_def rank64_ones)

section \<open>The select index\<close>

text \<open>\<open>isSelect P a f\<close>: the one number \<open>f\<close> of \<open>P\<close> is at \<open>a\<close>.\<close>

definition isSelect :: "(nat \<Rightarrow> bool) \<Rightarrow> nat \<Rightarrow> nat \<Rightarrow> bool" where
  "isSelect P a f \<longleftrightarrow> P a \<and> ones P a = f"

lemma isSelect_shift: "isSelect (\<lambda>j. P (n + j)) a (f - ones P n) \<Longrightarrow> ones P n \<le> f \<Longrightarrow> isSelect P (n + a) f"
  by (simp add: isSelect_def ones_add)

lemma select_exists: "f < ones P n \<Longrightarrow> \<exists>a<n. isSelect P a f"
proof (induction n)
  case (Suc n)
  then show ?case
    by (cases "f < ones P n") (auto simp: isSelect_def less_Suc_eq split: if_splits)
qed simp

lemma trailingZeros_first:
  assumes "bit (w :: 'a::len word) t" "\<And>j. j < t \<Longrightarrow> \<not> bit w j"
  shows "trailingZeros w = t"
proof -
  have t: "t < LENGTH('a)" using assms(1) by (rule bit_imp_le_length)
  have "takeWhile (\<lambda>i. \<not> bit w i) [0..<LENGTH('a)] = take t [0..<LENGTH('a)]"
    using assms t by (intro takeWhile_eq_take_P_nth) auto
  then show ?thesis using t by (simp add: trailingZeros_def)
qed

lemma clear_lowest:
  assumes "bit (w :: 'a::len word) t" "\<And>j. j < t \<Longrightarrow> \<not> bit w j"
  shows "bit (w AND (w - 1)) j \<longleftrightarrow> bit w j \<and> j \<noteq> t"
proof -
  define n where "n = Suc t"
  let ?v = "push_bit n (drop_bit n w)"
  have t: "t < LENGTH('a)" using assms(1) by (rule bit_imp_le_length)
  have "bit ?v i \<longleftrightarrow> bit w i \<and> n \<le> i" for i
    by (auto simp: bit_push_bit_iff bit_drop_bit_eq dest: bit_imp_le_length)
  then have v: "bit ?v i \<longleftrightarrow> bit w i \<and> t < i" for i by (simp only: n_def Suc_le_eq)
  have e: "bit (2 ^ t :: 'a word) i \<longleftrightarrow> i = t" for i using t by (auto simp: bit_exp_iff)
  have w: "w = ?v + 2 ^ t"
  proof -
    have "?v + 2 ^ t = ?v OR 2 ^ t" by (rule disjunctive_add) (auto simp: v e)
    moreover have "w = ?v OR 2 ^ t"
      using assms by (intro bit_eqI) (auto simp: bit_or_iff v e intro: linorder_neqE_nat)
    ultimately show ?thesis by simp
  qed
  have "w - 1 = ?v + mask t" by (subst w) (simp add: mask_eq_exp_minus_1)
  also have "\<dots> = ?v OR mask t"
    by (rule disjunctive_add) (auto simp: v bit_mask_iff)
  finally have "bit (w - 1) j \<longleftrightarrow> (bit w j \<and> t < j) \<or> (j < t \<and> j < LENGTH('a))"
    by (auto simp: bit_or_iff v bit_mask_iff)
  then show ?thesis using assms by (auto simp: bit_and_iff intro: linorder_neqE_nat)
qed

lemma select8_bits:
  "k \<le> ones (bit (w :: uint8)) 8 \<Longrightarrow> bit (((\<lambda>w. w AND (w - 1)) ^^ k) w) j \<longleftrightarrow> bit w j \<and> k \<le> ones (bit w) j"
proof (induction k arbitrary: j)
  case (Suc k)
  let ?u = "((\<lambda>w. w AND (w - 1)) ^^ k) w"
  from Suc.prems obtain t where t: "isSelect (bit w) t k" using select_exists [of k "bit w" 8] by auto
  have IH: "bit ?u i \<longleftrightarrow> bit w i \<and> k \<le> ones (bit w) i" for i using Suc by simp
  have "\<not> bit ?u i" if "i < t" for i
    using t that ones_less [of "bit w" i t] by (auto simp: IH isSelect_def)
  moreover have "bit ?u t" using t by (simp add: IH isSelect_def)
  ultimately have "bit (?u AND (?u - 1)) j \<longleftrightarrow> bit ?u j \<and> j \<noteq> t" by (intro clear_lowest)
  then show ?case
    using t by (auto simp: IH isSelect_def Suc_le_eq dest: ones_unique [of "bit w" j t] order.not_eq_order_implies_strict)
qed simp

lemma select8_isSelect:
  assumes "f < ones (bit (w :: uint8)) 8" "f < 8"
  shows "isSelect (bit w) (select8Lookup (unat w * 8 + f)) f"
proof -
  let ?u = "((\<lambda>w. w AND (w - 1)) ^^ f) w"
  obtain t where t: "isSelect (bit w) t f" using select_exists [OF assms(1)] by auto
  have "bit ?u i \<longleftrightarrow> bit w i \<and> f \<le> ones (bit w) i" for i using assms(1) by (intro select8_bits) simp
  then have "trailingZeros ?u = t"
    using t by (intro trailingZeros_first) (auto simp: isSelect_def dest: ones_less [of "bit w" _ t])
  then show ?thesis using t assms(2) by (simp add: select8Lookup_def)
qed

text \<open>The search inside a word halves three times and looks the byte up.\<close>

lemma ones_ucast:
  "LENGTH('b::len) \<le> LENGTH('a::len) \<Longrightarrow> onesCount (ucast (w :: 'a word) :: 'b word) = ones (bit w) LENGTH('b)"
  unfolding onesCount_ones by (rule ones_cong) (auto simp: bit_ucast_iff dest: bit_imp_le_length)

lemma lookup_index:
  fixes ww :: uint64
  assumes "f < 8"
  shows "unat (push_bit 3 (ww AND 0xff) OR of_nat f) = unat (ucast ww :: uint8) * 8 + f"
    and "unat ((drop_bit 5 ww AND 0x7f8) OR of_nat f) = unat (ucast (drop_bit 8 ww) :: uint8) * 8 + f"
proof -
  have idx: "unat (push_bit 3 (take_bit 8 v) OR (of_nat f :: uint64)) = unat (ucast v :: uint8) * 8 + f"
    for v :: uint64
  proof -
    have "push_bit 3 (take_bit 8 v) OR (of_nat f :: uint64) = push_bit 3 (take_bit 8 v) + of_nat f"
    proof (rule disjunctive_add [symmetric])
      fix n
      have "of_nat f = (take_bit 3 (of_nat f) :: uint64)"
        using assms by (simp add: take_bit_eq_mod word_unat_eq_iff unat_mod_distrib unat_of_nat)
      then have "\<not> bit (of_nat f :: uint64) n" if "3 \<le> n"
        using that by (metis bit_take_bit_iff leD)
      then show "\<not> bit (push_bit 3 (take_bit 8 v)) n \<or> \<not> bit (of_nat f :: uint64) n"
        by (auto simp: bit_push_bit_iff)
    qed
    moreover have "unat (ucast v :: uint8) = take_bit 8 (unat v)" by (simp add: unsigned_ucast_eq)
    moreover have t: "unat (take_bit 8 v) = take_bit 8 (unat v)" by (simp only: unsigned_take_bit_eq)
    moreover have lt: "take_bit 8 (unat v) < 256" using take_bit_nat_less_exp [of 8 "unat v"] by simp
    moreover have "unat (push_bit 3 (take_bit 8 v)) = take_bit 8 (unat v) * 8"
      unfolding push_bit_eq_mult unat_word_ariths(2) t using lt by simp
    ultimately show ?thesis using assms by (simp add: unat_word_ariths(1) unat_of_nat)
  qed
  show "unat (push_bit 3 (ww AND 0xff) OR of_nat f) = unat (ucast ww :: uint8) * 8 + f"
    using idx [of ww] by (simp add: take_bit_eq_mask mask_eq_exp_minus_1)
  show "unat ((drop_bit 5 ww AND 0x7f8) OR of_nat f) = unat (ucast (drop_bit 8 ww) :: uint8) * 8 + f"
  proof -
    have "drop_bit 5 ww AND 0x7f8 = push_bit 3 (take_bit 8 (drop_bit 8 ww))"
    proof (rule bit_eqI)
      fix n
      have eq: "(0x7f8 :: uint64) = push_bit 3 (mask 8)" by (simp add: mask_eq_exp_minus_1)
      have m: "bit (0x7f8 :: uint64) n \<longleftrightarrow> 3 \<le> n \<and> n < 11"
        unfolding eq bit_push_bit_iff bit_mask_iff by auto
      show "bit (drop_bit 5 ww AND 0x7f8) n \<longleftrightarrow> bit (push_bit 3 (take_bit 8 (drop_bit 8 ww))) n"
        unfolding bit_and_iff m bit_push_bit_iff bit_take_bit_iff bit_drop_bit_eq by auto
    qed
    then show ?thesis using idx [of "drop_bit 8 ww"] by simp
  qed
qed

lemma ones_half: "ones (bit (v :: uint64)) (n + m) = ones (bit v) n + ones (bit (drop_bit n v)) m"
  by (simp add: ones_add bit_drop_bit_eq comp_def)

lemma isSelect_half:
  "isSelect (bit (drop_bit n v)) a (f - ones (bit v) n) \<Longrightarrow> ones (bit v) n \<le> f \<Longrightarrow> isSelect (bit (v :: uint64)) (n + a) f"
  by (rule isSelect_shift) (simp_all add: bit_drop_bit_eq comp_def)

lemma byte_isSelect:
  fixes ww :: uint64
  assumes "f < ones (bit ww) 16"
  shows "isSelect (bit ww)
    (if onesCount (ucast ww :: uint8) \<le> f
     then select8Lookup (unat ((drop_bit 5 ww AND 0x7f8) OR of_nat (f - onesCount (ucast ww :: uint8)))) + 8
     else select8Lookup (unat (push_bit 3 (ww AND 0xff) OR of_nat f))) f"
proof -
  have o8: "onesCount (ucast v :: uint8) = ones (bit v) 8" for v :: uint64
    using ones_ucast [where 'a = 64 and 'b = 8 and w = v] by simp
  have byte: "isSelect (bit v) (select8Lookup (unat (ucast v :: uint8) * 8 + g)) g"
    if g: "g < ones (bit v) 8" for v :: uint64 and g
  proof -
    have g8: "g < 8" using g ones_le [of "bit v" 8] by simp
    have g': "g < ones (bit (ucast v :: uint8)) 8" using g o8 [of v] onesCount_ones [of "ucast v :: uint8"] by simp
    define a where "a = select8Lookup (unat (ucast v :: uint8) * 8 + g)"
    have sel: "isSelect (bit (ucast v :: uint8)) a g"
      unfolding a_def by (rule select8_isSelect [OF g' g8])
    then have "a < 8" using bit_imp_le_length [of "ucast v :: uint8" a] by (simp add: isSelect_def)
    then have "ones (bit (ucast v :: uint8)) a = ones (bit v) a" by (intro ones_cong) (simp add: bit_ucast_iff)
    with sel show ?thesis unfolding a_def [symmetric] by (auto simp: isSelect_def bit_ucast_iff)
  qed
  show ?thesis
  proof (cases "ones (bit ww) 8 \<le> f")
    case True
    define g where "g = f - ones (bit ww) 8"
    have add: "ones (bit ww) 16 = ones (bit ww) 8 + ones (bit (drop_bit 8 ww)) 8"
      using ones_add [of "bit ww" 8 8] by (simp add: bit_drop_bit_eq comp_def)
    have lt: "g < ones (bit (drop_bit 8 ww)) 8" using assms add True by (simp add: g_def)
    then have "g < 8" using ones_le [of "bit (drop_bit 8 ww)" 8] by simp
    then have "isSelect (bit (drop_bit 8 ww)) (select8Lookup (unat ((drop_bit 5 ww AND 0x7f8) OR of_nat g))) g"
      using byte [OF lt] by (simp add: lookup_index(2))
    from isSelect_half [OF this [unfolded g_def] True] show ?thesis
      using True by (simp add: o8 add.commute [of 8] del: of_nat_diff)
  next
    case False
    then have f8: "f < 8" using ones_le [of "bit ww" 8] by simp
    show ?thesis unfolding lookup_index(1) [OF f8] o8 using False byte [of f ww] by simp
  qed
qed

lemma selectInWord_isSelect:
  assumes "f < onesCount (w :: uint64)"
  shows "isSelect (bit w) (selectInWord w f) f"
proof -
  have o32: "onesCount (ucast v :: 32 word) = ones (bit v) 32" for v :: uint64
    using ones_ucast [where 'a = 64 and 'b = 32 and w = v] by simp
  have o16: "onesCount (ucast v :: 16 word) = ones (bit v) 16" for v :: uint64
    using ones_ucast [where 'a = 64 and 'b = 16 and w = v] by simp
  define byte where "byte = (\<lambda>(ww :: uint64) f. if onesCount (ucast ww :: uint8) \<le> f
     then select8Lookup (unat ((drop_bit 5 ww AND 0x7f8) OR of_nat (f - onesCount (ucast ww :: uint8)))) + 8
     else select8Lookup (unat (push_bit 3 (ww AND 0xff) OR of_nat f)))"
  define quarter where "quarter = (\<lambda>(ww :: uint64) f. if ones (bit ww) 16 \<le> f
     then byte (drop_bit 16 ww) (f - ones (bit ww) 16) + 16 else byte ww f)"
  have b: "f < ones (bit ww) 16 \<Longrightarrow> isSelect (bit ww) (byte ww f) f" for ww f
    unfolding byte_def by (rule byte_isSelect)
  have q: "isSelect (bit ww) (quarter ww f) f" if "f < ones (bit ww) 32" for ww f
    using that b [of f ww] b [of "f - ones (bit ww) 16" "drop_bit 16 ww"] isSelect_half [of 16 ww _ f]
      ones_half [of ww 16 16] by (simp add: quarter_def add.commute [of 16])
  have "selectInWord w f =
      (if ones (bit w) 32 \<le> f then quarter (drop_bit 32 w) (f - ones (bit w) 32) + 32 else quarter w f)"
    by (simp add: selectInWord_def quarter_def byte_def Let_def o32 o16)
  then show ?thesis
    using assms q [of f w] q [of "f - ones (bit w) 32" "drop_bit 32 w"] isSelect_half [of 32 w _ f]
      ones_half [of w 32 32] by (simp add: onesCount_ones add.commute [of 32])
qed

lemma selectInWord_less: "f < onesCount w \<Longrightarrow> selectInWord w f < 64"
  using selectInWord_isSelect [of f w] bit_imp_le_length [of w "selectInWord w f"] by (simp add: isSelect_def)

lemma selects_fold:
  fixes ws :: "uint64 list"
  defines "step \<equiv> \<lambda>(ith, sidx) i. if ws ! (i div 64) AND push_bit (i mod 64) 1 \<noteq> 0
            then (ith + 1, if ith mod 32 = 0 then sidx @ [i] else sidx) else (ith :: nat, sidx)"
  assumes "n \<le> length ws * 64"
  shows "\<exists>sidx. foldl step (0, []) [0..<n] = (ones (testBit ws) n, sidx) \<and>
    ones (testBit ws) n \<le> 32 * length sidx \<and> 32 * length sidx < ones (testBit ws) n + 32 \<and>
    (\<forall>k<length sidx. isSelect (testBit ws) (sidx ! k) (32 * k))"
  using assms(2)
proof (induction n)
  case (Suc n)
  define c where "c = ones (testBit ws) n"
  from Suc obtain sidx where IH: "foldl step (0, []) [0..<n] = (c, sidx)"
    "c \<le> 32 * length sidx" "32 * length sidx < c + 32" "\<forall>k<length sidx. isSelect (testBit ws) (sidx ! k) (32 * k)"
    unfolding c_def by auto
  have bit: "ws ! (n div 64) AND push_bit (n mod 64) 1 \<noteq> 0 \<longleftrightarrow> testBit ws n"
    using Suc.prems by (simp add: testBit_def and_exp_eq_0_iff_not_bit less_mult_imp_div_less)
  show ?case
  proof (cases "testBit ws n \<and> c mod 32 = 0")
    case True
    then obtain q where q: "c = 32 * q" by auto
    have "q \<le> length sidx" "length sidx < q + 1" using IH(2,3) q by simp_all
    then have c: "c = 32 * length sidx" using q by simp
    then have "\<forall>k<length (sidx @ [n]). isSelect (testBit ws) ((sidx @ [n]) ! k) (32 * k)"
      using IH(4) True by (auto simp: nth_append isSelect_def less_Suc_eq c_def)
    moreover have "foldl step (0, []) [0..<Suc n] = (c + 1, sidx @ [n])"
      using True bit IH(1) by (simp add: step_def)
    moreover have "ones (testBit ws) (Suc n) = c + 1" using True by (simp add: c_def)
    ultimately show ?thesis using c by (intro exI [of _ "sidx @ [n]"]) simp
  next
    case False
    then have "foldl step (0, []) [0..<Suc n] = (ones (testBit ws) (Suc n), sidx)"
      using bit IH(1) by (cases "testBit ws n") (simp_all add: step_def c_def)
    moreover have "ones (testBit ws) (Suc n) \<le> 32 * length sidx"
    proof (cases "testBit ws n")
      case True
      with False have "c \<noteq> 32 * length sidx" by auto
      with True IH(2) show ?thesis by (simp add: c_def)
    qed (use IH(2) in \<open>simp add: c_def\<close>)
    moreover have "32 * length sidx < ones (testBit ws) (Suc n) + 32" using IH(3) by (simp add: c_def)
    ultimately show ?thesis using IH(4) by blast
  qed
qed simp

lemma selects_spec:
  assumes "i < ones (testBit ws) (length ws * 64)"
  shows "\<exists>s. index (fst (indexSelect32R64 ws)) (i div 32) = Some s \<and> isSelect (testBit ws) s (32 * (i div 32))"
proof -
  obtain sidx where s: "fst (indexSelect32R64 ws) = sidx"
    "ones (testBit ws) (length ws * 64) \<le> 32 * length sidx"
    "\<forall>k<length sidx. isSelect (testBit ws) (sidx ! k) (32 * k)"
    using selects_fold [of "length ws * 64" ws] by (auto simp: indexSelect32R64_def)
  have "i div 32 < length sidx" using assms s(2) by (intro less_mult_imp_div_less) simp
  then show ?thesis using s by (simp add: index_def)
qed

lemma snd_indexSelect [simp]: "snd (indexSelect32R64 ws) = indexRank64 ws"
  by (simp add: indexSelect32R64_def case_prod_unfold)

lemma selectWord_spec:
  assumes "ones (testBit ws) (k * 64) \<le> i" "i < ones (testBit ws) (length ws * 64)" "length ws < k + fuel"
  shows "\<exists>wI<length ws. selectWord (indexRank64 ws) i fuel k = Some wI \<and>
    ones (testBit ws) (wI * 64) \<le> i \<and> i < ones (testBit ws) (wI * 64 + 64)"
  using assms
proof (induction fuel arbitrary: k)
  case 0
  then show ?case using ones_mono [of "length ws * 64" "k * 64" "testBit ws"] by simp
next
  case (Suc fuel)
  have k: "k < length ws"
  proof (rule ccontr)
    assume "\<not> k < length ws"
    then have "ones (testBit ws) (length ws * 64) \<le> ones (testBit ws) (k * 64)" by (intro ones_mono) simp
    with Suc.prems show False by simp
  qed
  have idx: "index (indexRank64 ws) (k + 1) = Some (ones (testBit ws) (k * 64 + 64))"
    using k indexRank64_nth [of "k + 1" ws] by (simp add: index_def add.commute [of 64])
  show ?case
  proof (cases "ones (testBit ws) (k * 64 + 64) \<le> i")
    case True
    then have "ones (testBit ws) ((k + 1) * 64) \<le> i" by (simp add: add.commute [of 64])
    with Suc.IH [of "k + 1"] Suc.prems True idx show ?thesis by simp
  next
    case False
    then show ?thesis using k Suc.prems idx by simp
  qed
qed

lemma selectIthOne_eq:
  assumes "i < ones (testBit ws) (length ws * 64)"
  shows "\<exists>p. selectIthOne ws (indexRank64 ws) (fst (indexSelect32R64 ws)) i = Some p \<and> isSelect (testBit ws) p i"
proof -
  obtain s where s: "index (fst (indexSelect32R64 ws)) (i div 32) = Some s" "isSelect (testBit ws) s (32 * (i div 32))"
    using selects_spec [OF assms] by blast
  have "ones (testBit ws) (s div 64 * 64) \<le> ones (testBit ws) s" by (intro ones_mono) simp
  then have "ones (testBit ws) (s div 64 * 64) \<le> i" using s(2) by (simp add: isSelect_def)
  from selectWord_spec [OF this assms, of "length ws + 1"] obtain wI where
    w: "wI < length ws" "selectWord (indexRank64 ws) i (length ws + 1) (s div 64) = Some wI"
      "ones (testBit ws) (wI * 64) \<le> i" "i < ones (testBit ws) (wI * 64 + 64)"
    by auto
  let ?f = "i - ones (testBit ws) (wI * 64)" and ?w = "ws ! wI"
  have "?f < onesCount ?w" using w ones_word [OF w(1), of 64] by (simp add: onesCount_ones)
  then have sel: "isSelect (bit ?w) (selectInWord ?w ?f) ?f" "selectInWord ?w ?f < 64"
    by (rule selectInWord_isSelect, rule selectInWord_less)
  define a where "a = selectInWord ?w ?f"
  have "isSelect (testBit ws) (wI * 64 + a) i"
    using sel w ones_word [OF w(1), of a] unfolding a_def [symmetric] by (simp add: isSelect_def testBit_def)
  then show ?thesis
    using s(1) w indexRank64_nth [of wI ws]
    by (simp add: selectIthOne_def index_def a_def add.commute)
qed



end
