(* ===== verification/Succinct_Trie.thy ===== *)
theory Succinct_Trie
  imports Bitmap_Index
begin

text \<open>
  Correctness of the trie of \<open>replace/sing/common/domain/set.go\<close>. A node is read as the set of the
  strings that lead from it to the end of a key; \<open>newSuccinctSet\<close> is shown to build a bitmap in which
  the steps of the lookups move from a node to its child, and the steps are collected in the locale
  \<open>trie_navigation\<close>, which the theories of the two matchers use.
\<close>

section \<open>Nodes of the trie as sets of strings\<close>

definition keysOK :: "string list \<Rightarrow> bool" where
  "keysOK keys \<longleftrightarrow> keys \<noteq> [] \<and> sorted keys \<and> distinct keys"

definition heads :: "string set \<Rightarrow> char set" where
  "heads L = {c. \<exists>w. c # w \<in> L}"

definition tails :: "char \<Rightarrow> string set \<Rightarrow> string set" where
  "tails c L = {w. c # w \<in> L}"

fun nodeOK :: "string list \<Rightarrow> qElt \<Rightarrow> bool" where
  "nodeOK keys (s, e, col) \<longleftrightarrow> s < e \<and> e \<le> length keys \<and>
     (\<forall>j. s \<le> j \<and> j < e \<longrightarrow> col \<le> length (keys ! j) \<and> take col (keys ! j) = take col (keys ! s))"

fun lang :: "string list \<Rightarrow> qElt \<Rightarrow> string set" where
  "lang keys (s, e, col) = {drop col (keys ! j) |j. s \<le> j \<and> j < e}"

fun weight :: "string list \<Rightarrow> qElt \<Rightarrow> nat" where
  "weight keys (s, e, col) = 1 + (\<Sum>j\<in>{s..<e}. length (keys ! j) - col)"

declare nodeOK.simps [simp del]

lemma nodeOK_D:
  assumes "nodeOK keys (s, e, col)"
  shows "s < e" "e \<le> length keys"
    and "s \<le> j \<Longrightarrow> j < e \<Longrightarrow> col \<le> length (keys ! j)"
    and "s \<le> j \<Longrightarrow> j < e \<Longrightarrow> take col (keys ! j) = take col (keys ! s)"
  using assms unfolding nodeOK.simps by blast+

lemma take_le: "take n xs \<le> (xs :: string)"
proof (induction xs arbitrary: n)
  case (Cons x xs)
  then show ?case by (cases n) simp_all
qed simp

lemma nth_le_of_le:
  "take n x = take n y \<Longrightarrow> n < length x \<Longrightarrow> n < length y \<Longrightarrow> x \<le> y \<Longrightarrow> x ! n \<le> (y ! n :: char)"
proof (induction n arbitrary: x y)
  case 0
  then show ?case by (cases x; cases y) auto
next
  case (Suc n)
  then show ?case by (cases x; cases y) auto
qed

lemma node_short:
  assumes "keysOK keys" "nodeOK keys (s, e, col)" "s \<le> j" "j < e" "length (keys ! j) = col"
  shows "j = s"
proof -
  note node = nodeOK_D [OF assms(2)]
  have "keys ! j \<le> keys ! s" using take_le [of col "keys ! s"] node(4) [of j] assms(3-5) by simp
  moreover have "keys ! s \<le> keys ! j" using assms(1,3,4) node(2) by (simp add: keysOK_def sorted_nth_mono)
  ultimately have "keys ! j = keys ! s" by simp
  then show ?thesis using assms(1,4) node(1,2) by (simp add: keysOK_def nth_eq_iff_index_eq)
qed

lemma node_leaf:
  assumes "keysOK keys" "nodeOK keys (s, e, col)"
  shows "col = length (keys ! s) \<longleftrightarrow> [] \<in> lang keys (s, e, col)"
proof
  assume "col = length (keys ! s)"
  then show "[] \<in> lang keys (s, e, col)" using nodeOK_D(1) [OF assms(2)] by auto
next
  assume "[] \<in> lang keys (s, e, col)"
  then obtain j where j: "s \<le> j" "j < e" "length (keys ! j) \<le> col" by auto
  then have "length (keys ! j) = col" using nodeOK_D(3) [OF assms(2)] by (simp add: le_antisym)
  with node_short [OF assms j(1,2)] show "col = length (keys ! s)" by simp
qed

section \<open>The children of a node\<close>

definition firstKey :: "string list \<Rightarrow> qElt \<Rightarrow> nat" where
  "firstKey keys q = (case q of (s, e, col) \<Rightarrow> if col = length (keys ! s) then s + 1 else s)"

lemma after_leaf:
  assumes "keysOK keys" "nodeOK keys (s, e, col)" "firstKey keys (s, e, col) \<le> j" "j < e"
  shows "col < length (keys ! j)"
proof -
  have "col \<le> length (keys ! j)"
    using nodeOK_D(3) [OF assms(2), of j] assms(3,4) by (simp add: firstKey_def split: if_splits)
  moreover have "length (keys ! j) \<noteq> col"
    using node_short [OF assms(1,2), of j] assms(3,4) by (auto simp: firstKey_def split: if_splits)
  ultimately show ?thesis by simp
qed

lemma char_mono:
  assumes "keysOK keys" "nodeOK keys (s, e, col)" "firstKey keys (s, e, col) \<le> a" "a \<le> b" "b < e"
  shows "keys ! a ! col \<le> keys ! b ! col"
proof (rule nth_le_of_le)
  have s: "s \<le> a" using assms(3) by (simp add: firstKey_def split: if_splits)
  then show "take col (keys ! a) = take col (keys ! b)"
    using nodeOK_D(4) [OF assms(2), of a] nodeOK_D(4) [OF assms(2), of b] assms(4,5) by simp
  show "col < length (keys ! a)" "col < length (keys ! b)"
    using after_leaf [OF assms(1,2)] assms(3-5) by auto
  show "keys ! a \<le> keys ! b"
    using assms(1,4,5) nodeOK_D(2) [OF assms(2)] by (simp add: keysOK_def sorted_nth_mono)
qed

lemma scanSame_spec:
  assumes "\<And>x. j \<le> x \<Longrightarrow> x < j + n \<Longrightarrow> x < length keys \<and> col < length (keys ! x)"
  shows "\<exists>j'. scanSame keys col c n j = Some j' \<and> j \<le> j' \<and> j' \<le> j + n \<and>
    (\<forall>x. j \<le> x \<and> x < j' \<longrightarrow> keys ! x ! col = c) \<and> (j' < j + n \<longrightarrow> keys ! j' ! col \<noteq> c)"
  using assms
proof (induction n arbitrary: j)
  case (Suc n)
  have i: "Option.bind (index keys j) (\<lambda>k. index k col) = Some (keys ! j ! col)"
    using Suc.prems [of j] by (simp add: index_def)
  show ?case
  proof (cases "keys ! j ! col = c")
    case True
    from Suc.IH [of "j + 1"] Suc.prems obtain j' where j': "scanSame keys col c n (j + 1) = Some j'" "j + 1 \<le> j'"
      "j' \<le> j + 1 + n" "\<forall>x. j + 1 \<le> x \<and> x < j' \<longrightarrow> keys ! x ! col = c" "j' < j + 1 + n \<longrightarrow> keys ! j' ! col \<noteq> c"
      by auto
    have "keys ! x ! col = c" if "j \<le> x" "x < j'" for x
      using j'(4) True that by (cases "x = j") auto
    then show ?thesis using j' True i by auto
  qed (use i in auto)
qed auto

text \<open>
  The groups of keys found by the inner loops: consecutive, each with its label, the labels in
  increasing order, and together no heavier than the keys.
\<close>

definition isGroup :: "string list \<Rightarrow> nat \<Rightarrow> nat \<Rightarrow> nat \<Rightarrow> qElt \<times> char \<Rightarrow> bool" where
  "isGroup keys col j e g = (case g of ((a, b, col'), c) \<Rightarrow>
     col' = col + 1 \<and> j \<le> a \<and> a < b \<and> b \<le> e \<and> (\<forall>x. a \<le> x \<and> x < b \<longrightarrow> keys ! x ! col = c))"

lemma group_weight:
  assumes "a < b" "\<And>x. a \<le> x \<Longrightarrow> x < b \<Longrightarrow> col < length (keys ! x)"
  shows "weight keys (a, b, col + 1) \<le> (\<Sum>x\<in>{a..<b}. length (keys ! x) - col)"
proof -
  have "(\<Sum>x\<in>{a..<b}. length (keys ! x) - col) = (\<Sum>x\<in>{a..<b}. (length (keys ! x) - (col + 1)) + 1)"
    using assms(2) by (intro sum.cong) (auto simp: Suc_diff_Suc)
  also have "\<dots> = (\<Sum>x\<in>{a..<b}. length (keys ! x) - (col + 1)) + (b - a)"
    by (simp only: sum.distrib) simp
  finally show ?thesis using assms(1) by simp
qed

lemma childLoop_spec:
  assumes "\<And>x. j \<le> x \<Longrightarrow> x < e \<Longrightarrow> x < length keys \<and> col < length (keys ! x)"
    and "\<And>x y. j \<le> x \<Longrightarrow> x \<le> y \<Longrightarrow> y < e \<Longrightarrow> keys ! x ! col \<le> keys ! y ! col"
    and "e - j \<le> n"
  shows "\<exists>ch. childLoop keys col e n j = Some ch \<and> (\<forall>g\<in>set ch. isGroup keys col j e g) \<and>
    sorted_wrt (<) (map snd ch) \<and> (\<forall>x. j \<le> x \<and> x < e \<longrightarrow> (\<exists>a b c. ((a, b, col + 1), c) \<in> set ch \<and> a \<le> x \<and> x < b)) \<and>
    (\<Sum>q\<leftarrow>map fst ch. weight keys q) \<le> (\<Sum>x\<in>{j..<e}. length (keys ! x) - col)"
  using assms
proof (induction n arbitrary: j)
  case (Suc n)
  show ?case
  proof (cases "j < e")
    case True
    define c where "c = keys ! j ! col"
    have i: "Option.bind (index keys j) (\<lambda>k. index k col) = Some c"
      using Suc.prems(1) [of j] True by (simp add: index_def c_def)
    obtain j' where j': "scanSame keys col c (e - j) j = Some j'" "j \<le> j'" "j' \<le> e"
      "\<forall>x. j \<le> x \<and> x < j' \<longrightarrow> keys ! x ! col = c" "j' < e \<longrightarrow> keys ! j' ! col \<noteq> c"
      using scanSame_spec [of j "e - j" keys col c] Suc.prems(1) True by auto
    have lt: "j < j'" using j'(2,5) True by (cases "j = j'") (auto simp: c_def)
    obtain ch where ch: "childLoop keys col e n j' = Some ch" "\<forall>g\<in>set ch. isGroup keys col j' e g"
      "sorted_wrt (<) (map snd ch)"
      "\<forall>x. j' \<le> x \<and> x < e \<longrightarrow> (\<exists>a b c. ((a, b, col + 1), c) \<in> set ch \<and> a \<le> x \<and> x < b)"
      "(\<Sum>q\<leftarrow>map fst ch. weight keys q) \<le> (\<Sum>x\<in>{j'..<e}. length (keys ! x) - col)"
      using Suc.IH [of j'] Suc.prems lt by fastforce
    let ?ch = "((j, j', col + 1), c) # ch"
    have "childLoop keys col e (Suc n) j = Some ?ch" using True i j'(1) ch(1) by simp
    moreover have "\<forall>g\<in>set ?ch. isGroup keys col j e g"
      using ch(2) j' lt by (auto simp: isGroup_def)
    moreover have "c < c'" if g: "((a, b, col'), c') \<in> set ch" for a b col' c'
    proof -
      have a: "j' \<le> a" "a < e" "keys ! a ! col = c'" using bspec [OF ch(2) g] by (auto simp: isGroup_def)
      have "c \<le> keys ! j' ! col" "keys ! j' ! col \<le> c'"
        unfolding c_def using Suc.prems(2) [of j j'] Suc.prems(2) [of j' a] a j'(2) by simp_all
      with j'(5) a show ?thesis by (metis le_less_trans order.not_eq_order_implies_strict)
    qed
    then have "sorted_wrt (<) (map snd ?ch)" using ch(3) by auto
    moreover have "\<exists>a b c. ((a, b, col + 1), c) \<in> set ?ch \<and> a \<le> x \<and> x < b" if "j \<le> x" "x < e" for x
      using that ch(4) by (cases "x < j'") (simp_all, blast, metis not_le)
    moreover have "(\<Sum>q\<leftarrow>map fst ?ch. weight keys q) \<le> (\<Sum>x\<in>{j..<e}. length (keys ! x) - col)"
    proof -
      have "weight keys (j, j', col + 1) \<le> (\<Sum>x\<in>{j..<j'}. length (keys ! x) - col)"
        using lt j'(3) Suc.prems(1) by (intro group_weight) auto
      moreover have "(\<Sum>x\<in>{j..<e}. length (keys ! x) - col) =
          (\<Sum>x\<in>{j..<j'}. length (keys ! x) - col) + (\<Sum>x\<in>{j'..<e}. length (keys ! x) - col)"
        using j'(2,3) by (simp add: sum.atLeastLessThan_concat)
      ultimately show ?thesis using ch(5) by simp
    qed
    ultimately show ?thesis by (intro exI [of _ ?ch]) (simp del: weight.simps)
  qed (simp)
qed simp

definition kids :: "string list \<Rightarrow> qElt \<Rightarrow> (qElt \<times> char) list" where
  "kids keys q = (case q of (s, e, col) \<Rightarrow>
     the (childLoop keys col e (e - firstKey keys q) (firstKey keys q)))"

lemma heads_lang: "heads (lang keys (s, e, col)) = {keys ! j ! col |j. s \<le> j \<and> j < e \<and> col < length (keys ! j)}"
proof -
  have "(\<exists>w. c # w = drop col k) \<longleftrightarrow> col < length k \<and> c = k ! col" for c and k :: string
    by (metis Cons_nth_drop_Suc drop_eq_Nil2 leI list.distinct(1) list.inject)
  then show ?thesis by (auto simp: heads_def) metis+
qed

lemma kids_groups:
  assumes "keysOK keys" "nodeOK keys (s, e, col)"
  defines "j \<equiv> firstKey keys (s, e, col)"
  shows "childLoop keys col e (e - j) j = Some (kids keys (s, e, col))"
    and "g \<in> set (kids keys (s, e, col)) \<Longrightarrow> isGroup keys col j e g"
    and "sorted_wrt (<) (map snd (kids keys (s, e, col)))"
    and "j \<le> x \<Longrightarrow> x < e \<Longrightarrow> \<exists>a b c. ((a, b, col + 1), c) \<in> set (kids keys (s, e, col)) \<and> a \<le> x \<and> x < b"
    and "(\<Sum>q\<leftarrow>map fst (kids keys (s, e, col)). weight keys q) < weight keys (s, e, col)"
proof -
  note node = nodeOK_D [OF assms(2)]
  have len: "x < length keys \<and> col < length (keys ! x)" if "j \<le> x" "x < e" for x
    using after_leaf [OF assms(1,2)] that node(2) by (simp add: j_def)
  have mono: "keys ! x ! col \<le> keys ! y ! col" if "j \<le> x" "x \<le> y" "y < e" for x y
    using char_mono [OF assms(1,2)] that by (simp add: j_def)
  obtain ch where ch: "childLoop keys col e (e - j) j = Some ch" "\<forall>g\<in>set ch. isGroup keys col j e g"
    "sorted_wrt (<) (map snd ch)"
    "\<forall>x. j \<le> x \<and> x < e \<longrightarrow> (\<exists>a b c. ((a, b, col + 1), c) \<in> set ch \<and> a \<le> x \<and> x < b)"
    "(\<Sum>q\<leftarrow>map fst ch. weight keys q) \<le> (\<Sum>x\<in>{j..<e}. length (keys ! x) - col)"
    using childLoop_spec [of j e keys col "e - j"] len mono by auto
  then have kids: "kids keys (s, e, col) = ch" by (simp add: kids_def j_def)
  show "childLoop keys col e (e - j) j = Some (kids keys (s, e, col))" using ch(1) kids by simp
  show "g \<in> set (kids keys (s, e, col)) \<Longrightarrow> isGroup keys col j e g" using ch(2) kids by simp
  show "sorted_wrt (<) (map snd (kids keys (s, e, col)))" using ch(3) kids by simp
  show "\<exists>a b c. ((a, b, col + 1), c) \<in> set (kids keys (s, e, col)) \<and> a \<le> x \<and> x < b" if "j \<le> x" "x < e"
    using ch(4) kids that by simp
  have "(\<Sum>x\<in>{j..<e}. length (keys ! x) - col) \<le> (\<Sum>x\<in>{s..<e}. length (keys ! x) - col)"
    by (intro sum_mono2) (auto simp: j_def firstKey_def)
  then show "(\<Sum>q\<leftarrow>map fst (kids keys (s, e, col)). weight keys q) < weight keys (s, e, col)"
    using ch(5) kids by simp
qed

lemma kids_member:
  assumes "keysOK keys" "nodeOK keys (s, e, col)" "((a, b, col'), c) \<in> set (kids keys (s, e, col))"
    and "firstKey keys (s, e, col) \<le> x" "x < e"
  shows "keys ! x ! col = c \<longleftrightarrow> a \<le> x \<and> x < b"
proof
  note kg = kids_groups [OF assms(1,2)]
  show "keys ! x ! col = c" if "a \<le> x \<and> x < b"
    using kg(2) [OF assms(3)] that by (simp add: isGroup_def)
  assume c: "keys ! x ! col = c"
  obtain a' b' c' where g': "((a', b', col + 1), c') \<in> set (kids keys (s, e, col))" "a' \<le> x" "x < b'"
    using kg(4) [OF assms(4,5)] by blast
  then have "c' = c" using kg(2) [OF g'(1)] c by (simp add: isGroup_def)
  moreover have "inj_on snd (set (kids keys (s, e, col)))"
    using kg(3) by (simp add: strict_sorted_iff distinct_map)
  ultimately have "((a, b, col'), c) = ((a', b', col + 1), c')"
    using inj_onD [of snd, OF _ _ assms(3) g'(1)] by simp
  with g' show "a \<le> x \<and> x < b" by simp
qed

lemma firstKey_le: "s \<le> x \<Longrightarrow> col < length (keys ! x) \<Longrightarrow> firstKey keys (s, e, col) \<le> x"
  by (cases "x = s") (auto simp: firstKey_def)

lemma kids_heads:
  assumes "keysOK keys" "nodeOK keys (s, e, col)"
  shows "heads (lang keys (s, e, col)) = snd ` set (kids keys (s, e, col))"
proof (intro set_eqI iffI)
  note kg = kids_groups [OF assms]
  fix c
  assume "c \<in> heads (lang keys (s, e, col))"
  then obtain x where x: "c = keys ! x ! col" "s \<le> x" "x < e" "col < length (keys ! x)"
    unfolding heads_lang by blast
  note j = firstKey_le [OF x(2,4), of e]
  obtain a b c' where g: "((a, b, col + 1), c') \<in> set (kids keys (s, e, col))" "a \<le> x" "x < b"
    using kg(4) [OF j x(3)] by blast
  then have "c' = c" using kids_member [OF assms g(1) j x(3)] x(1) by simp
  with g(1) show "c \<in> snd ` set (kids keys (s, e, col))" by force
next
  note kg = kids_groups [OF assms]
  fix c
  assume "c \<in> snd ` set (kids keys (s, e, col))"
  then obtain a b col' where g: "((a, b, col'), c) \<in> set (kids keys (s, e, col))" by auto
  have a: "firstKey keys (s, e, col) \<le> a" "a < e" "keys ! a ! col = c"
    using kg(2) [OF g] by (simp_all add: isGroup_def)
  moreover have "s \<le> a" using a(1) by (simp add: firstKey_def split: if_splits)
  ultimately show "c \<in> heads (lang keys (s, e, col))"
    using after_leaf [OF assms a(1,2)] unfolding heads_lang by blast
qed

lemma kids_child:
  assumes "keysOK keys" "nodeOK keys (s, e, col)" "(q', c) \<in> set (kids keys (s, e, col))"
  shows "nodeOK keys q'" "lang keys q' = tails c (lang keys (s, e, col))" "snd (snd q') = col + 1"
proof -
  obtain a b where q': "q' = (a, b, col + 1)" and g: "((a, b, col + 1), c) \<in> set (kids keys (s, e, col))"
    using kids_groups(2) [OF assms] assms(3) by (cases q') (auto simp: isGroup_def)
  have a: "firstKey keys (s, e, col) \<le> a" "a < b" "b \<le> e"
    using kids_groups(2) [OF assms(1,2) g] by (simp_all add: isGroup_def)
  have sa: "s \<le> a" using a(1) by (simp add: firstKey_def split: if_splits)
  note mem = kids_member [OF assms(1,2) g] and len = after_leaf [OF assms(1,2)] and node = nodeOK_D [OF assms(2)]
  have pre: "take (col + 1) (keys ! x) = take col (keys ! s) @ [c]" if "a \<le> x" "x < b" for x
    using mem [of x] len [of x] node(4) [of x] a that sa by (simp add: take_Suc_conv_app_nth)
  show "nodeOK keys q'"
    unfolding q' nodeOK.simps using pre len a node(2) by (auto simp: Suc_le_eq)
  show "lang keys q' = tails c (lang keys (s, e, col))"
  proof (intro set_eqI iffI)
    fix w
    assume "w \<in> lang keys q'"
    then obtain x where x: "a \<le> x" "x < b" "w = drop (col + 1) (keys ! x)" by (auto simp: q')
    then have "c # w = drop col (keys ! x)"
      using mem [of x] len [of x] a Cons_nth_drop_Suc [of col "keys ! x"] by simp
    moreover have "s \<le> x" "x < e" using x a sa by simp_all
    ultimately show "w \<in> tails c (lang keys (s, e, col))" by (auto simp: tails_def)
  next
    fix w
    assume "w \<in> tails c (lang keys (s, e, col))"
    then obtain x where x: "s \<le> x" "x < e" "c # w = drop col (keys ! x)" by (auto simp: tails_def)
    then have l: "col < length (keys ! x)" by (metis drop_all list.distinct(1) not_le)
    with x have "keys ! x ! col = c" "w = drop (Suc col) (keys ! x)"
      using Cons_nth_drop_Suc [OF l] by (metis list.inject)+
    with mem [OF firstKey_le [OF x(1) l] x(2)] show "w \<in> lang keys q'" by (auto simp: q')
  qed
  show "snd (snd q') = col + 1" by (simp add: q')
qed

lemma kids_labels:
  assumes "keysOK keys" "nodeOK keys q"
  shows "map snd (kids keys q) = sorted_list_of_set (heads (lang keys q))"
proof -
  obtain s e col where q: "q = (s, e, col)" by (cases q) auto
  note sorted = kids_groups(3) [OF assms(1) assms(2) [unfolded q]]
  have heads: "heads (lang keys q) = set (map snd (kids keys q))"
    using kids_heads [OF assms(1) assms(2) [unfolded q]] unfolding q set_map .
  show ?thesis
    unfolding heads using sorted
    by (intro sorted_list_of_set.idem_if_sorted_distinct [symmetric]) (simp_all add: q strict_sorted_iff)
qed

section \<open>Building the trie\<close>

definition nodeKids :: "string list \<Rightarrow> qElt list \<Rightarrow> qElt list" where
  "nodeKids keys P = concat (map (\<lambda>q. map fst (kids keys q)) P)"

definition nodeLabels :: "string list \<Rightarrow> qElt list \<Rightarrow> string" where
  "nodeLabels keys P = concat (map (\<lambda>q. map snd (kids keys q)) P)"

definition nodeBits :: "string list \<Rightarrow> qElt list \<Rightarrow> bool list" where
  "nodeBits keys P = concat (map (\<lambda>q. replicate (length (kids keys q)) False @ [True]) P)"

definition bitAt :: "bool list \<Rightarrow> nat \<Rightarrow> nat \<Rightarrow> bool" where
  "bitAt bs i j \<longleftrightarrow> i \<le> j \<and> j - i < length bs \<and> bs ! (j - i)"

lemma bitAt_block:
  "bitAt (replicate n False @ True # bs) i j \<longleftrightarrow> j = i + n \<or> bitAt bs (i + n + 1) j"
proof (cases "j \<le> i + n")
  case True
  then show ?thesis by (auto simp: bitAt_def nth_append)
next
  case False
  then have "j - i = n + Suc (j - (i + n + 1))" by simp
  then show ?thesis using False by (auto simp: bitAt_def nth_append)
qed

lemma bitAt_Cons: "bitAt (b # bs) i j \<longleftrightarrow> (j = i \<and> b) \<or> bitAt bs (i + 1) j"
proof (cases "j \<le> i")
  case False
  then have "j - i = Suc (j - (i + 1))" by simp
  then show ?thesis using False by (auto simp: bitAt_def)
qed (auto simp: bitAt_def)

lemma bitAt_Nil [simp]: "\<not> bitAt [] i j"
  by (simp add: bitAt_def)

lemma addChild_step:
  "addChild (ss, l) c = (ss\<lparr>labels := labels ss @ [c], labelBitmap := setBit (labelBitmap ss) l 0\<rparr>, l + 1)"
  by (simp add: addChild_def)

lemma addChild_fold:
  "\<exists>lb. foldl addChild (ss, l) cs = (ss\<lparr>labels := labels ss @ cs, labelBitmap := lb\<rparr>, l + length cs) \<and>
     (\<forall>j. testBit lb j = testBit (labelBitmap ss) j)"
proof (induction cs arbitrary: ss l)
  case Nil
  show ?case by (rule exI [of _ "labelBitmap ss"]) simp
next
  case (Cons c cs)
  let ?ss = "ss\<lparr>labels := labels ss @ [c], labelBitmap := setBit (labelBitmap ss) l 0\<rparr>"
  from Cons.IH [of ?ss "l + 1"] obtain lb where
    "foldl addChild (?ss, l + 1) cs = (?ss\<lparr>labels := labels ?ss @ cs, labelBitmap := lb\<rparr>, l + 1 + length cs)"
    "\<forall>j. testBit lb j = testBit (labelBitmap ?ss) j" by blast
  then show ?case by (intro exI [of _ lb]) (simp add: addChild_step)
qed

text \<open>One round of the outer loop.\<close>

lemma build_round:
  assumes "keysOK keys" "nodeOK keys q"
  obtains ss' where
    "buildLoop (Suc fuel) keys (q # queue) i ss lIdx =
       buildLoop fuel keys (queue @ map fst (kids keys q)) (i + 1) ss' (lIdx + length (kids keys q) + 1)"
    "labels ss' = labels ss @ map snd (kids keys q)"
    "\<And>j. testBit (labelBitmap ss') j \<longleftrightarrow> testBit (labelBitmap ss) j \<or> j = lIdx + length (kids keys q)"
    "\<And>j. testBit (leaves ss') j \<longleftrightarrow> testBit (leaves ss) j \<or> (j = i \<and> [] \<in> lang keys q)"
proof -
  obtain s e col where q: "q = (s, e, col)" by (cases q) auto
  note ok = assms(2) [unfolded q]
  define ss1 where "ss1 = (if col = length (keys ! s) then ss\<lparr>leaves := setBit (leaves ss) i 1\<rparr> else ss)"
  obtain lb where lb: "foldl addChild (ss1, lIdx) (map snd (kids keys q)) =
      (ss1\<lparr>labels := labels ss1 @ map snd (kids keys q), labelBitmap := lb\<rparr>, lIdx + length (kids keys q))"
    "\<And>j. testBit lb j = testBit (labelBitmap ss1) j"
    using addChild_fold [of ss1 lIdx "map snd (kids keys q)"] by auto
  define ss' where "ss' = ss1\<lparr>labels := labels ss1 @ map snd (kids keys q),
      labelBitmap := setBit lb (lIdx + length (kids keys q)) 1\<rparr>"
  have s: "index keys s = Some (keys ! s)" using nodeOK_D(1,2) [OF ok] by (simp add: index_def)
  have pair: "(if col = length (keys ! s) then (s + 1, ss\<lparr>leaves := setBit (leaves ss) i 1\<rparr>) else (s, ss)) =
      (firstKey keys q, ss1)"
    by (simp add: firstKey_def q ss1_def)
  have ch: "childLoop keys col e (e - firstKey keys q) (firstKey keys q) = Some (kids keys q)"
    using kids_groups(1) [OF assms(1) ok] by (simp add: q)
  show thesis
  proof (rule that)
    show "buildLoop (Suc fuel) keys (q # queue) i ss lIdx =
       buildLoop fuel keys (queue @ map fst (kids keys q)) (i + 1) ss' (lIdx + length (kids keys q) + 1)"
      unfolding q buildLoop.simps s option.case Let_def
      unfolding pair [unfolded q] prod.case ch [unfolded q] option.case lb(1) [unfolded q]
      by (simp add: ss'_def q)
    show "labels ss' = labels ss @ map snd (kids keys q)" by (simp add: ss'_def ss1_def)
    show "testBit (labelBitmap ss') j \<longleftrightarrow> testBit (labelBitmap ss) j \<or> j = lIdx + length (kids keys q)" for j
      using lb(2) [of j] by (auto simp: ss'_def ss1_def)
    show "testBit (leaves ss') j \<longleftrightarrow> testBit (leaves ss) j \<or> (j = i \<and> [] \<in> lang keys q)" for j
      using node_leaf [OF assms(1) ok] by (auto simp: ss'_def ss1_def q simp del: lang.simps)
  qed
qed

lemma buildLoop_spec:
  assumes "keysOK keys" "\<forall>q\<in>set queue. nodeOK keys q" "(\<Sum>q\<leftarrow>queue. weight keys q) \<le> fuel"
  shows "\<exists>ss' P. buildLoop fuel keys queue i ss lIdx = Some ss' \<and> P = queue @ nodeKids keys P \<and>
    (\<forall>q\<in>set P. nodeOK keys q) \<and> labels ss' = labels ss @ nodeLabels keys P \<and>
    (\<forall>j. testBit (labelBitmap ss') j \<longleftrightarrow> testBit (labelBitmap ss) j \<or> bitAt (nodeBits keys P) lIdx j) \<and>
    (\<forall>j. testBit (leaves ss') j \<longleftrightarrow> testBit (leaves ss) j \<or> bitAt (map (\<lambda>q. [] \<in> lang keys q) P) i j)"
  using assms(2,3)
proof (induction fuel arbitrary: queue i ss lIdx)
  case 0
  then have "queue = []" by (cases queue) auto
  then show ?case by (intro exI [of _ ss] exI [of _ "[]"]) (simp add: nodeKids_def nodeLabels_def nodeBits_def)
next
  case (Suc fuel)
  show ?case
  proof (cases queue)
    case Nil
    then show ?thesis by (intro exI [of _ ss] exI [of _ "[]"]) (simp add: nodeKids_def nodeLabels_def nodeBits_def)
  next
    case (Cons q rest)
    then have ok: "nodeOK keys q" using Suc.prems(1) by simp
    obtain s e col where q: "q = (s, e, col)" by (cases q) auto
    let ?n = "length (kids keys q)"
    obtain ss1 where r: "buildLoop (Suc fuel) keys (q # rest) i ss lIdx =
        buildLoop fuel keys (rest @ map fst (kids keys q)) (i + 1) ss1 (lIdx + ?n + 1)"
      "labels ss1 = labels ss @ map snd (kids keys q)"
      "\<And>j. testBit (labelBitmap ss1) j \<longleftrightarrow> testBit (labelBitmap ss) j \<or> j = lIdx + ?n"
      "\<And>j. testBit (leaves ss1) j \<longleftrightarrow> testBit (leaves ss) j \<or> (j = i \<and> [] \<in> lang keys q)"
      using build_round [OF assms(1) ok, of fuel rest i ss lIdx] by blast
    have "\<forall>q'\<in>set (rest @ map fst (kids keys q)). nodeOK keys q'"
      using Suc.prems(1) Cons kids_child(1) [OF assms(1) ok [unfolded q]] by (auto simp: q)
    moreover have "(\<Sum>q\<leftarrow>rest @ map fst (kids keys q). weight keys q) \<le> fuel"
      using Suc.prems(2) Cons kids_groups(5) [OF assms(1) ok [unfolded q]] by (simp add: q del: weight.simps)
    ultimately obtain ss' P where P: "buildLoop fuel keys (rest @ map fst (kids keys q)) (i + 1) ss1 (lIdx + ?n + 1) = Some ss'"
      "P = (rest @ map fst (kids keys q)) @ nodeKids keys P" "\<forall>q\<in>set P. nodeOK keys q"
      "labels ss' = labels ss1 @ nodeLabels keys P"
      "\<forall>j. testBit (labelBitmap ss') j \<longleftrightarrow> testBit (labelBitmap ss1) j \<or> bitAt (nodeBits keys P) (lIdx + ?n + 1) j"
      "\<forall>j. testBit (leaves ss') j \<longleftrightarrow> testBit (leaves ss1) j \<or> bitAt (map (\<lambda>q. [] \<in> lang keys q) P) (i + 1) j"
      using Suc.IH [of "rest @ map fst (kids keys q)" "i + 1" ss1 "lIdx + ?n + 1"] by blast
    have "q # P = queue @ nodeKids keys (q # P)" using P(2) Cons by (simp add: nodeKids_def)
    moreover have "labels ss' = labels ss @ nodeLabels keys (q # P)" using P(4) r(2) by (simp add: nodeLabels_def)
    moreover have "bitAt (nodeBits keys (q # P)) lIdx j \<longleftrightarrow> j = lIdx + ?n \<or> bitAt (nodeBits keys P) (lIdx + ?n + 1) j" for j
      using bitAt_block [of ?n "nodeBits keys P" lIdx j] by (simp add: nodeBits_def)
    moreover have "bitAt (map (\<lambda>q. [] \<in> lang keys q) (q # P)) i j \<longleftrightarrow>
        (j = i \<and> [] \<in> lang keys q) \<or> bitAt (map (\<lambda>q. [] \<in> lang keys q) P) (i + 1) j" for j
      by (simp add: bitAt_Cons)
    ultimately show ?thesis
      using P r ok Cons by (intro exI [of _ ss'] exI [of _ "q # P"]) auto
  qed
qed

section \<open>The built trie\<close>

definition represents :: "string list \<Rightarrow> qElt list \<Rightarrow> succinctSet \<Rightarrow> bool" where
  "represents keys P m \<longleftrightarrow>
     keysOK keys \<and> P = (0, length keys, 0) # nodeKids keys P \<and> (\<forall>q\<in>set P. nodeOK keys q) \<and>
     labels m = nodeLabels keys P \<and> (\<forall>j. testBit (labelBitmap m) j \<longleftrightarrow> bitAt (nodeBits keys P) 0 j) \<and>
     (\<forall>j. testBit (leaves m) j \<longleftrightarrow> bitAt (map (\<lambda>q. [] \<in> lang keys q) P) 0 j) \<and>
     ranks m = indexRank64 (labelBitmap m) \<and> selects m = fst (indexSelect32R64 (labelBitmap m))"

lemma newSuccinctSet_represents:
  assumes "keysOK keys"
  shows "\<exists>m P. newSuccinctSet keys = Some m \<and> represents keys P m"
proof -
  let ?root = "(0, length keys, 0) :: qElt"
  have "(\<Sum>q\<leftarrow>[?root]. weight keys q) = 1 + sum_list (map length keys)"
    by (simp add: sum_list_sum_nth)
  moreover have "nodeOK keys ?root" using assms by (simp add: nodeOK.simps keysOK_def)
  ultimately obtain ss P where P: "buildLoop (1 + sum_list (map length keys)) keys [?root] 0 emptySuccinctSet 0 = Some ss"
    "P = [?root] @ nodeKids keys P" "\<forall>q\<in>set P. nodeOK keys q" "labels ss = labels emptySuccinctSet @ nodeLabels keys P"
    "\<forall>j. testBit (labelBitmap ss) j \<longleftrightarrow> testBit (labelBitmap emptySuccinctSet) j \<or> bitAt (nodeBits keys P) 0 j"
    "\<forall>j. testBit (leaves ss) j \<longleftrightarrow> testBit (leaves emptySuccinctSet) j \<or> bitAt (map (\<lambda>q. [] \<in> lang keys q) P) 0 j"
    using buildLoop_spec [OF assms, of "[?root]" "1 + sum_list (map length keys)" 0 emptySuccinctSet 0] by auto
  have "represents keys P (succinctSet_init ss)"
    using P assms by (simp add: represents_def succinctSet_init_def case_prod_unfold emptySuccinctSet_def)
  then show ?thesis using P(1) by (auto simp: newSuccinctSet_def)
qed

lemma node_append:
  "nodeKids keys (P @ Q) = nodeKids keys P @ nodeKids keys Q"
  "nodeLabels keys (P @ Q) = nodeLabels keys P @ nodeLabels keys Q"
  "nodeBits keys (P @ Q) = nodeBits keys P @ nodeBits keys Q"
  by (simp_all add: nodeKids_def nodeLabels_def nodeBits_def)

lemma node_Cons:
  "nodeKids keys (q # Q) = map fst (kids keys q) @ nodeKids keys Q"
  "nodeLabels keys (q # Q) = map snd (kids keys q) @ nodeLabels keys Q"
  "nodeBits keys (q # Q) = replicate (length (kids keys q)) False @ True # nodeBits keys Q"
  by (simp_all add: nodeKids_def nodeLabels_def nodeBits_def)

lemma node_Nil: "nodeKids keys [] = []" "nodeLabels keys [] = []" "nodeBits keys [] = []"
  by (simp_all add: nodeKids_def nodeLabels_def nodeBits_def)

lemma node_lengths:
  "length (nodeLabels keys P) = length (nodeKids keys P)"
  "length (nodeBits keys P) = length P + length (nodeKids keys P)"
  "length (filter id (nodeBits keys P)) = length P"
  by (induction P) (simp_all add: node_Nil node_Cons)

definition kidsBefore :: "string list \<Rightarrow> qElt list \<Rightarrow> nat \<Rightarrow> nat" where
  "kidsBefore keys P i = length (nodeKids keys (take i P))"

lemma kidsBefore_0 [simp]: "kidsBefore keys P 0 = 0"
  by (simp add: kidsBefore_def node_Nil)

lemma kidsBefore_Suc: "i < length P \<Longrightarrow> kidsBefore keys P (Suc i) = kidsBefore keys P i + length (kids keys (P ! i))"
  by (simp add: kidsBefore_def take_Suc_conv_app_nth node_append node_Cons node_Nil)

lemma ones_bitAt: "ones (bitAt bs 0) n = length (filter id (take n bs))"
proof (induction n)
  case (Suc n)
  then show ?case by (cases "n < length bs") (auto simp: bitAt_def take_Suc_conv_app_nth)
qed simp

lemma node_block:
  fixes keys :: "string list"
  assumes "i < length P"
  defines "st \<equiv> i + kidsBefore keys P i" and "n \<equiv> length (kids keys (P ! i))"
  shows "t < n \<Longrightarrow> \<not> bitAt (nodeBits keys P) 0 (st + t)" "bitAt (nodeBits keys P) 0 (st + n)"
    and "t \<le> n \<Longrightarrow> ones (bitAt (nodeBits keys P) 0) (st + t) = i"
    and "t < n \<Longrightarrow> kidsBefore keys P i + t < length (nodeKids keys P)"
    and "t < n \<Longrightarrow> nodeKids keys P ! (kidsBefore keys P i + t) = fst (kids keys (P ! i) ! t)"
    and "t < n \<Longrightarrow> nodeLabels keys P ! (kidsBefore keys P i + t) = snd (kids keys (P ! i) ! t)"
proof -
  let ?A = "take i P" and ?B = "drop (Suc i) P"
  have P: "P = ?A @ P ! i # ?B" using assms(1) by (rule id_take_nth_drop)
  have len: "length (nodeBits keys ?A) = st" "length (nodeKids keys ?A) = kidsBefore keys P i"
    "length (nodeLabels keys ?A) = kidsBefore keys P i"
    using assms(1) by (simp_all add: node_lengths st_def kidsBefore_def min_def)
  have bits: "nodeBits keys P = nodeBits keys ?A @ replicate n False @ True # nodeBits keys ?B"
    by (subst P) (simp add: node_append node_Cons n_def)
  have kids: "nodeKids keys P = nodeKids keys ?A @ map fst (kids keys (P ! i)) @ nodeKids keys ?B"
    by (subst P) (simp add: node_append node_Cons)
  have labels: "nodeLabels keys P = nodeLabels keys ?A @ map snd (kids keys (P ! i)) @ nodeLabels keys ?B"
    by (subst P) (simp add: node_append node_Cons)
  show "\<not> bitAt (nodeBits keys P) 0 (st + t)" if "t < n"
    using that by (simp add: bitAt_def bits nth_append len)
  show "bitAt (nodeBits keys P) 0 (st + n)" by (simp add: bitAt_def bits nth_append len)
  show "ones (bitAt (nodeBits keys P) 0) (st + t) = i" if "t \<le> n"
  proof -
    have "take (st + t) (nodeBits keys P) = nodeBits keys ?A @ replicate t False"
      using that unfolding bits by (simp add: len(1) min_absorb1)
    then show ?thesis using assms(1) node_lengths(3) [of keys ?A] by (simp add: ones_bitAt)
  qed
  show "kidsBefore keys P i + t < length (nodeKids keys P)" if "t < n" using that by (simp add: kids len n_def)
  show "nodeKids keys P ! (kidsBefore keys P i + t) = fst (kids keys (P ! i) ! t)" if "t < n"
    using that by (simp add: kids len nth_append n_def)
  show "nodeLabels keys P ! (kidsBefore keys P i + t) = snd (kids keys (P ! i) ! t)" if "t < n"
    using that by (simp add: labels len nth_append n_def)
qed

section \<open>Moving from node to node\<close>

text \<open>\<open>trieNode m i p L\<close>: node number \<open>i\<close> of the trie \<open>m\<close> has its first bit at \<open>p\<close> and the strings \<open>L\<close> below it.\<close>

definition trieNode :: "succinctSet \<Rightarrow> nat \<Rightarrow> nat \<Rightarrow> string set \<Rightarrow> bool" where
  "trieNode m i p L \<longleftrightarrow> (\<exists>keys P. represents keys P m \<and> i < length P \<and>
     p = i + kidsBefore keys P i \<and> L = lang keys (P ! i))"

lemma trieNode_root:
  assumes "keysOK keys"
  shows "\<exists>m. newSuccinctSet keys = Some m \<and> trieNode m 0 0 (set keys)"
proof -
  obtain m P where m: "newSuccinctSet keys = Some m" "represents keys P m"
    using newSuccinctSet_represents [OF assms] by blast
  then have P: "P = (0, length keys, 0) # nodeKids keys P" by (simp add: represents_def)
  then have "0 < length P" "P ! 0 = (0, length keys, 0)" by (metis length_greater_0_conv list.distinct(1), metis nth_Cons_0)
  moreover have "lang keys (0, length keys, 0) = set keys" by (auto simp: set_conv_nth)
  ultimately have "trieNode m 0 0 (set keys)" unfolding trieNode_def using m(2) by fastforce
  with m(1) show ?thesis by blast
qed

lemma last_leaf:
  assumes "represents keys P m"
  shows "[] \<in> lang keys (last P)"
proof -
  have ok: "keysOK keys" and P: "P = (0, length keys, 0) # nodeKids keys P" and nodes: "\<forall>q\<in>set P. nodeOK keys q"
    using assms by (simp_all add: represents_def)
  have ne: "P \<noteq> []" using P by (metis list.distinct(1))
  obtain s e col where q: "last P = (s, e, col)" by (cases "last P") auto
  have okq: "nodeOK keys (s, e, col)" using nodes ne last_in_set q by metis
  have "kids keys (last P) = []"
  proof (rule ccontr)
    assume k: "kids keys (last P) \<noteq> []"
    have "P = butlast P @ [last P]" using ne by simp
    then have "nodeKids keys P = nodeKids keys (butlast P) @ map fst (kids keys (last P))"
      by (metis append_Nil2 node_Cons(1) node_Nil(1) node_append(1))
    with P k have "last P = fst (last (kids keys (last P)))"
      by (metis (no_types, lifting) append_is_Nil_conv last_ConsR last_appendR last_map map_is_Nil_conv)
    moreover have "last (kids keys (last P)) \<in> set (kids keys (last P))" using k by simp
    ultimately have "snd (snd (last P)) = col + 1"
      using kids_child(3) [OF ok okq] by (metis prod.collapse q)
    then show False by (simp add: q)
  qed
  then have "heads (lang keys (s, e, col)) = {}" using kids_heads [OF ok okq] by (simp add: q)
  moreover have "drop col (keys ! s) \<in> lang keys (s, e, col)" using nodeOK_D(1) [OF okq] by auto
  ultimately show ?thesis unfolding q heads_def by (cases "drop col (keys ! s)") auto
qed

lemma trieNode_leaf:
  assumes "trieNode m i p L"
  shows "\<exists>b. getBit (leaves m) i = Some b \<and> (b \<noteq> 0 \<longleftrightarrow> [] \<in> L)"
proof -
  obtain keys P where r: "represents keys P m" "i < length P" "L = lang keys (P ! i)"
    using assms by (auto simp: trieNode_def)
  have leaves: "testBit (leaves m) j \<longleftrightarrow> j < length P \<and> [] \<in> lang keys (P ! j)" for j
    using r(1) by (auto simp: represents_def bitAt_def)
  have "last P = P ! (length P - 1)" using r(2) by (intro last_conv_nth) auto
  then have "testBit (leaves m) (length P - 1)" using last_leaf [OF r(1)] r(2) leaves by simp
  then have "(length P - 1) div 64 < length (leaves m)" by (simp add: testBit_def)
  moreover have "i div 64 \<le> (length P - 1) div 64" using r(2) by (intro div_le_mono) simp
  ultimately have "i div 64 < length (leaves m)" by simp
  from getBit_eq [OF this] show ?thesis using r leaves by simp
qed

lemma trieNode_bits:
  assumes "represents keys P m" "i < length P" "t \<le> length (kids keys (P ! i))"
  defines "p \<equiv> i + kidsBefore keys P i"
  shows "(p + t) div 64 < length (labelBitmap m)"
    and "testBit (labelBitmap m) (p + t) \<longleftrightarrow> t = length (kids keys (P ! i))"
    and "ones (testBit (labelBitmap m)) (p + t) = i"
proof -
  have bits: "testBit (labelBitmap m) = bitAt (nodeBits keys P) 0" using assms(1) by (simp add: represents_def fun_eq_iff)
  note block = node_block [where keys = keys, OF assms(2), folded p_def]
  have "testBit (labelBitmap m) (p + length (kids keys (P ! i)))" using block(2) bits by simp
  then have "(p + length (kids keys (P ! i))) div 64 < length (labelBitmap m)" by (simp add: testBit_def)
  moreover have "(p + t) div 64 \<le> (p + length (kids keys (P ! i))) div 64" using assms(3) by (intro div_le_mono) simp
  ultimately show "(p + t) div 64 < length (labelBitmap m)" by simp
  show "testBit (labelBitmap m) (p + t) \<longleftrightarrow> t = length (kids keys (P ! i))"
    using block(1) [of t] block(2) bits assms(3) by (cases "t = length (kids keys (P ! i))") auto
  show "ones (testBit (labelBitmap m)) (p + t) = i" using block(3) [OF assms(3)] bits by simp
qed

lemma trieNode_stop:
  assumes "trieNode m i p L"
  shows "\<exists>b. getBit (labelBitmap m) (p + card (heads L)) = Some b \<and> b \<noteq> 0"
proof -
  obtain keys P where r: "represents keys P m" "i < length P" "p = i + kidsBefore keys P i" "L = lang keys (P ! i)"
    using assms by (auto simp: trieNode_def)
  have "length (kids keys (P ! i)) = card (heads L)"
    using kids_labels [of keys "P ! i"] r by (metis length_map length_sorted_list_of_set represents_def nth_mem)
  with trieNode_bits [OF r(1,2) order_refl, folded r(3)] getBit_eq show ?thesis by metis
qed

lemma trieNode_select:
  assumes "represents keys P m" "i < length P" "0 < i"
  shows "\<exists>p. selectIthOne (labelBitmap m) (ranks m) (selects m) (i - 1) = Some p \<and> p + 1 = i + kidsBefore keys P i"
proof -
  let ?bm = "labelBitmap m" and ?n = "length (kids keys (P ! (i - 1)))"
  let ?e = "i - 1 + kidsBefore keys P (i - 1) + ?n"
  note bits = trieNode_bits [OF assms(1), of "i - 1" ?n]
  have e: "isSelect (testBit ?bm) ?e (i - 1)" using bits(2,3) assms by (simp add: isSelect_def)
  have "?e div 64 < length ?bm" using bits(1) assms by simp
  then have "i - 1 < ones (testBit ?bm) (length ?bm * 64)"
    using ones_less [of "testBit ?bm" ?e "length ?bm * 64"] e by (simp add: isSelect_def)
  from selectIthOne_eq [OF this] obtain p where p: "selectIthOne ?bm (ranks m) (selects m) (i - 1) = Some p"
    "isSelect (testBit ?bm) p (i - 1)" using assms(1) by (auto simp: represents_def)
  then have "p = ?e" using ones_unique [of "testBit ?bm" p ?e] e unfolding isSelect_def by metis
  then show ?thesis using p(1) kidsBefore_Suc [of "i - 1" P keys] assms(2,3) by simp
qed

lemma trieNode_child:
  assumes "trieNode m i p L" "t < card (heads L)"
  defines "c \<equiv> sorted_list_of_set (heads L) ! t"
  shows "getBit (labelBitmap m) (p + t) = Some 0" "index (labels m) (p + t - i) = Some c"
    and "\<exists>i' p'. countZeros (labelBitmap m) (ranks m) (p + t + 1) = Some i' \<and>
      selectIthOne (labelBitmap m) (ranks m) (selects m) (i' - 1) = Some p' \<and> trieNode m i' (p' + 1) (tails c L)"
proof -
  obtain keys P where r: "represents keys P m" "i < length P" "p = i + kidsBefore keys P i" "L = lang keys (P ! i)"
    using assms(1) by (auto simp: trieNode_def)
  have ok: "keysOK keys" "nodeOK keys (P ! i)" and P: "P = (0, length keys, 0) # nodeKids keys P"
    and m: "labels m = nodeLabels keys P" "ranks m = indexRank64 (labelBitmap m)"
      "selects m = fst (indexSelect32R64 (labelBitmap m))"
    using r(1,2) by (simp_all add: represents_def)
  let ?bm = "labelBitmap m" and ?k = "kids keys (P ! i)" and ?i = "kidsBefore keys P i + t + 1"
  have labels: "map snd ?k = sorted_list_of_set (heads L)" using kids_labels [OF ok] r(4) by simp
  have n: "t < length ?k" using assms(2) arg_cong [OF labels, of length] by simp
  note bits = trieNode_bits [OF r(1,2), folded r(3)] and block = node_block [where keys = keys, OF r(2)]
  show "getBit ?bm (p + t) = Some 0" using getBit_eq [OF bits(1) [of t]] bits(2) [of t] n by auto
  have c: "snd (?k ! t) = c" unfolding c_def labels [symmetric] using n by simp
  show "index (labels m) (p + t - i) = Some c"
    using block(4,6) [OF n] c by (simp add: index_def m(1) r(3) node_lengths)
  have o: "ones (testBit ?bm) (p + t + 1) = i" using bits(2,3) [of t] n by simp
  have "(p + t + 1) div 64 < length ?bm" using bits(1) [of "t + 1"] n by simp
  then have "p + t + 1 < 64 * length ?bm" by simp
  then have cz: "countZeros ?bm (ranks m) (p + t + 1) = Some ?i"
    using countZeros_eq [of "p + t + 1" ?bm] o by (simp add: m(2) r(3))
  have i': "?i < length P" using block(4) [OF n] P by (metis Suc_eq_plus1 length_Cons not_less_eq)
  have node: "P ! ?i = fst (?k ! t)" using block(5) [OF n] P by (metis Suc_eq_plus1 nth_Cons_Suc)
  have "(fst (?k ! t), c) \<in> set ?k" using c n by (metis nth_mem prod.collapse)
  then have lang: "lang keys (P ! ?i) = tails c L"
    using kids_child(2) [OF ok(1)] ok(2) r(4) node by (metis prod_cases3)
  obtain p' where p': "selectIthOne ?bm (ranks m) (selects m) (?i - 1) = Some p'"
    "p' + 1 = ?i + kidsBefore keys P ?i" using trieNode_select [OF r(1) i'] by auto
  then have "trieNode m ?i (p' + 1) (tails c L)" unfolding trieNode_def using r(1) i' lang by metis
  with cz p'(1) show "\<exists>i' p'. countZeros ?bm (ranks m) (p + t + 1) = Some i' \<and>
      selectIthOne ?bm (ranks m) (selects m) (i' - 1) = Some p' \<and> trieNode m i' (p' + 1) (tails c L)" by blast
qed

section \<open>The interface used by the lookups\<close>

locale trie_navigation =
  fixes node :: "succinctSet \<Rightarrow> nat \<Rightarrow> nat \<Rightarrow> string set \<Rightarrow> bool"
  assumes leaf: "node m i p L \<Longrightarrow> \<exists>b. getBit (leaves m) i = Some b \<and> (b \<noteq> 0 \<longleftrightarrow> [] \<in> L)"
    and stop: "node m i p L \<Longrightarrow> \<exists>b. getBit (labelBitmap m) (p + card (heads L)) = Some b \<and> b \<noteq> 0"
    and child_bit: "node m i p L \<Longrightarrow> t < card (heads L) \<Longrightarrow> getBit (labelBitmap m) (p + t) = Some 0"
    and child_label: "node m i p L \<Longrightarrow> t < card (heads L) \<Longrightarrow>
      index (labels m) (p + t - i) = Some (sorted_list_of_set (heads L) ! t)"
    and child_node: "node m i p L \<Longrightarrow> t < card (heads L) \<Longrightarrow>
      \<exists>i' p'. countZeros (labelBitmap m) (ranks m) (p + t + 1) = Some i' \<and>
        selectIthOne (labelBitmap m) (ranks m) (selects m) (i' - 1) = Some p' \<and>
        node m i' (p' + 1) (tails (sorted_list_of_set (heads L) ! t) L)"
begin

lemma fuel_enough: "node m i p L \<Longrightarrow> card (heads L) < bitmapFuel m"
proof -
  assume "node m i p L"
  then obtain b where "getBit (labelBitmap m) (p + card (heads L)) = Some b" using stop by blast
  then have "(p + card (heads L)) div 64 < length (labelBitmap m)"
    by (simp add: getBit_def index_def split: if_splits)
  then show ?thesis by (simp add: bitmapFuel_def)
qed

end

interpretation st: trie_navigation trieNode
  by unfold_locales (rule trieNode_leaf trieNode_stop trieNode_child; assumption)+

end
