(* ===== verification/Netip.thy ===== *)
theory Netip
  imports Prelude
begin

text \<open>
  IP addresses and prefixes: the part of \<open>net/netip\<close> the rule engine, the rule-set format and the
  fake-IP store use, with \<open>M.Socksaddr\<close> of \<open>replace/sing/common/metadata/addr.go\<close> and the address
  classes of \<open>replace/sing/common/network/addr.go\<close>. An address is the zero \<open>netip.Addr\<close>, an IPv4
  address, or an IPv6 address with its zone (empty for none). Errors of the parsers keep the
  message of the library and drop the quoted input.
\<close>

section \<open>Addresses\<close>

datatype addr = AddrZero | Addr4 "32 word" | Addr6 "128 word" string

definition addr_IsValid :: "addr \<Rightarrow> bool" where
  "addr_IsValid a \<longleftrightarrow> a \<noteq> AddrZero"

fun addr_Is4 :: "addr \<Rightarrow> bool" where
  "addr_Is4 (Addr4 w) = True"
| "addr_Is4 _ = False"

fun addr_Is6 :: "addr \<Rightarrow> bool" where
  "addr_Is6 (Addr6 w z) = True"
| "addr_Is6 _ = False"

fun addr_Is4In6 :: "addr \<Rightarrow> bool" where
  "addr_Is4In6 (Addr6 w z) = (drop_bit 32 w = 0xffff)"
| "addr_Is4In6 _ = False"

fun addr_BitLen :: "addr \<Rightarrow> nat" where
  "addr_BitLen AddrZero = 0"
| "addr_BitLen (Addr4 w) = 32"
| "addr_BitLen (Addr6 w z) = 128"

fun addr_Zone :: "addr \<Rightarrow> string" where
  "addr_Zone (Addr6 w z) = z"
| "addr_Zone _ = []"

fun addr_WithZone :: "addr \<Rightarrow> string \<Rightarrow> addr" where
  "addr_WithZone (Addr6 w _) z = Addr6 w z"
| "addr_WithZone a z = a"

definition addr_Unmap :: "addr \<Rightarrow> addr" where
  "addr_Unmap a =
     (case a of Addr6 w z \<Rightarrow> if addr_Is4In6 a then Addr4 (ucast w) else a | _ \<Rightarrow> a)"

text \<open>Byte \<open>i\<close> of the address in network order, and 16-bit group \<open>i\<close> of an IPv6 address.\<close>

definition byte4 :: "32 word \<Rightarrow> nat \<Rightarrow> uint8" where
  "byte4 w i = ucast (drop_bit (8 * (3 - i)) w)"

definition byte6 :: "128 word \<Rightarrow> nat \<Rightarrow> uint8" where
  "byte6 w i = ucast (drop_bit (8 * (15 - i)) w)"

definition group6 :: "128 word \<Rightarrow> nat \<Rightarrow> uint16" where
  "group6 w i = ucast (drop_bit (16 * (7 - i)) w)"

definition addr_IsPrivate :: "addr \<Rightarrow> bool" where
  "addr_IsPrivate a =
     (case addr_Unmap a of
        Addr4 w \<Rightarrow> byte4 w 0 = 10 \<or> byte4 w 0 = 172 \<and> byte4 w 1 AND 0xf0 = 16 \<or>
          byte4 w 0 = 192 \<and> byte4 w 1 = 168
      | Addr6 w z \<Rightarrow> byte6 w 0 AND 0xfe = 0xfc
      | AddrZero \<Rightarrow> False)"

definition addr_IsLoopback :: "addr \<Rightarrow> bool" where
  "addr_IsLoopback a =
     (case addr_Unmap a of
        Addr4 w \<Rightarrow> byte4 w 0 = 127
      | Addr6 w z \<Rightarrow> w = 1
      | AddrZero \<Rightarrow> False)"

definition addr_IsMulticast :: "addr \<Rightarrow> bool" where
  "addr_IsMulticast a =
     (case addr_Unmap a of
        Addr4 w \<Rightarrow> byte4 w 0 AND 0xf0 = 0xe0
      | Addr6 w z \<Rightarrow> byte6 w 0 = 0xff
      | AddrZero \<Rightarrow> False)"

definition addr_IsLinkLocalUnicast :: "addr \<Rightarrow> bool" where
  "addr_IsLinkLocalUnicast a =
     (case addr_Unmap a of
        Addr4 w \<Rightarrow> byte4 w 0 = 169 \<and> byte4 w 1 = 254
      | Addr6 w z \<Rightarrow> group6 w 0 AND 0xffc0 = 0xfe80
      | AddrZero \<Rightarrow> False)"

definition addr_IsInterfaceLocalMulticast :: "addr \<Rightarrow> bool" where
  "addr_IsInterfaceLocalMulticast a =
     (case a of
        Addr6 w z \<Rightarrow> \<not> addr_Is4In6 a \<and> group6 w 0 AND 0xff0f = 0xff01
      | _ \<Rightarrow> False)"

definition addr_IsUnspecified :: "addr \<Rightarrow> bool" where
  "addr_IsUnspecified a \<longleftrightarrow> a = Addr4 0 \<or> a = Addr6 0 []"

definition IsPublicAddr :: "addr \<Rightarrow> bool" where
  "IsPublicAddr a \<longleftrightarrow>
     \<not> (addr_IsPrivate a \<or> addr_IsLoopback a \<or> addr_IsMulticast a \<or> addr_IsLinkLocalUnicast a \<or>
        addr_IsInterfaceLocalMulticast a \<or> addr_IsUnspecified a)"

definition IsVirtual :: "addr \<Rightarrow> bool" where
  "IsVirtual a \<longleftrightarrow> addr_IsLoopback a \<or> addr_IsMulticast a \<or> addr_IsInterfaceLocalMulticast a"

text \<open>The successor of an address; past the last one it is the zero address.\<close>

fun addr_Next :: "addr \<Rightarrow> addr" where
  "addr_Next AddrZero = AddrZero"
| "addr_Next (Addr4 w) = (if w + 1 = 0 then AddrZero else Addr4 (w + 1))"
| "addr_Next (Addr6 w z) = (if w + 1 = 0 then AddrZero else Addr6 (w + 1) z)"

section \<open>Text of an address\<close>

definition string4 :: "32 word \<Rightarrow> string" where
  "string4 w = strings_Join (map (\<lambda>i. itoa (unat (byte4 w i))) [0..<4]) ''.''"

definition hexDigit :: "nat \<Rightarrow> char" where
  "hexDigit n = ''0123456789abcdef'' ! n"

fun hexString :: "nat \<Rightarrow> string" where
  "hexString n = (if n < 16 then [hexDigit n] else hexString (n div 16) @ [hexDigit (n mod 16)])"

declare hexString.simps [simp del]

fun zeroRun :: "(nat \<Rightarrow> uint16) \<Rightarrow> nat \<Rightarrow> nat \<Rightarrow> nat" where
  "zeroRun g 0 j = j"
| "zeroRun g (Suc fuel) j = (if j < 8 \<and> g j = 0 then zeroRun g fuel (j + 1) else j)"

text \<open>The first longest run of at least two zero groups, as \<open>(start, end)\<close>; none is \<open>(255, 255)\<close>.\<close>

definition longestZeroRun :: "(nat \<Rightarrow> uint16) \<Rightarrow> nat \<times> nat" where
  "longestZeroRun g =
     foldl (\<lambda>(s, e) i. let j = zeroRun g 8 i in if j - i \<ge> 2 \<and> j - i > e - s then (i, j) else (s, e))
       (255, 255) [0..<8]"

fun appendGroups :: "(nat \<Rightarrow> uint16) \<Rightarrow> nat \<Rightarrow> nat \<Rightarrow> nat \<Rightarrow> nat \<Rightarrow> string" where
  "appendGroups g s e 0 i = []"
| "appendGroups g s e (Suc fuel) i =
     (if i \<ge> 8 then []
      else if i = s then
        ''::'' @ (if e \<ge> 8 then [] else hexString (unat (g e)) @ appendGroups g s e fuel (e + 1))
      else (if i > 0 then '':'' else []) @ hexString (unat (g i)) @ appendGroups g s e fuel (i + 1))"

definition string6 :: "128 word \<Rightarrow> string \<Rightarrow> string" where
  "string6 w z =
     (let (s, e) = longestZeroRun (group6 w)
      in appendGroups (group6 w) s e 8 0 @ (if z \<noteq> [] then ''%'' @ z else []))"

definition addr_String :: "addr \<Rightarrow> string" where
  "addr_String a =
     (case a of
        AddrZero \<Rightarrow> ''invalid IP''
      | Addr4 w \<Rightarrow> string4 w
      | Addr6 w z \<Rightarrow>
          if addr_Is4In6 a then ''::ffff:'' @ string4 (ucast w) @ (if z \<noteq> [] then ''%'' @ z else [])
          else string6 w z)"

section \<open>Parsing addresses\<close>

text \<open>
  \<open>parseIPv4Fields\<close> as a loop over the characters: the fields read so far, the value and the
  number of digits of the current field, and whether the previous character was a dot (or the
  string just began).
\<close>

fun parseIPv4Loop :: "string \<Rightarrow> nat list \<Rightarrow> nat \<Rightarrow> nat \<Rightarrow> bool \<Rightarrow> nat list result" where
  "parseIPv4Loop [] fields val digLen atDot =
     (if length fields < 3 then Inl (ErrMsg ''IPv4 address too short'') else Inr (fields @ [val]))"
| "parseIPv4Loop (c # s) fields val digLen atDot =
     (if isDigit c then
        (if digLen = 1 \<and> val = 0 then Inl (ErrMsg ''IPv4 field has octet with leading zero'')
         else let val' = val * 10 + digitVal c
              in if val' > 255 then Inl (ErrMsg ''IPv4 field has value >255'')
                 else parseIPv4Loop s fields val' (digLen + 1) False)
      else if c = CHR ''.'' then
        (if atDot \<or> s = [] then Inl (ErrMsg ''IPv4 field must have at least one digit'')
         else if length fields = 3 then Inl (ErrMsg ''IPv4 address too long'')
         else parseIPv4Loop s (fields @ [val]) 0 0 True)
      else Inl (ErrMsg ''unexpected character''))"

definition parseIPv4Fields :: "string \<Rightarrow> nat list result" where
  "parseIPv4Fields s = parseIPv4Loop s [] 0 0 True"

definition word4 :: "nat list \<Rightarrow> 32 word" where
  "word4 fields = foldl (\<lambda>acc b. push_bit 8 acc OR of_nat b) 0 fields"

definition word6 :: "nat list \<Rightarrow> 128 word" where
  "word6 bytes = foldl (\<lambda>acc b. push_bit 8 acc OR of_nat b) 0 bytes"

definition parseIPv4 :: "string \<Rightarrow> addr result" where
  "parseIPv4 s = bindR (parseIPv4Fields s) (\<lambda>fields. Inr (Addr4 (word4 fields)))"

definition hexVal :: "char \<Rightarrow> nat option" where
  "hexVal c =
     (let n = of_char c
      in if 48 \<le> n \<and> n \<le> 57 then Some (n - 48)
         else if 97 \<le> n \<and> n \<le> 102 then Some (n - 87)
         else if 65 \<le> n \<and> n \<le> 70 then Some (n - 55)
         else None)"

text \<open>
  The inner loop of \<open>parseIPv6\<close>: the group's value, its number of digits and the rest. A group of at
  most four digits is below \<open>2 ^ 16\<close>, so the overflow test of the library never fires.
\<close>

fun parseHexGroup :: "string \<Rightarrow> nat \<Rightarrow> nat \<Rightarrow> (nat \<times> nat \<times> string) result" where
  "parseHexGroup [] off acc = Inr (acc, off, [])"
| "parseHexGroup (c # s) off acc =
     (case hexVal c of
        None \<Rightarrow> Inr (acc, off, c # s)
      | Some v \<Rightarrow>
          if off > 3 then Inl (ErrMsg ''each group must have 4 or fewer digits'')
          else if acc * 16 + v > 0xffff then Inl (ErrMsg ''IPv6 field has value >=2^16'')
          else parseHexGroup s (off + 1) (acc * 16 + v))"

text \<open>
  The outer loop over the colon-separated groups: the bytes read so far, the position of the
  ellipsis and the remaining text. Each round stores two bytes, so eight rounds are enough.
\<close>

fun parseIPv6Loop ::
  "nat \<Rightarrow> string \<Rightarrow> nat list \<Rightarrow> nat option \<Rightarrow> (nat list \<times> nat option \<times> string) result" where
  "parseIPv6Loop 0 s ip ellipsis = Inr (ip, ellipsis, s)"
| "parseIPv6Loop (Suc rounds) s ip ellipsis =
     bindR (parseHexGroup s 0 0) (\<lambda>(acc, off, rest).
       if off = 0 then Inl (ErrMsg ''each colon-separated field must have at least one digit'')
       else if rest \<noteq> [] \<and> hd rest = CHR ''.'' then
         (if ellipsis = None \<and> length ip \<noteq> 12 then
            Inl (ErrMsg ''embedded IPv4 address must replace the final 2 fields of the address'')
          else if length ip + 4 > 16 then
            Inl (ErrMsg ''too many hex fields to fit an embedded IPv4 at the end of the address'')
          else bindR (parseIPv4Fields s) (\<lambda>fields. Inr (ip @ fields, ellipsis, [])))
       else
         let ip' = ip @ [acc div 256, acc mod 256]
         in if rest = [] then Inr (ip', ellipsis, [])
            else if hd rest \<noteq> CHR '':'' then Inl (ErrMsg ''unexpected character, want colon'')
            else if length rest = 1 then
              Inl (ErrMsg ''colon must be followed by more characters'')
            else
              let s' = tl rest
              in if hd s' = CHR '':'' then
                   (if ellipsis \<noteq> None then Inl (ErrMsg ''multiple :: in address'')
                    else if tl s' = [] then Inr (ip', Some (length ip'), [])
                    else parseIPv6Loop rounds (tl s') ip' (Some (length ip')))
                 else parseIPv6Loop rounds s' ip' ellipsis)"

definition parseIPv6Body :: "string \<Rightarrow> string \<Rightarrow> nat option \<Rightarrow> addr result" where
  "parseIPv6Body s zone ellipsis0 =
     bindR (parseIPv6Loop 8 s [] ellipsis0) (\<lambda>(ip, ellipsis, rest).
       if rest \<noteq> [] then Inl (ErrMsg ''trailing garbage after address'')
       else if length ip < 16 then
         (case ellipsis of
            None \<Rightarrow> Inl (ErrMsg ''address string too short'')
          | Some e \<Rightarrow>
              Inr (Addr6 (word6 (take e ip @ replicate (16 - length ip) 0 @ drop e ip)) zone))
       else if ellipsis \<noteq> None then
         Inl (ErrMsg ''the :: must expand to at least one field of zeros'')
       else Inr (Addr6 (word6 ip) zone))"

definition parseIPv6 :: "string \<Rightarrow> addr result" where
  "parseIPv6 input =
     (let (s, zone, zoned) =
        (case strings_Index input (CHR ''%'') of
           None \<Rightarrow> (input, [], False) | Some i \<Rightarrow> (take i input, drop (i + 1) input, True))
      in if zoned \<and> zone = [] then Inl (ErrMsg ''zone must be a non-empty string'')
         else if hasPrefix s ''::'' then
           (if length s = 2 then Inr (Addr6 0 zone) else parseIPv6Body (drop 2 s) zone (Some 0))
         else parseIPv6Body s zone None)"

fun ParseAddr_from :: "string \<Rightarrow> string \<Rightarrow> addr result" where
  "ParseAddr_from s [] = Inl (ErrMsg ''unable to parse IP'')"
| "ParseAddr_from s (c # cs) =
     (if c = CHR ''.'' then parseIPv4 s
      else if c = CHR '':'' then parseIPv6 s
      else if c = CHR ''%'' then Inl (ErrMsg ''missing IPv6 address'')
      else ParseAddr_from s cs)"

definition ParseAddr :: "string \<Rightarrow> addr result" where
  "ParseAddr s = ParseAddr_from s s"

section \<open>Prefixes\<close>

record prefix =
  pfx_ip :: addr
  pfx_bitsPlusOne :: nat

definition prefixZero :: prefix where
  "prefixZero = \<lparr>pfx_ip = AddrZero, pfx_bitsPlusOne = 0\<rparr>"

definition PrefixFrom :: "addr \<Rightarrow> int \<Rightarrow> prefix" where
  "PrefixFrom a bits =
     \<lparr>pfx_ip = addr_WithZone a [],
      pfx_bitsPlusOne =
        (if a \<noteq> AddrZero \<and> 0 \<le> bits \<and> bits \<le> int (addr_BitLen a) then nat bits + 1 else 0)\<rparr>"

definition prefix_IsValid :: "prefix \<Rightarrow> bool" where
  "prefix_IsValid p \<longleftrightarrow> pfx_bitsPlusOne p > 0"

definition prefix_Bits :: "prefix \<Rightarrow> int" where
  "prefix_Bits p = int (pfx_bitsPlusOne p) - 1"

definition mask4 :: "nat \<Rightarrow> 32 word" where
  "mask4 n = NOT (mask (32 - n))"

definition mask6 :: "nat \<Rightarrow> 128 word" where
  "mask6 n = NOT (mask (128 - n))"

definition addr_Prefix :: "addr \<Rightarrow> int \<Rightarrow> prefix result" where
  "addr_Prefix a b =
     (if b < 0 then Inl (ErrMsg ''negative Prefix bits'')
      else case a of
        AddrZero \<Rightarrow> Inr prefixZero
      | Addr4 w \<Rightarrow>
          if b > 32 then Inl (ErrMsg ''prefix length too large for IPv4'')
          else Inr (PrefixFrom (Addr4 (w AND mask4 (nat b))) b)
      | Addr6 w z \<Rightarrow>
          if b > 128 then Inl (ErrMsg ''prefix length too large for IPv6'')
          else Inr (PrefixFrom (Addr6 (w AND mask6 (nat b)) z) b))"

definition prefix_Masked :: "prefix \<Rightarrow> prefix" where
  "prefix_Masked p = (case addr_Prefix (pfx_ip p) (prefix_Bits p) of Inr q \<Rightarrow> q | Inl _ \<Rightarrow> prefixZero)"

definition prefix_Contains :: "prefix \<Rightarrow> addr \<Rightarrow> bool" where
  "prefix_Contains p a =
     (if \<not> prefix_IsValid p \<or> addr_Zone a \<noteq> [] then False
      else case (pfx_ip p, a) of
        (Addr4 v, Addr4 w) \<Rightarrow> drop_bit (nat (32 - prefix_Bits p)) (w XOR v) = 0
      | (Addr6 v _, Addr6 w _) \<Rightarrow> (w XOR v) AND mask6 (nat (prefix_Bits p)) = 0
      | _ \<Rightarrow> False)"

definition prefix_Overlaps :: "prefix \<Rightarrow> prefix \<Rightarrow> bool" where
  "prefix_Overlaps p q =
     (if \<not> prefix_IsValid p \<or> \<not> prefix_IsValid q then False
      else if p = q then True
      else if addr_Is4 (pfx_ip p) \<noteq> addr_Is4 (pfx_ip q) then False
      else let minBits = (if prefix_Bits p < prefix_Bits q then prefix_Bits p else prefix_Bits q)
           in if minBits = 0 then True
              else case (addr_Prefix (pfx_ip p) minBits, addr_Prefix (pfx_ip q) minBits) of
                     (Inr p', Inr q') \<Rightarrow> pfx_ip p' = pfx_ip q'
                   | _ \<Rightarrow> False)"

definition prefix_String :: "prefix \<Rightarrow> string" where
  "prefix_String p =
     (if \<not> prefix_IsValid p then ''invalid Prefix''
      else addr_String (pfx_ip p) @ ''/'' @ itoa (nat (prefix_Bits p)))"

fun strings_LastIndex :: "string \<Rightarrow> char \<Rightarrow> nat option" where
  "strings_LastIndex [] c = None"
| "strings_LastIndex (x # xs) c =
     (case strings_LastIndex xs c of
        Some i \<Rightarrow> Some (Suc i)
      | None \<Rightarrow> if x = c then Some 0 else None)"

definition ParsePrefix :: "string \<Rightarrow> prefix result" where
  "ParsePrefix s =
     (case strings_LastIndex s (CHR ''/'') of
        None \<Rightarrow> Inl (ErrMsg ''no slash'')
      | Some i \<Rightarrow>
          bindR (ParseAddr (take i s)) (\<lambda>ip.
            if addr_Is6 ip \<and> addr_Zone ip \<noteq> [] then
              Inl (ErrMsg ''IPv6 zones cannot be present in a prefix'')
            else
              let bitsStr = drop (i + 1) s
              in if length bitsStr > 1 \<and> (\<not> isDigit (hd bitsStr) \<or> hd bitsStr = CHR ''0'') then
                   Inl (ErrMsg ''bad bits after slash'')
                 else case (if bitsStr = [] then None else atoiFrom 0 bitsStr) of
                   None \<Rightarrow> Inl (ErrMsg ''bad bits after slash'')
                 | Some bits \<Rightarrow>
                     if int bits \<ge> 2 ^ 63 then Inl (ErrMsg ''bad bits after slash'')
                     else if bits > addr_BitLen ip then Inl (ErrMsg ''prefix length out of range'')
                     else Inr (PrefixFrom ip (int bits))))"

section \<open>Socket addresses\<close>

record Socksaddr =
  sa_Addr :: addr
  sa_Port :: uint16
  sa_Fqdn :: string

definition socksaddrZero :: Socksaddr where
  "socksaddrZero = \<lparr>sa_Addr = AddrZero, sa_Port = 0, sa_Fqdn = []\<rparr>"

definition sa_IsIP :: "Socksaddr \<Rightarrow> bool" where
  "sa_IsIP ap = addr_IsValid (sa_Addr ap)"

definition sa_IsIPv4 :: "Socksaddr \<Rightarrow> bool" where
  "sa_IsIPv4 ap = addr_Is4 (sa_Addr ap)"

definition sa_IsIPv6 :: "Socksaddr \<Rightarrow> bool" where
  "sa_IsIPv6 ap = addr_Is6 (sa_Addr ap)"

definition sa_IsDomain :: "Socksaddr \<Rightarrow> bool" where
  "sa_IsDomain ap \<longleftrightarrow> sa_Fqdn ap \<noteq> []"

definition sa_IsValid :: "Socksaddr \<Rightarrow> bool" where
  "sa_IsValid ap \<longleftrightarrow> sa_IsIP ap \<or> sa_IsDomain ap"

definition sa_Unwrap :: "Socksaddr \<Rightarrow> Socksaddr" where
  "sa_Unwrap ap =
     (if addr_Is4In6 (sa_Addr ap)
      then \<lparr>sa_Addr = addr_Unmap (sa_Addr ap), sa_Port = sa_Port ap, sa_Fqdn = []\<rparr>
      else ap)"

definition sa_AddrString :: "Socksaddr \<Rightarrow> string" where
  "sa_AddrString ap = (if addr_IsValid (sa_Addr ap) then addr_String (sa_Addr ap) else sa_Fqdn ap)"

definition net_JoinHostPort :: "string \<Rightarrow> string \<Rightarrow> string" where
  "net_JoinHostPort host port =
     (if CHR '':'' \<in> set host then ''['' @ host @ '']:'' @ port else host @ '':'' @ port)"

definition sa_String :: "Socksaddr \<Rightarrow> string" where
  "sa_String ap = net_JoinHostPort (sa_AddrString ap) (itoa (unat (sa_Port ap)))"

definition SocksaddrFrom :: "addr \<Rightarrow> uint16 \<Rightarrow> Socksaddr" where
  "SocksaddrFrom a port = \<lparr>sa_Addr = a, sa_Port = port, sa_Fqdn = []\<rparr>"

definition unwrapIPv6Address :: "string \<Rightarrow> string" where
  "unwrapIPv6Address address =
     (if length address > 2 \<and> hd address = CHR ''['' \<and> last address = CHR '']''
      then butlast (tl address) else address)"

definition ParseSocksaddrHostPort :: "string \<Rightarrow> uint16 \<Rightarrow> Socksaddr" where
  "ParseSocksaddrHostPort host port =
     (case ParseAddr (unwrapIPv6Address host) of
        Inl _ \<Rightarrow> \<lparr>sa_Addr = AddrZero, sa_Port = port, sa_Fqdn = host\<rparr>
      | Inr a \<Rightarrow> \<lparr>sa_Addr = a, sa_Port = port, sa_Fqdn = []\<rparr>)"

end
