(* ===== verification/Inbound_Context.thy ===== *)
theory Inbound_Context
  imports Netip
begin

text \<open>
  The metadata record the rules match on (\<open>adapter/inbound.go\<close>) with its rule-cache resets, and the
  surroundings of the rule engine: the code the rules call that is outside the modelled sources
  (the IP sets of \<open>netipx\<close>, the regular expressions, the Unicode case tables) and a snapshot of the
  services they query (network manager, Clash server, outbounds with preferred routes). The
  surroundings are one record, an argument of every definition that uses them. \<open>OutboundOf\<close> gives the
  type of the outbound of a tag and whether it has preferred routes.
\<close>

section \<open>Metadata\<close>

type_synonym InterfaceType = uint8

abbreviation (input) InterfaceTypeWIFI :: InterfaceType where "InterfaceTypeWIFI \<equiv> 0"
abbreviation (input) InterfaceTypeCellular :: InterfaceType where "InterfaceTypeCellular \<equiv> 1"
abbreviation (input) InterfaceTypeEthernet :: InterfaceType where "InterfaceTypeEthernet \<equiv> 2"
abbreviation (input) InterfaceTypeOther :: InterfaceType where "InterfaceTypeOther \<equiv> 3"

definition InterfaceType_String :: "InterfaceType \<Rightarrow> string" where
  "InterfaceType_String t =
     (if t = InterfaceTypeWIFI then ''wifi'' else if t = InterfaceTypeCellular then ''cellular''
      else if t = InterfaceTypeEthernet then ''ethernet'' else if t = InterfaceTypeOther then ''other''
      else itoa (unat t))"

record ConnectionOwner =
  ProcessID :: uint32
  UserId :: int
  UserName :: string
  ProcessPath :: string
  AndroidPackageNames :: "string list"

text \<open>
  \<open>SniffContext\<close> (an opaque value of the sniffers) and the deprecated \<open>SourceGeoIPCode\<close> and
  \<open>GeoIPCode\<close>, which nothing reads, are left out.
\<close>

record InboundContext =
  md_Inbound :: string
  md_InboundType :: string
  md_IPVersion :: uint8
  md_Network :: string
  md_Source :: Socksaddr
  md_Destination :: Socksaddr
  md_TunnelSource :: string
  md_TunnelDestination :: string
  md_User :: string
  md_Outbound :: string
  md_Protocol :: string
  md_Domain :: string
  md_Client :: string
  md_SnifferNames :: "string list"
  md_SniffError :: "error option"
  md_InboundDetour :: string
  md_LastInbound :: string
  md_OriginDestination :: Socksaddr
  md_RouteOriginalDestination :: Socksaddr
  md_UDPDisableDomainUnmapping :: bool
  md_UDPConnect :: bool
  md_UDPTimeout :: int
  md_TLSFragment :: bool
  md_TLSFragmentFallbackDelay :: int
  md_TLSRecordFragment :: bool
  md_NetworkStrategy :: "uint8 option"
  md_NetworkType :: "InterfaceType list"
  md_FallbackNetworkType :: "InterfaceType list"
  md_FallbackDelay :: int
  md_DestinationAddresses :: "addr list"
  md_ProcessInfo :: "ConnectionOwner option"
  md_QueryType :: uint16
  md_FakeIP :: bool
  md_IPCIDRMatchSource :: bool
  md_IPCIDRAcceptEmpty :: bool
  md_SourceAddressMatch :: bool
  md_SourcePortMatch :: bool
  md_DestinationAddressMatch :: bool
  md_DestinationPortMatch :: bool
  md_DefinitiveMatchStates :: uint16
  md_IgnoreDestinationIPCIDRMatch :: bool
  md_RealOutbound :: string

text \<open>The zero value of the struct.\<close>

definition emptyContext :: InboundContext where
  "emptyContext =
     \<lparr>md_Inbound = [], md_InboundType = [], md_IPVersion = 0, md_Network = [],
      md_Source = socksaddrZero, md_Destination = socksaddrZero, md_TunnelSource = [],
      md_TunnelDestination = [], md_User = [], md_Outbound = [], md_Protocol = [], md_Domain = [],
      md_Client = [], md_SnifferNames = [], md_SniffError = None, md_InboundDetour = [],
      md_LastInbound = [], md_OriginDestination = socksaddrZero,
      md_RouteOriginalDestination = socksaddrZero, md_UDPDisableDomainUnmapping = False,
      md_UDPConnect = False, md_UDPTimeout = 0, md_TLSFragment = False,
      md_TLSFragmentFallbackDelay = 0, md_TLSRecordFragment = False, md_NetworkStrategy = None,
      md_NetworkType = [], md_FallbackNetworkType = [], md_FallbackDelay = 0,
      md_DestinationAddresses = [], md_ProcessInfo = None, md_QueryType = 0, md_FakeIP = False,
      md_IPCIDRMatchSource = False, md_IPCIDRAcceptEmpty = False, md_SourceAddressMatch = False,
      md_SourcePortMatch = False, md_DestinationAddressMatch = False,
      md_DestinationPortMatch = False, md_DefinitiveMatchStates = 0,
      md_IgnoreDestinationIPCIDRMatch = False, md_RealOutbound = []\<rparr>"

definition SetRealOutbound :: "InboundContext \<Rightarrow> string \<Rightarrow> InboundContext" where
  "SetRealOutbound c tag = c\<lparr>md_RealOutbound := tag\<rparr>"

definition GetRealOutbound :: "InboundContext \<Rightarrow> string" where
  "GetRealOutbound c = md_RealOutbound c"

definition ResetRuleMatchCache :: "InboundContext \<Rightarrow> InboundContext" where
  "ResetRuleMatchCache c =
     c\<lparr>md_SourceAddressMatch := False, md_SourcePortMatch := False,
       md_DestinationAddressMatch := False, md_DestinationPortMatch := False,
       md_DefinitiveMatchStates := 0\<rparr>"

definition ResetRuleCache :: "InboundContext \<Rightarrow> InboundContext" where
  "ResetRuleCache c =
     ResetRuleMatchCache (c\<lparr>md_IPCIDRMatchSource := False, md_IPCIDRAcceptEmpty := False\<rparr>)"

section \<open>Surroundings\<close>

text \<open>
  An IP set of \<open>netipx\<close> is known by the calls that built it: prefixes and addresses given to the
  builder, and the ranges a binary rule-set lists. What it contains is the business of the library.
\<close>

datatype ipsetEntry = IPSetPrefix prefix | IPSetAddr addr | IPSetRange addr addr

type_synonym ipset = "ipsetEntry list"

record interface =
  if_Name :: string
  if_Addresses :: "prefix list"

record NetworkInterface = interface +
  ni_Type :: InterfaceType
  ni_Expensive :: bool
  ni_Constrained :: bool

record WIFIState =
  wifi_SSID :: string
  wifi_BSSID :: string

record env =
  ipset_Contains :: "ipset \<Rightarrow> addr \<Rightarrow> bool"
  ipset_Build :: "ipset \<Rightarrow> error option"
  regexp_Compile :: "string \<Rightarrow> error option"
  regexp_MatchString :: "string \<Rightarrow> string \<Rightarrow> bool"
  unicode_ToLower :: "string \<Rightarrow> string"
  unicode_EqualFold :: "string \<Rightarrow> string \<Rightarrow> bool"
  unicode_TrimSpace :: "string \<Rightarrow> string"
  dns_TypeToString :: "uint16 \<Rightarrow> string option"
  IsAndroid :: bool
  DefaultNetworkInterface :: "NetworkInterface option"
  NetworkInterfaces :: "NetworkInterface list"
  Interfaces :: "interface list"
  MyInterfaces :: "string list"
  DefaultInterface :: "interface option"
  WIFI :: WIFIState
  clashMode :: "string option"
  OutboundOf :: "string \<Rightarrow> (string \<times> bool) option"
  PreferredDomain :: "string \<Rightarrow> string \<Rightarrow> bool"
  PreferredAddress :: "string \<Rightarrow> addr \<Rightarrow> bool"

text \<open>What \<open>netipx\<close> documents of \<open>IPSet.Contains\<close>: an address is in the set when an entry covers it.\<close>

fun addr_le :: "addr \<Rightarrow> addr \<Rightarrow> bool" where
  "addr_le (Addr4 v) (Addr4 w) = (v \<le> w)"
| "addr_le (Addr6 v z) (Addr6 w y) = (z = y \<and> v \<le> w)"
| "addr_le _ _ = False"

fun entryCovers :: "ipsetEntry \<Rightarrow> addr \<Rightarrow> bool" where
  "entryCovers (IPSetPrefix p) a = prefix_Contains p a"
| "entryCovers (IPSetAddr b) a = (a = b \<and> a \<noteq> AddrZero \<and> addr_Zone a = [])"
| "entryCovers (IPSetRange lo hi) a = (addr_le lo a \<and> addr_le a hi)"

definition ipset_contract :: "env \<Rightarrow> bool" where
  "ipset_contract env \<longleftrightarrow>
     (\<forall>s a. ipset_Contains env s a \<longleftrightarrow> (\<exists>e\<in>set s. entryCovers e a))"

section \<open>Text helpers that need the surroundings\<close>

definition isASCII :: "string \<Rightarrow> bool" where
  "isASCII s = list_all (\<lambda>c. (of_char c :: nat) < 128) s"

definition lowerChar :: "char \<Rightarrow> char" where
  "lowerChar c =
     (if 65 \<le> (of_char c :: nat) \<and> (of_char c :: nat) \<le> 90 then char_of ((of_char c :: nat) + 32) else c)"

definition strings_ToLower :: "env \<Rightarrow> string \<Rightarrow> string" where
  "strings_ToLower env s = (if isASCII s then map lowerChar s else unicode_ToLower env s)"

definition strings_EqualFold :: "env \<Rightarrow> string \<Rightarrow> string \<Rightarrow> bool" where
  "strings_EqualFold env s t =
     (if isASCII s \<and> isASCII t then map lowerChar s = map lowerChar t else unicode_EqualFold env s t)"

definition isSpace :: "char \<Rightarrow> bool" where
  "isSpace c \<longleftrightarrow> (of_char c :: nat) \<in> {9, 10, 11, 12, 13, 32}"

definition strings_TrimSpace :: "env \<Rightarrow> string \<Rightarrow> string" where
  "strings_TrimSpace env s =
     (if isASCII s then rev (dropWhile isSpace (rev (dropWhile isSpace s))) else unicode_TrimSpace env s)"

text \<open>\<open>filepath.Base\<close> on systems whose separator is the slash.\<close>

definition filepath_Base :: "string \<Rightarrow> string" where
  "filepath_Base path =
     (if path = [] then ''.''
      else
        let stripped = rev (dropWhile (\<lambda>c. c = CHR ''/'') (rev path));
            element = rev (takeWhile (\<lambda>c. c \<noteq> CHR ''/'') (rev stripped))
        in if element = [] then ''/'' else element)"

text \<open>\<open>net.ParseMAC\<close> and \<open>HardwareAddr.String\<close>.\<close>

fun hexPairs :: "string \<Rightarrow> nat list option" where
  "hexPairs [] = Some []"
| "hexPairs [c] = None"
| "hexPairs (c # d # rest) =
     (case (hexVal c, hexVal d, hexPairs rest) of
        (Some x, Some y, Some bs) \<Rightarrow> Some ((x * 16 + y) # bs)
      | _ \<Rightarrow> None)"

text \<open>Every \<open>k\<close> characters of \<open>s\<close> are followed by the separator, the last ones by nothing.\<close>

fun splitGroups :: "nat \<Rightarrow> nat \<Rightarrow> char \<Rightarrow> string \<Rightarrow> string option" where
  "splitGroups 0 k sep s = (if s = [] then Some [] else None)"
| "splitGroups (Suc n) k sep s =
     (if length s < k then None
      else if length s = k then (if n = 0 then Some s else None)
      else if s ! k \<noteq> sep then None
      else map_option (\<lambda>r. take k s @ r) (splitGroups n k sep (drop (k + 1) s)))"

definition net_ParseMAC :: "string \<Rightarrow> nat list option" where
  "net_ParseMAC s =
     (if length s < 14 then None
      else if s ! 2 = CHR '':'' \<or> s ! 2 = CHR ''-'' then
        (let n = (length s + 1) div 3
         in if (length s + 1) mod 3 \<noteq> 0 \<or> n \<noteq> 6 \<and> n \<noteq> 8 \<and> n \<noteq> 20 then None
            else Option.bind (splitGroups n 2 (s ! 2) s) hexPairs)
      else if s ! 4 = CHR ''.'' then
        (let n = 2 * (length s + 1) div 5
         in if (length s + 1) mod 5 \<noteq> 0 \<or> n \<noteq> 6 \<and> n \<noteq> 8 \<and> n \<noteq> 20 then None
            else Option.bind (splitGroups (n div 2) 4 (CHR ''.'') s) hexPairs)
      else None)"

definition hexByte :: "nat \<Rightarrow> string" where
  "hexByte b = [hexDigit (b div 16), hexDigit (b mod 16)]"

definition HardwareAddr_String :: "nat list \<Rightarrow> string" where
  "HardwareAddr_String a = strings_Join (map hexByte a) '':''"

definition NormalizeWIFIBSSID :: "env \<Rightarrow> string \<Rightarrow> string" where
  "NormalizeWIFIBSSID env bssid0 =
     (let bssid = strings_TrimSpace env bssid0
      in if bssid = [] then []
         else case net_ParseMAC bssid of
           Some parsed \<Rightarrow>
             if length parsed = 6 then HardwareAddr_String parsed
             else if length bssid = 12 then
               (case hexPairs bssid of Some decoded \<Rightarrow> HardwareAddr_String decoded | None \<Rightarrow> bssid)
             else bssid
         | None \<Rightarrow>
             if length bssid = 12 then
               (case hexPairs bssid of Some decoded \<Rightarrow> HardwareAddr_String decoded | None \<Rightarrow> bssid)
             else bssid)"

section \<open>A sample environment\<close>

text \<open>
  Concrete surroundings on which hypotheses about them can be checked: IP sets that contain what
  their entries cover, no regular expressions, and no services.
\<close>

definition sampleEnv :: env where
  "sampleEnv =
     \<lparr>ipset_Contains = (\<lambda>s a. list_ex (\<lambda>e. entryCovers e a) s), ipset_Build = (\<lambda>_. None),
      regexp_Compile = (\<lambda>_. Some (ErrMsg ''unsupported'')), regexp_MatchString = (\<lambda>_ _. False),
      unicode_ToLower = (\<lambda>s. s), unicode_EqualFold = (\<lambda>s t. s = t), unicode_TrimSpace = (\<lambda>s. s),
      dns_TypeToString = (\<lambda>_. None), IsAndroid = False, DefaultNetworkInterface = None,
      NetworkInterfaces = [], Interfaces = [], MyInterfaces = [], DefaultInterface = None,
      WIFI = \<lparr>wifi_SSID = [], wifi_BSSID = []\<rparr>, clashMode = None, OutboundOf = (\<lambda>_. None),
      PreferredDomain = (\<lambda>_ _. False), PreferredAddress = (\<lambda>_ _. False)\<rparr>"

lemma sampleEnv_contract: "ipset_contract sampleEnv"
  by (simp add: ipset_contract_def sampleEnv_def list_ex_iff)

end
