(* ===== verification/AdGuard_Matcher.thy ===== *)
theory AdGuard_Matcher
  imports Domain_Matcher
begin

text \<open>
  The AdGuard matcher of \<open>replace/sing/common/domain/adguard_matcher.go\<close>: the filter lines it
  turns into trie keys, and the lookup with wildcards on the trie of \<open>Domain_Matcher\<close>. The recursion
  of the lookup stops below depth 100 as in the code; \<open>None\<close> is again an index panic.
\<close>

abbreviation (input) anyLabel :: char where
  "anyLabel \<equiv> CHR ''*''"

abbreviation (input) suffixLabel :: char where
  "suffixLabel \<equiv> CHR 0x08"

type_synonym AdGuardMatcher = succinctSet

definition hasSuffix :: "string \<Rightarrow> string \<Rightarrow> bool" where
  "hasSuffix s t = hasPrefix (rev s) (rev t)"

definition adguardKey :: "string \<Rightarrow> string" where
  "adguardKey ruleLine0 =
     (let isSuffix = hasPrefix ruleLine0 ''||'';
          hasStart = (\<not> isSuffix \<and> hasPrefix ruleLine0 ''|'');
          ruleLine1 = (if isSuffix then drop 2 ruleLine0 else if hasStart then drop 1 ruleLine0 else ruleLine0);
          hasEnd = hasSuffix ruleLine1 ''^'';
          ruleLine2 = (if hasEnd then butlast ruleLine1 else ruleLine1);
          ruleLine3 = (if isSuffix then rootLabel # ruleLine2
                       else if \<not> hasStart then prefixLabel # ruleLine2 else ruleLine2)
      in if hasEnd then ruleLine3
         else (if hasSuffix ruleLine3 ''.'' then butlast ruleLine3 else ruleLine3) @ [suffixLabel])"

fun common_Uniq :: "'a list \<Rightarrow> 'a list \<Rightarrow> 'a list" where
  "common_Uniq seen [] = []"
| "common_Uniq seen (x # xs) =
     (if x \<in> set seen then common_Uniq seen xs else x # common_Uniq (x # seen) xs)"

definition NewAdGuardMatcher :: "string list \<Rightarrow> AdGuardMatcher option" where
  "NewAdGuardMatcher ruleLines =
     Option.bind (mapOption (\<lambda>l. reverseDomain (adguardKey l)) ruleLines) (\<lambda>ruleList.
       newSuccinctSet (sort (common_Uniq [] ruleList)))"

text \<open>The node reached through the child at a bit: its number and its first bit.\<close>

definition childNode :: "AdGuardMatcher \<Rightarrow> nat \<Rightarrow> (nat \<times> nat) option" where
  "childNode m bmIdx =
     Option.bind (countZeros (labelBitmap m) (ranks m) (bmIdx + 1)) (\<lambda>nextNodeId.
       map_option (\<lambda>p. (nextNodeId, p + 1))
         (selectIthOne (labelBitmap m) (ranks m) (selects m) (nextNodeId - 1)))"

text \<open>The remaining keys \<open>key[j:]\<close> for \<open>j = i, ..., keyLen\<close>, tried until one matches.\<close>

fun tryDrops :: "(string \<Rightarrow> bool option) \<Rightarrow> string \<Rightarrow> bool option" where
  "tryDrops rec [] = rec []"
| "tryDrops rec (c # key) =
     (case rec (c # key) of None \<Rightarrow> None | Some True \<Rightarrow> Some True | Some False \<Rightarrow> tryDrops rec key)"

text \<open>
  The loops of \<open>hasWithDepth\<close> take the call one level deeper as \<open>rec\<close>, with the key, the node and
  its first bit. The inner loop yields \<open>Inl\<close> for a return and \<open>Inr\<close> for the break.
\<close>

fun adguardLabel ::
  "nat \<Rightarrow> (string \<Rightarrow> nat \<Rightarrow> nat \<Rightarrow> bool option) \<Rightarrow> AdGuardMatcher \<Rightarrow> string \<Rightarrow> nat \<Rightarrow> nat \<Rightarrow>
   (bool + nat) option" where
  "adguardLabel 0 rec m key nodeId bmIdx = None"
| "adguardLabel (Suc fuel) rec m key nodeId bmIdx =
     (case getBit (labelBitmap m) bmIdx of
        None \<Rightarrow> None
      | Some b \<Rightarrow>
          if b \<noteq> 0 then Some (Inl False)
          else (case index (labels m) (bmIdx - nodeId) of
             None \<Rightarrow> None
           | Some nextLabel \<Rightarrow>
               if nextLabel = prefixLabel then Some (Inl True)
               else
                 let next = (\<lambda>_::unit. adguardLabel fuel rec m key nodeId (bmIdx + 1));
                     continue = (\<lambda>_::unit.
                       if nextLabel = hd key then Some (Inr bmIdx)
                       else if nextLabel = anyLabel \<or> nextLabel = suffixLabel then
                         Option.bind (childNode m bmIdx) (\<lambda>(nextNodeId, nextBmIdx).
                           case tryDrops (\<lambda>k. rec k nextNodeId nextBmIdx) key of
                             None \<Rightarrow> None
                           | Some True \<Rightarrow> Some (Inl True)
                           | Some False \<Rightarrow> next ())
                       else next ())
                 in if nextLabel = rootLabel then
                      Option.bind (countZeros (labelBitmap m) (ranks m) (bmIdx + 1)) (\<lambda>nextNodeId.
                        Option.bind (getBit (leaves m) nextNodeId) (\<lambda>hasNext.
                          if hd key = CHR ''.'' \<and> hasNext \<noteq> 0 then Some (Inl True) else continue ()))
                    else continue ()))"

fun adguardTail ::
  "nat \<Rightarrow> (string \<Rightarrow> nat \<Rightarrow> nat \<Rightarrow> bool option) \<Rightarrow> AdGuardMatcher \<Rightarrow> nat \<Rightarrow> nat \<Rightarrow> bool option" where
  "adguardTail 0 rec m nodeId bmIdx = None"
| "adguardTail (Suc fuel) rec m nodeId bmIdx =
     (case getBit (labelBitmap m) bmIdx of
        None \<Rightarrow> None
      | Some b \<Rightarrow>
          if b \<noteq> 0 then Some False
          else (case index (labels m) (bmIdx - nodeId) of
             None \<Rightarrow> None
           | Some nextLabel \<Rightarrow>
               if nextLabel = prefixLabel \<or> nextLabel = rootLabel \<or> nextLabel = suffixLabel then Some True
               else if nextLabel = anyLabel then
                 Option.bind (childNode m bmIdx) (\<lambda>(nextNodeId, nextBmIdx). rec [] nextNodeId nextBmIdx)
               else adguardTail fuel rec m nodeId (bmIdx + 1)))"

fun adguardFrom ::
  "(string \<Rightarrow> nat \<Rightarrow> nat \<Rightarrow> bool option) \<Rightarrow> AdGuardMatcher \<Rightarrow> string \<Rightarrow> nat \<Rightarrow> nat \<Rightarrow> bool option" where
  "adguardFrom rec m [] nodeId bmIdx =
     Option.bind (getBit (leaves m) nodeId) (\<lambda>leaf.
       if leaf \<noteq> 0 then Some True else adguardTail (bitmapFuel m) rec m nodeId bmIdx)"
| "adguardFrom rec m (c # key) nodeId bmIdx =
     (case adguardLabel (bitmapFuel m) rec m (c # key) nodeId bmIdx of
        None \<Rightarrow> None
      | Some (Inl b) \<Rightarrow> Some b
      | Some (Inr bmIdx') \<Rightarrow>
          Option.bind (childNode m bmIdx') (\<lambda>(nodeId', p). adguardFrom rec m key nodeId' p))"

text \<open>\<open>hasWithDepth\<close>, with the number of levels that are left instead of the depth.\<close>

primrec hasWithDepth :: "nat \<Rightarrow> AdGuardMatcher \<Rightarrow> string \<Rightarrow> nat \<Rightarrow> nat \<Rightarrow> bool option" where
  "hasWithDepth 0 m key nodeId bmIdx = Some False"
| "hasWithDepth (Suc levels) m key nodeId bmIdx =
     adguardFrom (hasWithDepth levels m) m key nodeId bmIdx"

definition adguard_has :: "AdGuardMatcher \<Rightarrow> string \<Rightarrow> bool option" where
  "adguard_has m key = hasWithDepth 101 m key 0 0"

text \<open>The keys tried by \<open>Match\<close>: the key after each of its dots, once per round.\<close>

fun adguardMatchLoop :: "nat \<Rightarrow> AdGuardMatcher \<Rightarrow> string \<Rightarrow> bool option" where
  "adguardMatchLoop 0 m key = None"
| "adguardMatchLoop (Suc rounds) m key =
     (case adguard_has m (suffixLabel # key) of
        None \<Rightarrow> None
      | Some True \<Rightarrow> Some True
      | Some False \<Rightarrow>
          (case strings_Index key (CHR ''.'') of
             None \<Rightarrow> Some False
           | Some idx \<Rightarrow> adguardMatchLoop rounds m (drop (idx + 1) key)))"

definition AdGuardMatcher_Match :: "AdGuardMatcher \<Rightarrow> string \<Rightarrow> bool option" where
  "AdGuardMatcher_Match m domain =
     Option.bind (reverseDomain domain) (\<lambda>key.
       case adguard_has m key of
         None \<Rightarrow> None
       | Some True \<Rightarrow> Some True
       | Some False \<Rightarrow> adguardMatchLoop (length key + 1) m key)"

end
