(* ===== verification/Rule_Items.thy ===== *)
theory Rule_Items
  imports Inbound_Context AdGuard_Matcher
begin

text \<open>
  The rule items of \<open>route/rule/rule_item_*.go\<close> and the three interface address items, except the
  rule-set item, which is part of \<open>Rule_Engine\<close>. Every struct is a constructor of \<open>RuleItem\<close> with the
  fields of the struct in order; each has its constructor function, its \<open>Match\<close> and its \<open>String\<close>,
  and \<open>RuleItem_Match\<close>, \<open>RuleItem_String\<close> and \<open>RuleItem_Start\<close> dispatch as the interface does.
  Services an item holds a pointer to are read from the surroundings.
\<close>

section \<open>Data\<close>

datatype RuleItem =
    AdGuardDomainItem AdGuardMatcher
  | AuthUserItem "string list" "string \<rightharpoonup> bool"
  | IPCIDRItem ipset bool string
  | ClashModeItem bool string
  | ClientItem "string list" "string \<rightharpoonup> bool"
  | DomainItem Matcher string
  | DomainKeywordItem "string list"
  | DomainRegexItem "string list" string
  | InboundItem "string list" "string \<rightharpoonup> bool"
  | IPAcceptAnyItem
  | IPIsPrivateItem bool
  | IPVersionItem bool
  | NetworkItem "string list" "string \<rightharpoonup> bool"
  | NetworkIsConstrainedItem
  | NetworkIsExpensiveItem
  | NetworkTypeItem "InterfaceType list"
  | OutboundItem "string list" "string \<rightharpoonup> bool" bool
  | PackageNameItem "string list" "string \<rightharpoonup> bool"
  | PortItem "uint16 list" "uint16 \<rightharpoonup> bool" bool
  | PortRangeItem bool "string list" "(uint16 \<times> uint16) list"
  | PreferredByItem "string list" "string list"
  | ProcessItem "string list" "string \<rightharpoonup> bool"
  | ProcessPathItem "string list" "string \<rightharpoonup> bool"
  | ProcessPathRegexItem "string list" string
  | ProtocolItem "string list" "string \<rightharpoonup> bool"
  | QueryTypeItem "uint16 list" "uint16 \<rightharpoonup> bool"
  | TunnelDestinationItem "string list" "string \<rightharpoonup> bool"
  | TunnelSourceItem "string list" "string \<rightharpoonup> bool"
  | UserItem "string list" "string \<rightharpoonup> bool"
  | UserIdItem "int list" "int \<rightharpoonup> bool"
  | WIFIBSSIDItem "string list" "string \<rightharpoonup> bool"
  | WIFISSIDItem "string list" "string \<rightharpoonup> bool"
  | DefaultInterfaceAddressItem "prefix list"
  | InterfaceAddressItem "(string \<times> prefix list) list" string
  | NetworkInterfaceAddressItem "(InterfaceType \<times> prefix list) list" string

section \<open>Shared pieces\<close>

text \<open>The host of a connection that the domain items look at.\<close>

definition domainHost :: "InboundContext \<Rightarrow> string" where
  "domainHost md = (if md_Domain md \<noteq> [] then md_Domain md else sa_Fqdn (md_Destination md))"

definition listString :: "string \<Rightarrow> string list \<Rightarrow> string" where
  "listString key xs =
     (if length xs = 1 then key @ hd xs else key @ ''['' @ strings_Join xs '' '' @ '']'')"

definition listString3 :: "string \<Rightarrow> string \<Rightarrow> string list \<Rightarrow> string" where
  "listString3 key dots xs =
     (if length xs = 1 then key @ hd xs
      else if length xs > 3 then key @ ''['' @ strings_Join (take 3 xs) '' '' @ dots @ '']''
      else key @ ''['' @ strings_Join xs '' '' @ '']'')"

definition itoaInt :: "int \<Rightarrow> string" where
  "itoaInt i = (if i < 0 then ''-'' @ itoa (nat (- i)) else itoa (nat i))"

text \<open>A Go map filled from a list of entries, as the list of its final entries.\<close>

fun mapSet :: "('k \<times> 'v) list \<Rightarrow> 'k \<Rightarrow> 'v \<Rightarrow> ('k \<times> 'v) list" where
  "mapSet [] k v = [(k, v)]"
| "mapSet ((k', v') # m) k v = (if k' = k then (k, v) # m else (k', v') # mapSet m k v)"

section \<open>Items on the source and the destination address\<close>

text \<open>
  \<open>NewIPCIDRItem\<close> collects every prefix or address into the builder and fails at the first string
  that is neither.
\<close>

fun ipcidrEntries :: "nat \<Rightarrow> string list \<Rightarrow> ipset result" where
  "ipcidrEntries i [] = Inr []"
| "ipcidrEntries i (prefixString # rest) =
     (case ParsePrefix prefixString of
        Inr p \<Rightarrow> bindR (ipcidrEntries (i + 1) rest) (\<lambda>es. Inr (IPSetPrefix p # es))
      | Inl err \<Rightarrow>
          (case ParseAddr prefixString of
             Inr a \<Rightarrow> bindR (ipcidrEntries (i + 1) rest) (\<lambda>es. Inr (IPSetAddr a # es))
           | Inl _ \<Rightarrow> Inl (Cause err (''parse ['' @ itoa i @ '']''))))"

definition NewIPCIDRItem :: "env \<Rightarrow> bool \<Rightarrow> string list \<Rightarrow> RuleItem result" where
  "NewIPCIDRItem env isSource prefixStrings =
     bindR (ipcidrEntries 0 prefixStrings) (\<lambda>entries.
       let description =
         listString3 (if isSource then ''source_ip_cidr='' else ''ip_cidr='') ''...'' prefixStrings
       in case ipset_Build env entries of
            Some err \<Rightarrow> Inl err
          | None \<Rightarrow> Inr (IPCIDRItem entries isSource description))"

definition NewRawIPCIDRItem :: "bool \<Rightarrow> ipset \<Rightarrow> RuleItem" where
  "NewRawIPCIDRItem isSource ipSet =
     IPCIDRItem ipSet isSource ((if isSource then ''source_ip_cidr='' else ''ip_cidr='') @ ''<binary>'')"

definition IPCIDRItem_Match :: "env \<Rightarrow> ipset \<Rightarrow> bool \<Rightarrow> InboundContext \<Rightarrow> bool" where
  "IPCIDRItem_Match env ipSet isSource md =
     (if isSource \<or> md_IPCIDRMatchSource md then ipset_Contains env ipSet (sa_Addr (md_Source md))
      else if sa_IsIP (md_Destination md) then ipset_Contains env ipSet (sa_Addr (md_Destination md))
      else if md_DestinationAddresses md \<noteq> [] then
        list_ex (ipset_Contains env ipSet) (md_DestinationAddresses md)
      else md_IPCIDRAcceptEmpty md)"

definition IPIsPrivateItem_Match :: "bool \<Rightarrow> InboundContext \<Rightarrow> bool" where
  "IPIsPrivateItem_Match isSource md =
     (let destination = (if isSource then sa_Addr (md_Source md) else sa_Addr (md_Destination md))
      in if addr_IsValid destination then \<not> IsPublicAddr destination
         else if \<not> isSource then list_ex (\<lambda>a. \<not> IsPublicAddr a) (md_DestinationAddresses md)
         else False)"

definition IPIsPrivateItem_String :: "bool \<Rightarrow> string" where
  "IPIsPrivateItem_String isSource =
     (if isSource then ''source_ip_is_private=true'' else ''ip_is_private=true'')"

definition IPAcceptAnyItem_Match :: "InboundContext \<Rightarrow> bool" where
  "IPAcceptAnyItem_Match md \<longleftrightarrow> md_DestinationAddresses md \<noteq> []"

definition IPVersionItem_Match :: "bool \<Rightarrow> InboundContext \<Rightarrow> bool" where
  "IPVersionItem_Match isIPv6 md \<longleftrightarrow>
     md_IPVersion md \<noteq> 0 \<and> (md_IPVersion md = 6) = isIPv6 \<or>
     sa_IsIP (md_Destination md) \<and> sa_IsIPv6 (md_Destination md) = isIPv6"

definition IPVersionItem_String :: "bool \<Rightarrow> string" where
  "IPVersionItem_String isIPv6 = ''ip_version='' @ (if isIPv6 then ''6'' else ''4'')"

definition NewPortItem :: "bool \<Rightarrow> uint16 list \<Rightarrow> RuleItem" where
  "NewPortItem isSource ports = PortItem ports (boolMap ports) isSource"

definition PortItem_Match :: "(uint16 \<rightharpoonup> bool) \<Rightarrow> bool \<Rightarrow> InboundContext \<Rightarrow> bool" where
  "PortItem_Match portMap isSource md =
     (if isSource then mapGet portMap (sa_Port (md_Source md))
      else mapGet portMap (sa_Port (md_Destination md)))"

definition PortItem_String :: "uint16 list \<Rightarrow> bool \<Rightarrow> string" where
  "PortItem_String ports isSource =
     listString (if isSource then ''source_port='' else ''port='') (map (\<lambda>p. itoa (unat p)) ports)"

definition parsePortRange :: "string \<Rightarrow> (uint16 \<times> uint16) result" where
  "parsePortRange portRange =
     (case strings_Index portRange (CHR '':'') of
        None \<Rightarrow> Inl (Extend (ErrMsg ''bad port range'') portRange)
      | Some subIndex \<Rightarrow>
          bindR (if subIndex > 0
                 then causeR (parseUint16 (take subIndex portRange)) (''bad port range: '' @ portRange)
                 else Inr 0) (\<lambda>start.
          bindR (if subIndex = length portRange - 1 then Inr 0xFFFF
                 else causeR (parseUint16 (drop (subIndex + 1) portRange)) (''bad port range: '' @ portRange))
            (\<lambda>end. Inr (start, end))))"

fun parsePortRanges :: "string list \<Rightarrow> (uint16 \<times> uint16) list result" where
  "parsePortRanges [] = Inr []"
| "parsePortRanges (r # rs) =
     bindR (parsePortRange r) (\<lambda>x. bindR (parsePortRanges rs) (\<lambda>xs. Inr (x # xs)))"

definition NewPortRangeItem :: "bool \<Rightarrow> string list \<Rightarrow> RuleItem result" where
  "NewPortRangeItem isSource rangeList =
     bindR (parsePortRanges rangeList) (\<lambda>portRangeList.
       Inr (PortRangeItem isSource rangeList portRangeList))"

definition PortRangeItem_Match :: "bool \<Rightarrow> (uint16 \<times> uint16) list \<Rightarrow> InboundContext \<Rightarrow> bool" where
  "PortRangeItem_Match isSource portRangeList md =
     (let port = (if isSource then sa_Port (md_Source md) else sa_Port (md_Destination md))
      in list_ex (\<lambda>(start, end). port \<ge> start \<and> port \<le> end) portRangeList)"

definition PortRangeItem_String :: "bool \<Rightarrow> string list \<Rightarrow> string" where
  "PortRangeItem_String isSource portRanges =
     listString (if isSource then ''source_port_range='' else ''port_range='') portRanges"

section \<open>Items on domains and programs\<close>

definition describeDomains :: "string list \<Rightarrow> string list \<Rightarrow> string" where
  "describeDomains domains domainSuffixes =
     (let description = (if domains = [] then [] else listString3 ''domain='' ''...'' domains)
      in if domainSuffixes = [] then description
         else description @ (if description \<noteq> [] then '' '' else []) @
           listString3 ''domain_suffix='' ''...'' domainSuffixes)"

definition NewDomainItem :: "string list \<Rightarrow> string list \<Rightarrow> RuleItem result" where
  "NewDomainItem domains domainSuffixes =
     (if [] \<in> set domains then Inl (ErrMsg ''domain: empty item is not allowed'')
      else if [] \<in> set domainSuffixes then Inl (ErrMsg ''domain_suffix: empty item is not allowed'')
      else case NewMatcher domains domainSuffixes False of
        None \<Rightarrow> Inl (Panic ''index out of range'')
      | Some matcher \<Rightarrow> Inr (DomainItem matcher (describeDomains domains domainSuffixes)))"

definition NewRawDomainItem :: "Matcher \<Rightarrow> RuleItem" where
  "NewRawDomainItem matcher = DomainItem matcher ''domain/domain_suffix=<binary>''"

text \<open>
  The matchers answer \<open>Some\<close> on every trie that was built or read (\<open>None\<close> is an index panic), so the
  items read the answer as a boolean.
\<close>

definition DomainItem_Match :: "env \<Rightarrow> Matcher \<Rightarrow> InboundContext \<Rightarrow> bool" where
  "DomainItem_Match env matcher md =
     (if domainHost md = [] then False
      else Matcher_Match matcher (strings_ToLower env (domainHost md)) = Some True)"

definition DomainKeywordItem_Match :: "env \<Rightarrow> string list \<Rightarrow> InboundContext \<Rightarrow> bool" where
  "DomainKeywordItem_Match env keywords md =
     (if domainHost md = [] then False
      else list_ex (strings_Contains (strings_ToLower env (domainHost md))) keywords)"

definition DomainKeywordItem_String :: "string list \<Rightarrow> string" where
  "DomainKeywordItem_String keywords = listString3 ''domain_keyword='' ''...'' keywords"

fun compileAll :: "env \<Rightarrow> nat \<Rightarrow> string list \<Rightarrow> string list result" where
  "compileAll env i [] = Inr []"
| "compileAll env i (regex # rest) =
     (case regexp_Compile env regex of
        Some err \<Rightarrow> Inl (Cause err (''parse expression '' @ itoa i))
      | None \<Rightarrow> bindR (compileAll env (i + 1) rest) (\<lambda>ms. Inr (regex # ms)))"

definition NewDomainRegexItem :: "env \<Rightarrow> string list \<Rightarrow> RuleItem result" where
  "NewDomainRegexItem env expressions =
     bindR (compileAll env 0 expressions) (\<lambda>matchers.
       Inr (DomainRegexItem matchers (listString3 ''domain_regex='' [] expressions)))"

definition DomainRegexItem_Match :: "env \<Rightarrow> string list \<Rightarrow> InboundContext \<Rightarrow> bool" where
  "DomainRegexItem_Match env matchers md =
     (if domainHost md = [] then False
      else list_ex (\<lambda>m. regexp_MatchString env m (strings_ToLower env (domainHost md))) matchers)"

definition NewAdGuardDomainItem :: "string list \<Rightarrow> RuleItem result" where
  "NewAdGuardDomainItem ruleLines =
     (case NewAdGuardMatcher ruleLines of
        None \<Rightarrow> Inl (Panic ''index out of range'')
      | Some matcher \<Rightarrow> Inr (AdGuardDomainItem matcher))"

definition NewRawAdGuardDomainItem :: "AdGuardMatcher \<Rightarrow> RuleItem" where
  "NewRawAdGuardDomainItem matcher = AdGuardDomainItem matcher"

definition AdGuardDomainItem_Match :: "env \<Rightarrow> AdGuardMatcher \<Rightarrow> InboundContext \<Rightarrow> bool" where
  "AdGuardDomainItem_Match env matcher md =
     (if domainHost md = [] then False
      else AdGuardMatcher_Match matcher (strings_ToLower env (domainHost md)) = Some True)"

definition AdGuardDomainItem_String :: string where
  "AdGuardDomainItem_String = ''!adguard_domain_rules=<binary>''"

definition NewProcessItem :: "string list \<Rightarrow> RuleItem" where
  "NewProcessItem processNameList = ProcessItem processNameList (boolMap processNameList)"

definition ProcessItem_Match :: "(string \<rightharpoonup> bool) \<Rightarrow> InboundContext \<Rightarrow> bool" where
  "ProcessItem_Match processMap md =
     (case md_ProcessInfo md of
        None \<Rightarrow> False
      | Some info \<Rightarrow>
          if ProcessPath info = [] then False else mapGet processMap (filepath_Base (ProcessPath info)))"

definition NewProcessPathItem :: "string list \<Rightarrow> RuleItem" where
  "NewProcessPathItem processNameList = ProcessPathItem processNameList (boolMap processNameList)"

definition ProcessPathItem_Match :: "env \<Rightarrow> (string \<rightharpoonup> bool) \<Rightarrow> InboundContext \<Rightarrow> bool" where
  "ProcessPathItem_Match env processMap md =
     (case md_ProcessInfo md of
        None \<Rightarrow> False
      | Some info \<Rightarrow>
          if ProcessPath info \<noteq> [] \<and> mapGet processMap (ProcessPath info) then True
          else IsAndroid env \<and> list_ex (mapGet processMap) (AndroidPackageNames info))"

definition NewProcessPathRegexItem :: "env \<Rightarrow> string list \<Rightarrow> RuleItem result" where
  "NewProcessPathRegexItem env expressions =
     bindR (compileAll env 0 expressions) (\<lambda>matchers.
       Inr (ProcessPathRegexItem matchers (listString3 ''process_path_regex='' [] expressions)))"

definition ProcessPathRegexItem_Match :: "env \<Rightarrow> string list \<Rightarrow> InboundContext \<Rightarrow> bool" where
  "ProcessPathRegexItem_Match env matchers md =
     (case md_ProcessInfo md of
        None \<Rightarrow> False
      | Some info \<Rightarrow>
          ProcessPath info \<noteq> [] \<and> list_ex (\<lambda>m. regexp_MatchString env m (ProcessPath info)) matchers)"

definition NewPackageNameItem :: "string list \<Rightarrow> RuleItem" where
  "NewPackageNameItem packageNameList = PackageNameItem packageNameList (boolMap packageNameList)"

definition PackageNameItem_Match :: "(string \<rightharpoonup> bool) \<Rightarrow> InboundContext \<Rightarrow> bool" where
  "PackageNameItem_Match packageMap md =
     (case md_ProcessInfo md of
        None \<Rightarrow> False
      | Some info \<Rightarrow>
          AndroidPackageNames info \<noteq> [] \<and> list_ex (mapGet packageMap) (AndroidPackageNames info))"

definition NewUserItem :: "string list \<Rightarrow> RuleItem" where
  "NewUserItem users = UserItem users (boolMap users)"

definition UserItem_Match :: "(string \<rightharpoonup> bool) \<Rightarrow> InboundContext \<Rightarrow> bool" where
  "UserItem_Match userMap md =
     (case md_ProcessInfo md of
        None \<Rightarrow> False
      | Some info \<Rightarrow> UserName info \<noteq> [] \<and> mapGet userMap (UserName info))"

definition NewUserIDItem :: "int list \<Rightarrow> RuleItem" where
  "NewUserIDItem userIdList = UserIdItem userIdList (boolMap userIdList)"

definition UserIdItem_Match :: "(int \<rightharpoonup> bool) \<Rightarrow> InboundContext \<Rightarrow> bool" where
  "UserIdItem_Match userIdMap md =
     (case md_ProcessInfo md of
        None \<Rightarrow> False
      | Some info \<Rightarrow> UserId info \<noteq> - 1 \<and> mapGet userIdMap (UserId info))"

definition UserIdItem_String :: "int list \<Rightarrow> string" where
  "UserIdItem_String userIds = listString ''user_id='' (map itoaInt userIds)"

section \<open>Items on the inbound, the protocol and the network\<close>

definition NewAuthUserItem :: "string list \<Rightarrow> RuleItem" where
  "NewAuthUserItem users = AuthUserItem users (boolMap users)"

definition AuthUserItem_Match :: "(string \<rightharpoonup> bool) \<Rightarrow> InboundContext \<Rightarrow> bool" where
  "AuthUserItem_Match userMap md = mapGet userMap (md_User md)"

definition NewClientItem :: "string list \<Rightarrow> RuleItem" where
  "NewClientItem clients = ClientItem clients (boolMap clients)"

definition ClientItem_Match :: "(string \<rightharpoonup> bool) \<Rightarrow> InboundContext \<Rightarrow> bool" where
  "ClientItem_Match clientMap md = mapGet clientMap (md_Client md)"

definition NewInboundRule :: "string list \<Rightarrow> RuleItem" where
  "NewInboundRule inbounds = InboundItem inbounds (boolMap inbounds)"

definition InboundItem_Match :: "(string \<rightharpoonup> bool) \<Rightarrow> InboundContext \<Rightarrow> bool" where
  "InboundItem_Match inboundMap md = mapGet inboundMap (md_Inbound md)"

definition NewNetworkItem :: "string list \<Rightarrow> RuleItem" where
  "NewNetworkItem networks = NetworkItem networks (boolMap networks)"

definition NetworkItem_Match :: "(string \<rightharpoonup> bool) \<Rightarrow> InboundContext \<Rightarrow> bool" where
  "NetworkItem_Match networkMap md = mapGet networkMap (md_Network md)"

definition NewProtocolItem :: "string list \<Rightarrow> RuleItem" where
  "NewProtocolItem protocols = ProtocolItem protocols (boolMap protocols)"

definition ProtocolItem_Match :: "(string \<rightharpoonup> bool) \<Rightarrow> InboundContext \<Rightarrow> bool" where
  "ProtocolItem_Match protocolMap md = mapGet protocolMap (md_Protocol md)"

definition NewQueryTypeItem :: "uint16 list \<Rightarrow> RuleItem" where
  "NewQueryTypeItem typeList = QueryTypeItem typeList (boolMap typeList)"

definition QueryTypeItem_Match :: "(uint16 \<rightharpoonup> bool) \<Rightarrow> InboundContext \<Rightarrow> bool" where
  "QueryTypeItem_Match typeMap md =
     (if md_QueryType md = 0 then False else mapGet typeMap (md_QueryType md))"

definition DNSQueryTypeToString :: "env \<Rightarrow> uint16 \<Rightarrow> string" where
  "DNSQueryTypeToString env queryType =
     (case dns_TypeToString env queryType of Some typeName \<Rightarrow> typeName | None \<Rightarrow> itoa (unat queryType))"

definition QueryTypeItem_String :: "env \<Rightarrow> uint16 list \<Rightarrow> string" where
  "QueryTypeItem_String env typeList =
     listString ''query_type='' (map (DNSQueryTypeToString env) typeList)"

definition NewTunnelSourceItem :: "string list \<Rightarrow> RuleItem" where
  "NewTunnelSourceItem sources = TunnelSourceItem sources (boolMap sources)"

definition TunnelSourceItem_Match :: "(string \<rightharpoonup> bool) \<Rightarrow> InboundContext \<Rightarrow> bool" where
  "TunnelSourceItem_Match sourceMap md = mapGet sourceMap (md_TunnelSource md)"

definition NewTunnelDestinationItem :: "string list \<Rightarrow> RuleItem" where
  "NewTunnelDestinationItem destinations = TunnelDestinationItem destinations (boolMap destinations)"

definition TunnelDestinationItem_Match :: "(string \<rightharpoonup> bool) \<Rightarrow> InboundContext \<Rightarrow> bool" where
  "TunnelDestinationItem_Match destinationMap md = mapGet destinationMap (md_TunnelDestination md)"

text \<open>The outbound item keeps \<open>any\<close> out of its map and sets a flag for it.\<close>

definition NewOutboundRule :: "string list \<Rightarrow> RuleItem" where
  "NewOutboundRule outbounds =
     OutboundItem outbounds (boolMap (filter (\<lambda>ob. ob \<noteq> ''any'') outbounds)) (''any'' \<in> set outbounds)"

definition OutboundItem_Match :: "(string \<rightharpoonup> bool) \<Rightarrow> bool \<Rightarrow> InboundContext \<Rightarrow> bool" where
  "OutboundItem_Match outboundMap matchAny md =
     (if matchAny then md_Outbound md \<noteq> [] else mapGet outboundMap (md_Outbound md))"

definition ClashModeItem_Start :: "env \<Rightarrow> string \<Rightarrow> RuleItem" where
  "ClashModeItem_Start env mode = ClashModeItem (clashMode env \<noteq> None) mode"

definition ClashModeItem_Match :: "env \<Rightarrow> bool \<Rightarrow> string \<Rightarrow> InboundContext \<Rightarrow> bool" where
  "ClashModeItem_Match env clashServer mode md =
     (case clashMode env of
        Some m \<Rightarrow> clashServer \<and> strings_EqualFold env m mode
      | None \<Rightarrow> False)"

fun PreferredByItem_Start :: "env \<Rightarrow> string list \<Rightarrow> string list result" where
  "PreferredByItem_Start env [] = Inr []"
| "PreferredByItem_Start env (outboundTag # tags) =
     (case OutboundOf env outboundTag of
        None \<Rightarrow> Inl (ErrMsg (''outbound not found: '' @ outboundTag))
      | Some (outboundType, withRoutes) \<Rightarrow>
          if \<not> withRoutes then
            Inl (ErrMsg (''outbound type does not support preferred routes: '' @ outboundType))
          else bindR (PreferredByItem_Start env tags) (\<lambda>outbounds. Inr (outboundTag # outbounds)))"

definition PreferredByItem_Match :: "env \<Rightarrow> string list \<Rightarrow> InboundContext \<Rightarrow> bool" where
  "PreferredByItem_Match env outbounds md \<longleftrightarrow>
     (domainHost md \<noteq> [] \<and> list_ex (\<lambda>ob. PreferredDomain env ob (domainHost md)) outbounds) \<or>
     (sa_IsIP (md_Destination md) \<and>
        list_ex (\<lambda>ob. PreferredAddress env ob (sa_Addr (md_Destination md))) outbounds) \<or>
     list_ex (\<lambda>a. list_ex (\<lambda>ob. PreferredAddress env ob a) outbounds) (md_DestinationAddresses md)"

definition NetworkIsConstrainedItem_Match :: "env \<Rightarrow> bool" where
  "NetworkIsConstrainedItem_Match env =
     (case DefaultNetworkInterface env of None \<Rightarrow> False | Some i \<Rightarrow> ni_Constrained i)"

definition NetworkIsConstrainedItem_String :: string where
  "NetworkIsConstrainedItem_String = ''network_is_expensive=true''"

definition NetworkIsExpensiveItem_Match :: "env \<Rightarrow> bool" where
  "NetworkIsExpensiveItem_Match env =
     (case DefaultNetworkInterface env of None \<Rightarrow> False | Some i \<Rightarrow> ni_Expensive i)"

definition NetworkIsExpensiveItem_String :: string where
  "NetworkIsExpensiveItem_String = ''network_is_expensive=true''"

definition NetworkTypeItem_Match :: "env \<Rightarrow> InterfaceType list \<Rightarrow> bool" where
  "NetworkTypeItem_Match env networkType =
     (case DefaultNetworkInterface env of None \<Rightarrow> False | Some i \<Rightarrow> ni_Type i \<in> set networkType)"

definition NetworkTypeItem_String :: "InterfaceType list \<Rightarrow> string" where
  "NetworkTypeItem_String networkType =
     listString ''network_type='' (map InterfaceType_String networkType)"

definition NewWIFISSIDItem :: "string list \<Rightarrow> RuleItem" where
  "NewWIFISSIDItem ssidList = WIFISSIDItem ssidList (boolMap ssidList)"

definition WIFISSIDItem_Match :: "env \<Rightarrow> (string \<rightharpoonup> bool) \<Rightarrow> bool" where
  "WIFISSIDItem_Match env ssidMap = mapGet ssidMap (wifi_SSID (WIFI env))"

definition NewWIFIBSSIDItem :: "env \<Rightarrow> string list \<Rightarrow> RuleItem" where
  "NewWIFIBSSIDItem env bssidList =
     WIFIBSSIDItem bssidList (boolMap (map (NormalizeWIFIBSSID env) bssidList))"

definition WIFIBSSIDItem_Match :: "env \<Rightarrow> (string \<rightharpoonup> bool) \<Rightarrow> bool" where
  "WIFIBSSIDItem_Match env bssidMap = mapGet bssidMap (wifi_BSSID (WIFI env))"

section \<open>Interface address items\<close>

type_synonym Prefixable = "prefix option"

definition Prefixable_Build :: "Prefixable \<Rightarrow> prefix \<Rightarrow> prefix" where
  "Prefixable_Build p defaultPrefix = (case p of None \<Rightarrow> defaultPrefix | Some q \<Rightarrow> q)"

definition NewDefaultInterfaceAddressItem :: "Prefixable list \<Rightarrow> RuleItem" where
  "NewDefaultInterfaceAddressItem interfaceAddresses =
     DefaultInterfaceAddressItem (map (\<lambda>p. Prefixable_Build p prefixZero) interfaceAddresses)"

definition DefaultInterfaceAddressItem_Match :: "env \<Rightarrow> prefix list \<Rightarrow> bool" where
  "DefaultInterfaceAddressItem_Match env interfaceAddresses =
     (case DefaultInterface env of
        None \<Rightarrow> False
      | Some defaultInterface \<Rightarrow>
          list_all (\<lambda>address. \<not> list_all (\<lambda>it. \<not> prefix_Overlaps address it) (if_Addresses defaultInterface))
            interfaceAddresses)"

definition DefaultInterfaceAddressItem_String :: "prefix list \<Rightarrow> string" where
  "DefaultInterfaceAddressItem_String interfaceAddresses =
     listString3 ''default_interface_address='' ''...'' (map prefix_String interfaceAddresses)"

definition interfaceEntries ::
  "('a \<Rightarrow> string) \<Rightarrow> ('a \<times> Prefixable list) list \<Rightarrow> ('a \<times> prefix list) list \<times> string list" where
  "interfaceEntries name entries =
     foldl (\<lambda>(m, ds) (key, value).
       let prefixes = map (\<lambda>p. Prefixable_Build p prefixZero) value
       in (mapSet m key prefixes,
           ds @ [name key @ ''='' @ strings_Join (map prefix_String prefixes) '','']))
       ([], []) entries"

definition NewInterfaceAddressItem :: "(string \<times> Prefixable list) list \<Rightarrow> RuleItem" where
  "NewInterfaceAddressItem entries =
     (let (m, ds) = interfaceEntries (\<lambda>k. k) entries
      in InterfaceAddressItem m (''interface_address=['' @ strings_Join ds '' '' @ '']''))"

definition InterfaceAddressItem_Match :: "env \<Rightarrow> (string \<times> prefix list) list \<Rightarrow> bool" where
  "InterfaceAddressItem_Match env interfaceAddresses =
     list_all (\<lambda>(ifName, addresses).
       case find (\<lambda>it. if_Name it = ifName) (Interfaces env) of
         None \<Rightarrow> False
       | Some iface \<Rightarrow>
           if_Name iface \<noteq> [] \<and>
           \<not> list_all (\<lambda>address. list_all (\<lambda>it. \<not> prefix_Overlaps address it) (if_Addresses iface)) addresses)
       interfaceAddresses"

definition NewNetworkInterfaceAddressItem :: "(InterfaceType \<times> Prefixable list) list \<Rightarrow> RuleItem" where
  "NewNetworkInterfaceAddressItem entries =
     (let (m, ds) = interfaceEntries InterfaceType_String entries
      in NetworkInterfaceAddressItem m (''network_interface_address=['' @ strings_Join ds '' '' @ '']''))"

definition NetworkInterfaceAddressItem_Match :: "env \<Rightarrow> (InterfaceType \<times> prefix list) list \<Rightarrow> bool" where
  "NetworkInterfaceAddressItem_Match env interfaceAddresses =
     list_all (\<lambda>(ifType, addresses).
       list_ex (\<lambda>networkInterface.
         if_Name networkInterface \<notin> set (MyInterfaces env) \<and> ni_Type networkInterface = ifType \<and>
         list_ex (\<lambda>it. list_ex (\<lambda>p. prefix_Overlaps p it) addresses) (if_Addresses networkInterface))
         (NetworkInterfaces env))
       interfaceAddresses"

section \<open>The item interface\<close>

definition RuleItem_Match :: "env \<Rightarrow> RuleItem \<Rightarrow> InboundContext \<Rightarrow> bool" where
  "RuleItem_Match env item md =
     (case item of
        AdGuardDomainItem m \<Rightarrow> AdGuardDomainItem_Match env m md
      | AuthUserItem us m \<Rightarrow> AuthUserItem_Match m md
      | IPCIDRItem s src d \<Rightarrow> IPCIDRItem_Match env s src md
      | ClashModeItem srv m \<Rightarrow> ClashModeItem_Match env srv m md
      | ClientItem cs m \<Rightarrow> ClientItem_Match m md
      | DomainItem m d \<Rightarrow> DomainItem_Match env m md
      | DomainKeywordItem ks \<Rightarrow> DomainKeywordItem_Match env ks md
      | DomainRegexItem ms d \<Rightarrow> DomainRegexItem_Match env ms md
      | InboundItem xs m \<Rightarrow> InboundItem_Match m md
      | IPAcceptAnyItem \<Rightarrow> IPAcceptAnyItem_Match md
      | IPIsPrivateItem src \<Rightarrow> IPIsPrivateItem_Match src md
      | IPVersionItem v6 \<Rightarrow> IPVersionItem_Match v6 md
      | NetworkItem ns m \<Rightarrow> NetworkItem_Match m md
      | NetworkIsConstrainedItem \<Rightarrow> NetworkIsConstrainedItem_Match env
      | NetworkIsExpensiveItem \<Rightarrow> NetworkIsExpensiveItem_Match env
      | NetworkTypeItem ts \<Rightarrow> NetworkTypeItem_Match env ts
      | OutboundItem os m any \<Rightarrow> OutboundItem_Match m any md
      | PackageNameItem ps m \<Rightarrow> PackageNameItem_Match m md
      | PortItem ps m src \<Rightarrow> PortItem_Match m src md
      | PortRangeItem src rs l \<Rightarrow> PortRangeItem_Match src l md
      | PreferredByItem tags os \<Rightarrow> PreferredByItem_Match env os md
      | ProcessItem ps m \<Rightarrow> ProcessItem_Match m md
      | ProcessPathItem ps m \<Rightarrow> ProcessPathItem_Match env m md
      | ProcessPathRegexItem ms d \<Rightarrow> ProcessPathRegexItem_Match env ms md
      | ProtocolItem ps m \<Rightarrow> ProtocolItem_Match m md
      | QueryTypeItem ts m \<Rightarrow> QueryTypeItem_Match m md
      | TunnelDestinationItem ds m \<Rightarrow> TunnelDestinationItem_Match m md
      | TunnelSourceItem ss m \<Rightarrow> TunnelSourceItem_Match m md
      | UserItem us m \<Rightarrow> UserItem_Match m md
      | UserIdItem us m \<Rightarrow> UserIdItem_Match m md
      | WIFIBSSIDItem l m \<Rightarrow> WIFIBSSIDItem_Match env m
      | WIFISSIDItem l m \<Rightarrow> WIFISSIDItem_Match env m
      | DefaultInterfaceAddressItem l \<Rightarrow> DefaultInterfaceAddressItem_Match env l
      | InterfaceAddressItem l d \<Rightarrow> InterfaceAddressItem_Match env l
      | NetworkInterfaceAddressItem l d \<Rightarrow> NetworkInterfaceAddressItem_Match env l)"

definition RuleItem_String :: "env \<Rightarrow> RuleItem \<Rightarrow> string" where
  "RuleItem_String env item =
     (case item of
        AdGuardDomainItem m \<Rightarrow> AdGuardDomainItem_String
      | AuthUserItem us m \<Rightarrow> listString ''auth_user='' us
      | IPCIDRItem s src d \<Rightarrow> d
      | ClashModeItem srv m \<Rightarrow> ''clash_mode='' @ m
      | ClientItem cs m \<Rightarrow> listString ''client='' cs
      | DomainItem m d \<Rightarrow> d
      | DomainKeywordItem ks \<Rightarrow> DomainKeywordItem_String ks
      | DomainRegexItem ms d \<Rightarrow> d
      | InboundItem xs m \<Rightarrow> listString ''inbound='' xs
      | IPAcceptAnyItem \<Rightarrow> ''ip_accept_any=true''
      | IPIsPrivateItem src \<Rightarrow> IPIsPrivateItem_String src
      | IPVersionItem v6 \<Rightarrow> IPVersionItem_String v6
      | NetworkItem ns m \<Rightarrow> listString ''network='' ns
      | NetworkIsConstrainedItem \<Rightarrow> NetworkIsConstrainedItem_String
      | NetworkIsExpensiveItem \<Rightarrow> NetworkIsExpensiveItem_String
      | NetworkTypeItem ts \<Rightarrow> NetworkTypeItem_String ts
      | OutboundItem os m any \<Rightarrow> listString ''outbound='' os
      | PackageNameItem ps m \<Rightarrow> listString ''package_name='' ps
      | PortItem ps m src \<Rightarrow> PortItem_String ps src
      | PortRangeItem src rs l \<Rightarrow> PortRangeItem_String src rs
      | PreferredByItem tags os \<Rightarrow> listString ''preferred_by='' tags
      | ProcessItem ps m \<Rightarrow> listString ''process_name='' ps
      | ProcessPathItem ps m \<Rightarrow> listString ''process_path='' ps
      | ProcessPathRegexItem ms d \<Rightarrow> d
      | ProtocolItem ps m \<Rightarrow> listString ''protocol='' ps
      | QueryTypeItem ts m \<Rightarrow> QueryTypeItem_String env ts
      | TunnelDestinationItem ds m \<Rightarrow> listString ''tunnel_destination='' ds
      | TunnelSourceItem ss m \<Rightarrow> listString ''tunnel_source='' ss
      | UserItem us m \<Rightarrow> listString ''user='' us
      | UserIdItem us m \<Rightarrow> UserIdItem_String us
      | WIFIBSSIDItem l m \<Rightarrow> listString ''wifi_bssid='' l
      | WIFISSIDItem l m \<Rightarrow> listString ''wifi_ssid='' l
      | DefaultInterfaceAddressItem l \<Rightarrow> DefaultInterfaceAddressItem_String l
      | InterfaceAddressItem l d \<Rightarrow> d
      | NetworkInterfaceAddressItem l d \<Rightarrow> d)"

text \<open>Only the Clash mode item and the preferred-by item have a \<open>Start\<close> method.\<close>

definition RuleItem_Start :: "env \<Rightarrow> RuleItem \<Rightarrow> RuleItem result" where
  "RuleItem_Start env item =
     (case item of
        ClashModeItem srv m \<Rightarrow> Inr (ClashModeItem_Start env m)
      | PreferredByItem tags os \<Rightarrow>
          bindR (PreferredByItem_Start env tags) (\<lambda>started. Inr (PreferredByItem tags (os @ started)))
      | _ \<Rightarrow> Inr item)"

end
