(* ===== verification/Domain_Match.thy ===== *)
theory Domain_Match
  imports Succinct_Trie Rule_Items "HOL-Library.Sublist"
begin

text \<open>
  What the matchers of \<open>replace/sing/common/domain\<close> accept. The lookup of \<open>matcher.go\<close> is reduced to
  a walk on sets of strings through the locale \<open>trie_navigation\<close>, the walk to a condition on the
  keys, and the keys of \<open>NewMatcher\<close> to the documented reading of \<open>domain\<close> and \<open>domain_suffix\<close>.
\<close>

section \<open>What the lookup computes on a trie\<close>

text \<open>The search among the labels of a node: an answer, or \<open>None\<close> to go on with the child of \<open>c\<close>.\<close>

fun scanLabels :: "char \<Rightarrow> string set \<Rightarrow> char list \<Rightarrow> bool option" where
  "scanLabels c L [] = Some False"
| "scanLabels c L (l # ls) =
     (if l = prefixLabel then Some True
      else if l = rootLabel \<and> c = CHR ''.'' \<and> [] \<in> tails l L then Some True
      else if l = c then None
      else scanLabels c L ls)"

fun trieHas :: "string set \<Rightarrow> string \<Rightarrow> bool" where
  "trieHas L [] \<longleftrightarrow> [] \<in> L \<or> prefixLabel \<in> heads L \<or> rootLabel \<in> heads L"
| "trieHas L (c # key) =
     (case scanLabels c L (sorted_list_of_set (heads L)) of
        Some b \<Rightarrow> b
      | None \<Rightarrow> trieHas (tails c L) key)"

lemma scanLabels_None: "scanLabels c L ls = None \<Longrightarrow> c \<in> set ls"
  by (induction ls) (auto split: if_splits)

context trie_navigation
begin

lemma hasLabel_scan:
  assumes "node m i p L" "t \<le> card (heads L)" "card (heads L) - t < fuel"
  defines "ls \<equiv> sorted_list_of_set (heads L)"
  shows "case scanLabels c L (drop t ls) of
      Some b \<Rightarrow> hasLabel fuel m c i (p + t) = Some (Inl b)
    | None \<Rightarrow> \<exists>t'<card (heads L). ls ! t' = c \<and> hasLabel fuel m c i (p + t) = Some (Inr (p + t'))"
  using assms(2,3)
proof (induction fuel arbitrary: t)
  case (Suc fuel)
  show ?case
  proof (cases "t = card (heads L)")
    case True
    then show ?thesis using stop [OF assms(1)] by (auto simp: ls_def)
  next
    case False
    then have t: "t < card (heads L)" using Suc.prems(1) by simp
    then have drop: "drop t ls = ls ! t # drop (Suc t) ls" by (simp add: ls_def Cons_nth_drop_Suc)
    note bit = child_bit [OF assms(1) t] and label = child_label [OF assms(1) t, folded ls_def]
    obtain i' p' where i': "countZeros (labelBitmap m) (ranks m) (p + t + 1) = Some i'" "node m i' (p' + 1) (tails (ls ! t) L)"
      using child_node [OF assms(1) t] unfolding ls_def by blast
    obtain b where b: "getBit (leaves m) i' = Some b" "b \<noteq> 0 \<longleftrightarrow> [] \<in> tails (ls ! t) L" using leaf [OF i'(2)] by blast
    have IH: "case scanLabels c L (drop (Suc t) ls) of
        Some b \<Rightarrow> hasLabel fuel m c i (Suc (p + t)) = Some (Inl b)
      | None \<Rightarrow> \<exists>t'<card (heads L). ls ! t' = c \<and> hasLabel fuel m c i (Suc (p + t)) = Some (Inr (p + t'))"
      using Suc.IH [of "Suc t", unfolded add_Suc_right] Suc.prems t by simp
    show ?thesis
    proof (cases "ls ! t = prefixLabel")
      case True
      then show ?thesis using bit label drop by simp
    next
      case np: False
      show ?thesis
      proof (cases "ls ! t = rootLabel \<and> c = CHR ''.'' \<and> [] \<in> tails (ls ! t) L")
        case True
        then have "scanLabels c L (drop t ls) = Some True" by (auto simp: drop)
        moreover have "hasLabel (Suc fuel) m c i (p + t) = Some (Inl True)" using True bit label i'(1) b by auto
        ultimately show ?thesis by simp
      next
        case nr: False
        then have "hasLabel (Suc fuel) m c i (p + t) = (if ls ! t = c then Some (Inr (p + t)) else hasLabel fuel m c i (Suc (p + t)))"
          using bit label np i'(1) b by (auto simp: Let_def)
        then show ?thesis using drop np nr t IH by (auto split: option.splits)
      qed
    qed
  qed
qed simp

lemma hasTail_scan:
  assumes "node m i p L" "t \<le> card (heads L)" "card (heads L) - t < fuel"
  defines "ls \<equiv> sorted_list_of_set (heads L)"
  shows "hasTail fuel m i (p + t) = Some (prefixLabel \<in> set (drop t ls) \<or> rootLabel \<in> set (drop t ls))"
  using assms(2,3)
proof (induction fuel arbitrary: t)
  case (Suc fuel)
  show ?case
  proof (cases "t = card (heads L)")
    case True
    then show ?thesis using stop [OF assms(1)] by (auto simp: ls_def)
  next
    case False
    then have t: "t < card (heads L)" using Suc.prems(1) by simp
    then have "drop t ls = ls ! t # drop (Suc t) ls" by (simp add: ls_def Cons_nth_drop_Suc)
    moreover note child_bit [OF assms(1) t] child_label [OF assms(1) t, folded ls_def]
    moreover have "hasTail fuel m i (Suc (p + t)) = Some (prefixLabel \<in> set (drop (Suc t) ls) \<or> rootLabel \<in> set (drop (Suc t) ls))"
      using Suc.IH [of "Suc t", unfolded add_Suc_right] Suc.prems t by simp
    ultimately show ?thesis by auto
  qed
qed simp

lemma has_trieHas:
  assumes "node m i p L"
  shows "matcher_has_from m key i p = Some (trieHas L key)"
  using assms
proof (induction key arbitrary: i p L)
  case Nil
  have "finite (heads L)" by (rule finite)
  then show ?case
    using leaf [OF Nil] hasTail_scan [OF Nil, of 0 "bitmapFuel m"] fuel_enough [OF Nil] by auto
next
  case (Cons c key)
  let ?ls = "sorted_list_of_set (heads L)"
  have scan: "case scanLabels c L ?ls of
      Some b \<Rightarrow> hasLabel (bitmapFuel m) m c i p = Some (Inl b)
    | None \<Rightarrow> \<exists>t'<card (heads L). ?ls ! t' = c \<and> hasLabel (bitmapFuel m) m c i p = Some (Inr (p + t'))"
    using hasLabel_scan [OF Cons.prems, of 0 "bitmapFuel m" c, unfolded add_0_right drop_0] fuel_enough [OF Cons.prems] by simp
  show ?case
  proof (cases "scanLabels c L ?ls")
    case None
    then obtain t where t: "t < card (heads L)" "?ls ! t = c" "hasLabel (bitmapFuel m) m c i p = Some (Inr (p + t))"
      using scan by auto
    obtain i' p' where i': "countZeros (labelBitmap m) (ranks m) (p + t + 1) = Some i'"
      "selectIthOne (labelBitmap m) (ranks m) (selects m) (i' - 1) = Some p'" "node m i' (p' + 1) (tails c L)"
      using child_node [OF Cons.prems t(1)] t(2) by auto
    show ?thesis using Cons.IH [OF i'(3)] t(3) i'(1,2) None by simp
  next
    case (Some b)
    then show ?thesis using scan by simp
  qed
qed

end

section \<open>Lookups of plain names\<close>

text \<open>
  The keys of the matcher are names, names followed by the root label and names followed by the
  prefix label, all reversed. Names have no characters up to the prefix label, so both labels come
  first among the labels of a node.
\<close>

definition plain :: "string \<Rightarrow> bool" where
  "plain s \<longleftrightarrow> (\<forall>c\<in>set s. prefixLabel < c)"

definition labelled :: "string set \<Rightarrow> string set \<Rightarrow> string set \<Rightarrow> string set" where
  "labelled D R S = D \<union> (\<lambda>u. u @ [rootLabel]) ` R \<union> (\<lambda>u. u @ [prefixLabel]) ` S"

lemma label_order: "rootLabel < prefixLabel" "prefixLabel \<noteq> rootLabel" "prefixLabel < CHR ''.''"
  by (simp_all add: less_char_def)

lemma plain_simps [simp]: "plain []" "plain (c # s) \<longleftrightarrow> prefixLabel < c \<and> plain s" "plain (s @ t) \<longleftrightarrow> plain s \<and> plain t"
  by (auto simp: plain_def)

lemma plain_rev [simp]: "plain (rev s) \<longleftrightarrow> plain s"
  by (simp add: plain_def)

lemma scanLabels_sorted:
  assumes "sorted ls" "prefixLabel < c" "\<forall>l\<in>set ls. l = rootLabel \<or> prefixLabel \<le> l"
  shows "scanLabels c L ls =
    (if prefixLabel \<in> set ls \<or> rootLabel \<in> set ls \<and> c = CHR ''.'' \<and> [] \<in> tails rootLabel L then Some True
     else if c \<in> set ls then None else Some False)"
  using assms
proof (induction ls)
  case (Cons l ls)
  show ?case
  proof (cases "prefixLabel < l")
    case True
    then have "\<forall>x\<in>set (l # ls). prefixLabel < x" using Cons.prems(1) by (auto intro: less_le_trans)
    then have "prefixLabel \<notin> set (l # ls)" "rootLabel \<notin> set (l # ls)"
      using label_order(1) by (metis less_irrefl, metis order.asym)
    with True Cons label_order show ?thesis by auto
  next
    case False
    with Cons show ?thesis using label_order by auto
  qed
qed simp

lemma heads_Un: "heads (A \<union> B) = heads A \<union> heads B"
  by (auto simp: heads_def)

lemma heads_snoc: "heads ((\<lambda>u. u @ [l]) ` A) = heads A \<union> (if [] \<in> A then {l} else {})"
proof (rule set_eqI)
  fix c
  have eq: "(\<exists>w. c # w = u @ [l]) \<longleftrightarrow> (u = [] \<and> c = l) \<or> (\<exists>u'. u = c # u')" for u by (cases u) auto
  have "(\<exists>u\<in>A. \<exists>w. c # w = u @ [l]) \<longleftrightarrow> ([] \<in> A \<and> c = l) \<or> (\<exists>u'. c # u' \<in> A)"
    unfolding eq by auto
  moreover have "c \<in> heads ((\<lambda>u. u @ [l]) ` A) \<longleftrightarrow> (\<exists>u\<in>A. \<exists>w. c # w = u @ [l])"
    by (auto simp: heads_def image_iff)
  ultimately show "c \<in> heads ((\<lambda>u. u @ [l]) ` A) \<longleftrightarrow> c \<in> heads A \<union> (if [] \<in> A then {l} else {})"
    by (auto simp: heads_def)
qed

lemma labelled_sets:
  assumes "\<forall>u\<in>D \<union> R \<union> S. plain u"
  shows "[] \<in> labelled D R S \<longleftrightarrow> [] \<in> D" "rootLabel \<in> heads (labelled D R S) \<longleftrightarrow> [] \<in> R"
    and "prefixLabel \<in> heads (labelled D R S) \<longleftrightarrow> [] \<in> S" "[] \<in> R \<Longrightarrow> [] \<in> tails rootLabel (labelled D R S)"
    and "\<forall>l\<in>heads (labelled D R S). l = rootLabel \<or> prefixLabel \<le> l"
    and "prefixLabel < c \<Longrightarrow> tails c (labelled D R S) = labelled (tails c D) (tails c R) (tails c S)"
    and "prefixLabel < c \<Longrightarrow> c \<in> heads (labelled D R S) \<longleftrightarrow> tails c (labelled D R S) \<noteq> {}"
    and "\<forall>u\<in>tails c D \<union> tails c R \<union> tails c S. plain u"
proof -
  have snoc: "c # w = u @ [l] \<longleftrightarrow> (u = [] \<and> c = l \<and> w = []) \<or> (\<exists>u'. u = c # u' \<and> w = u' @ [l])" for c l :: char and u w
    by (cases u) auto
  have heads: "heads (labelled D R S) = heads D \<union> heads R \<union> heads S \<union>
      (if [] \<in> R then {rootLabel} else {}) \<union> (if [] \<in> S then {prefixLabel} else {})"
    by (auto simp: labelled_def heads_Un heads_snoc)
  have plain: "prefixLabel < c" if c: "c \<in> heads D \<union> heads R \<union> heads S" for c
  proof -
    obtain w where "c # w \<in> D \<union> R \<union> S" using c by (auto simp: heads_def)
    with assms have "plain (c # w)" by (rule bspec)
    then show ?thesis by simp
  qed
  have not: "rootLabel \<notin> heads D \<union> heads R \<union> heads S" "prefixLabel \<notin> heads D \<union> heads R \<union> heads S"
    using plain label_order(1) by (metis order.asym, metis less_irrefl)
  show "[] \<in> labelled D R S \<longleftrightarrow> [] \<in> D" by (auto simp: labelled_def)
  show "rootLabel \<in> heads (labelled D R S) \<longleftrightarrow> [] \<in> R" unfolding heads using not(1) by auto
  show "prefixLabel \<in> heads (labelled D R S) \<longleftrightarrow> [] \<in> S" unfolding heads using not(2) by auto
  show "[] \<in> tails rootLabel (labelled D R S)" if "[] \<in> R" using that by (force simp: tails_def labelled_def)
  show "\<forall>l\<in>heads (labelled D R S). l = rootLabel \<or> prefixLabel \<le> l"
    unfolding heads using plain by (auto intro: less_imp_le)
  show "tails c (labelled D R S) = labelled (tails c D) (tails c R) (tails c S)" if "prefixLabel < c"
    using that label_order(1) by (auto simp: tails_def labelled_def image_iff snoc)
  show "prefixLabel < c \<Longrightarrow> c \<in> heads (labelled D R S) \<longleftrightarrow> tails c (labelled D R S) \<noteq> {}"
    by (auto simp: heads_def tails_def)
  show "\<forall>u\<in>tails c D \<union> tails c R \<union> tails c S. plain u"
  proof
    fix u
    assume "u \<in> tails c D \<union> tails c R \<union> tails c S"
    then have "c # u \<in> D \<union> R \<union> S" by (auto simp: tails_def)
    with assms have "plain (c # u)" by (rule bspec)
    then show "plain u" by simp
  qed
qed

definition accepts :: "string set \<Rightarrow> string set \<Rightarrow> string set \<Rightarrow> string \<Rightarrow> bool" where
  "accepts D R S key \<longleftrightarrow> key \<in> D \<or> key \<in> R \<or> (\<exists>u\<in>R. \<exists>v. key = u @ CHR ''.'' # v) \<or> (\<exists>u\<in>S. \<exists>v. key = u @ v)"

lemma accepts_Nil: "accepts D R S [] \<longleftrightarrow> [] \<in> D \<or> [] \<in> R \<or> [] \<in> S"
  by (auto simp: accepts_def)

lemma accepts_Cons:
  "accepts D R S (c # key) \<longleftrightarrow> [] \<in> S \<or> c = CHR ''.'' \<and> [] \<in> R \<or> accepts (tails c D) (tails c R) (tails c S) key"
proof -
  have "c # key = u @ v \<longleftrightarrow> (u = [] \<and> v = c # key) \<or> (\<exists>u'. u = c # u' \<and> key = u' @ v)" for u v
    by (cases u) auto
  then show ?thesis by (auto simp: accepts_def tails_def) metis+
qed

lemma accepts_empty: "\<not> accepts {} {} {} key"
  by (simp add: accepts_def)

lemma trieHas_labelled:
  assumes "\<forall>u\<in>D \<union> R \<union> S. plain u" "plain key"
  shows "trieHas (labelled D R S) key \<longleftrightarrow> accepts D R S key"
  using assms
proof (induction key arbitrary: D R S)
  case Nil
  then show ?case using labelled_sets [OF Nil(1)] by (auto simp: accepts_Nil)
next
  case (Cons c key)
  let ?L = "labelled D R S"
  note ls = labelled_sets [OF Cons.prems(1)]
  have c: "prefixLabel < c" using Cons.prems(2) by simp
  have fin: "set (sorted_list_of_set (heads ?L)) = heads ?L" by (simp add: finite)
  have scan: "scanLabels c ?L (sorted_list_of_set (heads ?L)) =
      (if [] \<in> S \<or> [] \<in> R \<and> c = CHR ''.'' then Some True else if c \<in> heads ?L then None else Some False)"
    using scanLabels_sorted [OF _ c, of "sorted_list_of_set (heads ?L)" ?L] ls(2-5) fin by auto
  have IH: "trieHas (tails c ?L) key \<longleftrightarrow> accepts (tails c D) (tails c R) (tails c S) key"
    unfolding ls(6) [OF c] using Cons.IH ls(8) Cons.prems(2) by simp
  have "accepts (tails c D) (tails c R) (tails c S) key \<Longrightarrow> c \<in> heads ?L"
    using ls(6) [OF c] ls(7) [OF c] accepts_empty [of key] by (fastforce simp: labelled_def)
  then show ?case using scan IH by (auto simp: accepts_Cons)
qed

section \<open>The keys of a matcher\<close>

text \<open>The names that an entry of \<open>domain_suffix\<close> stands for, and those that a key of the trie accepts.\<close>

definition covers :: "string \<Rightarrow> string \<Rightarrow> bool" where
  "covers s q = (if hd s = CHR ''.'' then suffix s q else q = s \<or> suffix (CHR ''.'' # s) q)"

fun keyAccepts :: "string \<Rightarrow> string \<Rightarrow> bool" where
  "keyAccepts [] q = (q = [])"
| "keyAccepts (c # s) q =
     (if c = rootLabel then q = s \<or> suffix (CHR ''.'' # s) q
      else if c = prefixLabel then suffix s q else q = c # s)"

fun base :: "string \<Rightarrow> string" where
  "base [] = []"
| "base (c # s) = (if c = rootLabel \<or> c = prefixLabel then s else c # s)"

definition keyForm :: "string \<Rightarrow> bool" where
  "keyForm k \<longleftrightarrow> plain (base k)"

lemma covers_refl [simp]: "covers s s"
  by (simp add: covers_def)

lemma plain_base [simp]: "plain s \<Longrightarrow> base s = s" "plain s \<Longrightarrow> keyAccepts s q \<longleftrightarrow> q = s"
  by (cases s; use label_order in auto)+

lemma keyForm_cases:
  "keyForm k \<Longrightarrow> plain k \<or> (\<exists>s. plain s \<and> (k = rootLabel # s \<or> k = prefixLabel # s))"
  by (cases k) (auto simp: keyForm_def split: if_splits)

lemma accepts_rev:
  "accepts (rev ` D) (rev ` R) (rev ` S) (rev q) \<longleftrightarrow>
     q \<in> D \<or> q \<in> R \<or> (\<exists>s\<in>R. suffix (CHR ''.'' # s) q) \<or> (\<exists>s\<in>S. suffix s q)"
proof -
  have pre: "(\<exists>v. rev q = rev s @ v) \<longleftrightarrow> suffix s q" for s
    by (metis rev_append rev_rev_ident suffix_def)
  have dot: "(\<exists>v. rev q = rev s @ CHR ''.'' # v) \<longleftrightarrow> suffix (CHR ''.'' # s) q" for s
  proof -
    have "rev q = rev s @ CHR ''.'' # v \<longleftrightarrow> rev q = rev (CHR ''.'' # s) @ v" for v by simp
    then show ?thesis using pre [of "CHR ''.'' # s"] by simp
  qed
  have "rev q \<in> rev ` A \<longleftrightarrow> q \<in> A" for A by (auto simp: image_iff)
  then show ?thesis unfolding accepts_def by (simp add: pre dot)
qed

lemma keys_accept:
  assumes "\<forall>k\<in>K. keyForm k"
  shows "(\<exists>k\<in>K. keyAccepts k q) \<longleftrightarrow> (plain q \<and> q \<in> K) \<or> rootLabel # q \<in> K \<or>
    (\<exists>s. rootLabel # s \<in> K \<and> suffix (CHR ''.'' # s) q) \<or> (\<exists>s. prefixLabel # s \<in> K \<and> suffix s q)"
proof
  assume "\<exists>k\<in>K. keyAccepts k q"
  then obtain k where k: "k \<in> K" "keyAccepts k q" by blast
  then show "(plain q \<and> q \<in> K) \<or> rootLabel # q \<in> K \<or>
      (\<exists>s. rootLabel # s \<in> K \<and> suffix (CHR ''.'' # s) q) \<or> (\<exists>s. prefixLabel # s \<in> K \<and> suffix s q)"
    using keyForm_cases [OF bspec [OF assms k(1)]] label_order(2) by auto
next
  have r: "keyAccepts (rootLabel # s) q \<longleftrightarrow> q = s \<or> suffix (CHR ''.'' # s) q"
    "keyAccepts (prefixLabel # s) q \<longleftrightarrow> suffix s q" for s by (simp_all add: label_order)
  assume "(plain q \<and> q \<in> K) \<or> rootLabel # q \<in> K \<or>
      (\<exists>s. rootLabel # s \<in> K \<and> suffix (CHR ''.'' # s) q) \<or> (\<exists>s. prefixLabel # s \<in> K \<and> suffix s q)"
  then show "\<exists>k\<in>K. keyAccepts k q" using r plain_base(2) by blast
qed

lemma trieHas_keys:
  assumes "\<forall>k\<in>K. keyForm k" "plain q"
  shows "trieHas (rev ` K) (rev q) \<longleftrightarrow> (\<exists>k\<in>K. keyAccepts k q)"
proof -
  let ?D = "{k \<in> K. plain k}" and ?R = "{s. rootLabel # s \<in> K}" and ?S = "{s. prefixLabel # s \<in> K}"
  have "plain s" if "s \<in> ?D \<union> ?R \<union> ?S" for s
    using that assms(1) by (auto simp: keyForm_def dest!: bspec [OF assms(1), of "_ # s"])
  then have pl: "\<forall>u\<in>rev ` ?D \<union> rev ` ?R \<union> rev ` ?S. plain u"
    unfolding image_Un [symmetric] by (metis (no_types, lifting) imageE plain_rev)
  have eq: "rev ` K = labelled (rev ` ?D) (rev ` ?R) (rev ` ?S)"
  proof (intro set_eqI iffI)
    fix x
    assume "x \<in> rev ` K"
    then obtain k where k: "k \<in> K" "x = rev k" by auto
    then show "x \<in> labelled (rev ` ?D) (rev ` ?R) (rev ` ?S)"
      using keyForm_cases [OF bspec [OF assms(1) k(1)]] by (auto simp: labelled_def)
  qed (auto simp: labelled_def, (metis image_eqI rev.simps(2))+)
  have "plain (rev q)" using assms(2) by simp
  then have "trieHas (rev ` K) (rev q) \<longleftrightarrow> accepts (rev ` ?D) (rev ` ?R) (rev ` ?S) (rev q)"
    unfolding eq by (rule trieHas_labelled [OF pl])
  also have "\<dots> \<longleftrightarrow> (\<exists>k\<in>K. keyAccepts k q)"
    unfolding accepts_rev keys_accept [OF assms(1)] using assms(2) by auto
  finally show ?thesis .
qed

lemma suffixKeys_spec:
  assumes "suffixKeys gl seen d = (ks, seen')" "d \<noteq> []" "plain d" "d \<notin> set seen"
  shows "\<forall>k\<in>set ks. keyForm k" "distinct (map base ks)" "set (map base ks) \<inter> set seen = {}"
    and "set seen' = set seen \<union> {d} \<union> set (map base ks)"
    and "(\<exists>k\<in>set ks. keyAccepts k q) \<or> (\<exists>s\<in>set seen. covers s q) \<longleftrightarrow> covers d q \<or> (\<exists>s\<in>set seen. covers s q)"
    and "(\<exists>s\<in>set seen'. covers s q) \<longleftrightarrow> covers d q \<or> (\<exists>s\<in>set seen. covers s q)"
    and "set (map base ks) \<subseteq> {d, CHR ''.'' # d}"
proof -
  have p: "plain (CHR ''.'' # d)" using assms(3) label_order(3) by simp
  consider "hd d = CHR ''.''" "ks = [prefixLabel # d]" "seen' = d # seen"
    | "hd d \<noteq> CHR ''.''" "gl" "CHR ''.'' # d \<in> set (d # seen)" "ks = [d]" "seen' = d # seen"
    | "hd d \<noteq> CHR ''.''" "gl" "CHR ''.'' # d \<notin> set (d # seen)" "ks = [d, prefixLabel # CHR ''.'' # d]" "seen' = (CHR ''.'' # d) # d # seen"
    | "hd d \<noteq> CHR ''.''" "\<not> gl" "ks = [rootLabel # d]" "seen' = d # seen"
    using assms(1) by (auto simp: suffixKeys_def Let_def split: if_splits)
  note cases = this
  show "\<forall>k\<in>set ks. keyForm k" using cases by cases (use assms(3) p in \<open>auto simp: keyForm_def\<close>)
  show "distinct (map base ks)" using cases by cases (use assms(3) in auto)
  show "set (map base ks) \<inter> set seen = {}" using cases by cases (use assms(3,4) in auto)
  show "set seen' = set seen \<union> {d} \<union> set (map base ks)" using cases by cases (use assms(3) in auto)
  have dot: "covers (CHR ''.'' # d) q \<longleftrightarrow> suffix (CHR ''.'' # d) q" by (simp add: covers_def)
  show "(\<exists>k\<in>set ks. keyAccepts k q) \<or> (\<exists>s\<in>set seen. covers s q) \<longleftrightarrow> covers d q \<or> (\<exists>s\<in>set seen. covers s q)"
    using cases by cases (use assms(3) dot in \<open>auto simp: covers_def [of d]\<close>)
  show "(\<exists>s\<in>set seen'. covers s q) \<longleftrightarrow> covers d q \<or> (\<exists>s\<in>set seen. covers s q)"
    using cases by cases (use dot in \<open>auto simp: covers_def [of d]\<close>)
  show "set (map base ks) \<subseteq> {d, CHR ''.'' # d}" using cases by cases (use assms(3) in auto)
qed

text \<open>What the loop over the suffixes leaves behind, from \<open>seen\<close> before it to \<open>seen'\<close> after it.\<close>

definition suffixResult :: "string list \<Rightarrow> string list \<Rightarrow> string list \<Rightarrow> string list \<Rightarrow> bool" where
  "suffixResult seen sfx ks seen' \<longleftrightarrow>
     (\<forall>k\<in>set ks. keyForm k) \<and> distinct (map base ks) \<and> set (map base ks) \<inter> set seen = {} \<and>
     set (map base ks) \<subseteq> set seen' \<and> set (map base ks) \<subseteq> set sfx \<union> (\<lambda>d. CHR ''.'' # d) ` set sfx \<and>
     set seen \<subseteq> set seen' \<and>
     (\<forall>q. (\<exists>k\<in>set ks. keyAccepts k q) \<or> (\<exists>s\<in>set seen. covers s q) \<longleftrightarrow>
        (\<exists>s\<in>set sfx. covers s q) \<or> (\<exists>s\<in>set seen. covers s q)) \<and>
     (\<forall>q. (\<exists>s\<in>set seen'. covers s q) \<longleftrightarrow> (\<exists>s\<in>set sfx. covers s q) \<or> (\<exists>s\<in>set seen. covers s q))"

lemma suffixResult_Nil: "suffixResult seen [] [] seen"
  by (simp add: suffixResult_def)

lemma suffixResult_skip:
  assumes "d \<in> set seen" "suffixResult seen sfx ks seen'"
  shows "suffixResult seen (d # sfx) ks seen'"
proof -
  have "(\<exists>s\<in>set (d # sfx). covers s q) \<or> (\<exists>s\<in>set seen. covers s q) \<longleftrightarrow>
      (\<exists>s\<in>set sfx. covers s q) \<or> (\<exists>s\<in>set seen. covers s q)" for q
    using assms(1) by auto
  moreover have "set (map base ks) \<subseteq> set (d # sfx) \<union> (\<lambda>d. CHR ''.'' # d) ` set (d # sfx)"
    using assms(2) unfolding suffixResult_def by auto
  ultimately show ?thesis using assms(2) unfolding suffixResult_def by presburger
qed

lemma suffixResult_add:
  assumes "suffixKeys gl seen d = (ks1, seen1)" "d \<noteq> []" "plain d" "d \<notin> set seen"
    and "suffixResult seen1 sfx ks2 seen2"
  shows "suffixResult seen (d # sfx) (ks1 @ ks2) seen2"
proof -
  note sk = suffixKeys_spec [OF assms(1-4)]
  have r: "\<forall>k\<in>set ks2. keyForm k" "distinct (map base ks2)" "set (map base ks2) \<inter> set seen1 = {}"
    "set (map base ks2) \<subseteq> set seen2" "set (map base ks2) \<subseteq> set sfx \<union> (\<lambda>d. CHR ''.'' # d) ` set sfx" "set seen1 \<subseteq> set seen2"
    "\<And>q. (\<exists>k\<in>set ks2. keyAccepts k q) \<or> (\<exists>s\<in>set seen1. covers s q) \<longleftrightarrow>
        (\<exists>s\<in>set sfx. covers s q) \<or> (\<exists>s\<in>set seen1. covers s q)"
    "\<And>q. (\<exists>s\<in>set seen2. covers s q) \<longleftrightarrow> (\<exists>s\<in>set sfx. covers s q) \<or> (\<exists>s\<in>set seen1. covers s q)"
    using assms(5) unfolding suffixResult_def by blast+
  have "\<forall>k\<in>set (ks1 @ ks2). keyForm k" using sk(1) r(1) by auto
  moreover have "distinct (map base (ks1 @ ks2))" using sk(2,4) r(2,3) by auto
  moreover have "set (map base (ks1 @ ks2)) \<inter> set seen = {}" using sk(3,4) r(3) by auto
  moreover have "set (map base (ks1 @ ks2)) \<subseteq> set seen2" "set seen \<subseteq> set seen2" using sk(4) r(4,6) by auto
  moreover have "set (map base (ks1 @ ks2)) \<subseteq> set (d # sfx) \<union> (\<lambda>d. CHR ''.'' # d) ` set (d # sfx)"
    using sk(7) r(5) by auto
  moreover have "(\<exists>k\<in>set (ks1 @ ks2). keyAccepts k q) \<or> (\<exists>s\<in>set seen. covers s q) \<longleftrightarrow>
      (\<exists>s\<in>set (d # sfx). covers s q) \<or> (\<exists>s\<in>set seen. covers s q)" for q
    using sk(5,6) [of q] r(7) [of q] unfolding set_append bex_Un list.set bex_simps by argo
  moreover have "(\<exists>s\<in>set seen2. covers s q) \<longleftrightarrow> (\<exists>s\<in>set (d # sfx). covers s q) \<or> (\<exists>s\<in>set seen. covers s q)" for q
    using sk(6) [of q] r(8) [of q] unfolding list.set bex_simps by argo
  ultimately show ?thesis unfolding suffixResult_def by blast
qed

lemma suffixLoop_spec:
  "\<forall>d\<in>set sfx. d \<noteq> [] \<and> plain d \<Longrightarrow> \<exists>ks seen'. suffixLoop gl seen sfx = Some (ks, seen') \<and> suffixResult seen sfx ks seen'"
proof (induction sfx arbitrary: seen)
  case Nil
  show ?case by (simp add: suffixResult_Nil)
next
  case (Cons d sfx)
  show ?case
  proof (cases "d \<in> set seen")
    case True
    then show ?thesis using Cons.IH [of seen] Cons.prems suffixResult_skip by fastforce
  next
    case False
    obtain ks1 seen1 where s1: "suffixKeys gl seen d = (ks1, seen1)" by (cases "suffixKeys gl seen d")
    obtain ks2 seen2 where s2: "suffixLoop gl seen1 sfx = Some (ks2, seen2)" "suffixResult seen1 sfx ks2 seen2"
      using Cons.IH [of seen1] Cons.prems by auto
    then show ?thesis using Cons.prems False s1 suffixResult_add [OF s1 _ _ False s2(2)] by auto
  qed
qed

lemma domainLoop_spec: "set (domainLoop seen ds) = set ds - set seen" "distinct (domainLoop seen ds)"
  by (induction seen ds rule: domainLoop.induct) auto

definition ascii :: "string \<Rightarrow> bool" where
  "ascii s \<longleftrightarrow> (\<forall>c\<in>set s. of_char c < (128 :: nat))"

lemma EncodeRune_ascii:
  assumes "of_char c < (128 :: nat)"
  shows "EncodeRune (of_char c) = [c]"
proof -
  have "(of_char c :: rune) = of_nat (of_char c)" by (simp add: of_nat_of_char)
  moreover have "unat (of_nat (of_char c) :: rune) = of_char c" using assms by (simp add: unat_of_nat)
  ultimately have u: "unat (of_char c :: rune) = of_char c" by simp
  then have "(of_char c :: rune) \<le> 0x7F" using assms by (simp add: word_le_nat_alt)
  moreover have "uint (of_char c :: rune) = of_char c"
    using u by (metis of_nat_of_char of_nat_unat)
  ultimately show ?thesis by (simp add: EncodeRune_def byteChar_def)
qed

lemma reverseLoop_ascii: "ascii s \<Longrightarrow> reverseLoop s acc = Some (rev s @ acc)"
proof (induction s arbitrary: acc)
  case (Cons c s)
  then have c: "of_char c < (128 :: nat)" by (simp add: ascii_def)
  have "DecodeRune (c # s) = (of_char c, 1)"
    using c by (simp add: DecodeRune_def runeWidth_def inRange_def Let_def)
  with Cons EncodeRune_ascii [OF c] show ?case by (subst reverseLoop.simps) (simp add: ascii_def)
qed (simp add: reverseLoop.simps)

lemma reverseDomain_ascii: "ascii s \<Longrightarrow> reverseDomain s = Some (rev s)"
  by (simp add: reverseDomain_def reverseLoop_ascii)

lemma mapOption_Some: "(\<And>x. x \<in> set xs \<Longrightarrow> f x = Some (g x)) \<Longrightarrow> mapOption f xs = Some (map g xs)"
  by (induction xs) auto

text \<open>Names as they occur in rules and connections: printable ASCII.\<close>

definition hostName :: "string \<Rightarrow> bool" where
  "hostName s \<longleftrightarrow> plain s \<and> ascii s"

lemma ascii_base: "ascii k \<longleftrightarrow> ascii (base k)"
  by (cases k) (auto simp: ascii_def)

lemma matcher_of_keys:
  assumes "\<forall>k\<in>set keys. keyForm k \<and> ascii k" "distinct keys" "keys \<noteq> []"
  shows "\<exists>m. Option.bind (mapOption reverseDomain keys) (\<lambda>l. newSuccinctSet (sort l)) = Some m \<and>
    (\<forall>q. hostName q \<longrightarrow> Matcher_Match m q = Some (\<exists>k\<in>set keys. keyAccepts k q))"
proof -
  have "mapOption reverseDomain keys = Some (map rev keys)"
    using assms(1) by (intro mapOption_Some) (simp add: reverseDomain_ascii)
  moreover have "sort (map rev keys) \<noteq> []" using assms(3) by (metis length_0_conv length_map length_sort)
  then have "keysOK (sort (map rev keys))" using assms(2) by (simp add: keysOK_def distinct_map inj_on_def)
  ultimately obtain m where m: "Option.bind (mapOption reverseDomain keys) (\<lambda>l. newSuccinctSet (sort l)) = Some m"
    "trieNode m 0 0 (rev ` set keys)" using trieNode_root [of "sort (map rev keys)"] by auto
  have "Matcher_Match m q = Some (\<exists>k\<in>set keys. keyAccepts k q)" if "hostName q" for q
    using that st.has_trieHas [OF m(2), of "rev q"] trieHas_keys [of "set keys" q] assms(1)
    by (simp add: Matcher_Match_def matcher_has_def hostName_def reverseDomain_ascii)
  with m(1) show ?thesis by blast
qed

text \<open>
  How the keys of a matcher look: a suffix with a leading dot has the prefix label, other suffixes
  have the root label, and domains have none.
\<close>

definition keyShape :: "string \<Rightarrow> bool" where
  "keyShape k \<longleftrightarrow> k \<noteq> [] \<and>
     (if hd k = prefixLabel then tl k \<noteq> [] \<and> hd (tl k) = CHR ''.''
      else if hd k = rootLabel then tl k \<noteq> [] \<and> hd (tl k) \<noteq> CHR ''.''
      else hd k \<noteq> CHR ''.'')"

lemma suffixKeys_shape:
  assumes "suffixKeys gl seen d = (ks, seen')" "plain d" "d \<noteq> []" "k \<in> set ks"
  shows "keyShape k"
proof -
  have "hd d \<noteq> prefixLabel" "hd d \<noteq> rootLabel" using assms(2,3) by (cases d; use label_order in auto)+
  then show ?thesis
    using assms label_order by (auto simp: suffixKeys_def keyShape_def Let_def split: if_splits)
qed

lemma suffixLoop_shape:
  "\<forall>d\<in>set sfx. plain d \<Longrightarrow> suffixLoop gl seen sfx = Some (ks, seen') \<Longrightarrow> k \<in> set ks \<Longrightarrow> keyShape k"
proof (induction sfx arbitrary: seen ks)
  case (Cons d sfx)
  show ?case
  proof (cases "d \<in> set seen")
    case False
    obtain ks1 seen1 where s: "suffixKeys gl seen d = (ks1, seen1)" by (cases "suffixKeys gl seen d")
    with Cons.prems(2) False obtain ks2 where ks: "suffixLoop gl seen1 sfx = Some (ks2, seen')" "ks = ks1 @ ks2" "d \<noteq> []"
      by (auto split: if_splits)
    show ?thesis
      using suffixKeys_shape [OF s _ ks(3)] Cons.IH [OF _ ks(1)] Cons.prems(1,3) ks(2) by auto
  qed (use Cons in auto)
qed simp

definition dumpable :: "string list \<Rightarrow> bool" where
  "dumpable domains \<longleftrightarrow> (\<forall>d\<in>set domains. d \<noteq> [] \<and> hd d \<noteq> CHR ''.'')"

lemma matcher_keys:
  assumes "\<forall>d\<in>set domains. hostName d" "\<forall>d\<in>set domainSuffix. hostName d \<and> d \<noteq> []"
    and "domains \<noteq> [] \<or> domainSuffix \<noteq> []"
  obtains keys where
    "NewMatcher domains domainSuffix generateLegacy =
       Option.bind (mapOption reverseDomain keys) (\<lambda>l. newSuccinctSet (sort l))"
    "\<forall>k\<in>set keys. keyForm k \<and> ascii k" "distinct keys" "keys \<noteq> []"
    "\<forall>q. (\<exists>k\<in>set keys. keyAccepts k q) \<longleftrightarrow> q \<in> set domains \<or> (\<exists>s\<in>set domainSuffix. covers s q)"
    "dumpable domains \<longrightarrow> (\<forall>k\<in>set keys. keyShape k)"
proof -
  obtain ks seen where sl: "suffixLoop generateLegacy [] domainSuffix = Some (ks, seen)" "\<forall>k\<in>set ks. keyForm k"
    "distinct (map base ks)" "set (map base ks) \<subseteq> set seen"
    "set (map base ks) \<subseteq> set domainSuffix \<union> (\<lambda>d. CHR ''.'' # d) ` set domainSuffix"
    "\<And>q. (\<exists>k\<in>set ks. keyAccepts k q) \<longleftrightarrow> (\<exists>s\<in>set domainSuffix. covers s q)"
    "\<And>q. (\<exists>s\<in>set seen. covers s q) \<longleftrightarrow> (\<exists>s\<in>set domainSuffix. covers s q)"
    using suffixLoop_spec [of domainSuffix generateLegacy "[]"] assms(2)
    by (auto simp: hostName_def suffixResult_def)
  define dl where "dl = domainLoop seen domains"
  have dl: "set dl = set domains - set seen" "distinct dl" "\<forall>d\<in>set dl. plain d \<and> ascii d"
    using domainLoop_spec [of seen domains] assms(1) by (auto simp: dl_def hostName_def)
  have ascii: "ascii k" if "k \<in> set ks" for k
  proof -
    have "base k \<in> set domainSuffix \<union> (\<lambda>d. CHR ''.'' # d) ` set domainSuffix" using sl(5) that by auto
    then show ?thesis using assms(2) ascii_base [of k] by (auto simp: hostName_def ascii_def)
  qed
  have covered: "\<exists>s\<in>set domainSuffix. covers s q" if "q \<in> set seen" for q
    using that sl(7) [of q] covers_refl by blast
  have form: "\<forall>k\<in>set (ks @ dl). keyForm k \<and> ascii k"
    using sl(2) dl(3) ascii by (auto simp: keyForm_def)
  have "map base dl = dl" using dl(3) by (intro map_idI) simp
  then have "distinct (map base (ks @ dl))" using sl(3,4) dl(1,2) by auto
  then have dist: "distinct (ks @ dl)" using distinct_map by blast
  have ne: "ks @ dl \<noteq> []"
  proof
    assume empty: "ks @ dl = []"
    then have none: "\<not> (\<exists>s\<in>set domainSuffix. covers s q)" for q using sl(6) [of q] by simp
    then have "domainSuffix = []" using covers_refl by (metis list.set_intros(1) neq_Nil_conv)
    moreover have "set domains \<subseteq> set seen" using dl(1) empty by auto
    ultimately show False using assms(3) covered none by (metis list.set_intros(1) neq_Nil_conv subsetD)
  qed
  have acc: "(\<exists>k\<in>set (ks @ dl). keyAccepts k q) \<longleftrightarrow> q \<in> set domains \<or> (\<exists>s\<in>set domainSuffix. covers s q)" for q
  proof -
    have "(\<exists>k\<in>set dl. keyAccepts k q) \<longleftrightarrow> q \<in> set dl" using dl(3) by auto
    then show ?thesis using sl(6) [of q] dl(1) covered [of q] by auto
  qed
  have new: "NewMatcher domains domainSuffix generateLegacy =
      Option.bind (mapOption reverseDomain (ks @ dl)) (\<lambda>l. newSuccinctSet (sort l))"
    by (simp add: NewMatcher_def sl(1) dl_def)
  have shape: "\<forall>k\<in>set (ks @ dl). keyShape k" if "dumpable domains"
  proof
    fix k
    assume "k \<in> set (ks @ dl)"
    then consider "k \<in> set ks" | "k \<in> set dl" by auto
    then show "keyShape k"
    proof cases
      case 1
      then show ?thesis using suffixLoop_shape [OF _ sl(1)] assms(2) by (simp add: hostName_def)
    next
      case 2
      then have "plain k" "k \<noteq> []" "hd k \<noteq> CHR ''.''" using dl(1,3) that by (auto simp: dumpable_def)
      then show ?thesis by (cases k; use label_order in \<open>auto simp: keyShape_def\<close>)
    qed
  qed
  show thesis using new form dist ne acc shape by (intro that) blast+
qed

lemma matcher_correct:
  assumes "\<forall>d\<in>set domains. hostName d" "\<forall>d\<in>set domainSuffix. hostName d \<and> d \<noteq> []"
    and "domains \<noteq> [] \<or> domainSuffix \<noteq> []"
  shows "\<exists>m. NewMatcher domains domainSuffix generateLegacy = Some m \<and> (\<forall>q. hostName q \<longrightarrow>
    Matcher_Match m q = Some (q \<in> set domains \<or> (\<exists>s\<in>set domainSuffix. covers s q)))"
proof -
  obtain keys where k: "NewMatcher domains domainSuffix generateLegacy =
       Option.bind (mapOption reverseDomain keys) (\<lambda>l. newSuccinctSet (sort l))"
    "\<forall>k\<in>set keys. keyForm k \<and> ascii k" "distinct keys" "keys \<noteq> []"
    "\<forall>q. (\<exists>k\<in>set keys. keyAccepts k q) \<longleftrightarrow> q \<in> set domains \<or> (\<exists>s\<in>set domainSuffix. covers s q)"
    "dumpable domains \<longrightarrow> (\<forall>k\<in>set keys. keyShape k)"
    using matcher_keys [OF assms, of generateLegacy] .
  show ?thesis using matcher_of_keys [OF k(2-4)] unfolding k(1) k(5) [rule_format] .
qed

section \<open>AdGuard rules\<close>

text \<open>Without wildcard labels in the trie the AdGuard lookup walks as the domain lookup does.\<close>

definition wild :: "char \<Rightarrow> bool" where
  "wild c \<longleftrightarrow> c = anyLabel \<or> c = suffixLabel"

definition tame :: "string set \<Rightarrow> bool" where
  "tame L \<longleftrightarrow> (\<forall>w\<in>L. \<forall>c\<in>set w. \<not> wild c)"

lemma tame_tails: "tame L \<Longrightarrow> tame (tails c L)"
  by (auto simp: tame_def tails_def)

lemma tame_heads: "tame L \<Longrightarrow> c \<in> heads L \<Longrightarrow> \<not> wild c"
  by (fastforce simp: tame_def heads_def)

context trie_navigation
begin

lemma adguardLabel_tame:
  assumes "node m i p L" "tame L" "t \<le> card (heads L)" "card (heads L) - t < fuel"
  shows "adguardLabel fuel rec m (c # key) i (p + t) = hasLabel fuel m c i (p + t)"
  using assms(3,4)
proof (induction fuel arbitrary: t)
  case (Suc fuel)
  let ?ls = "sorted_list_of_set (heads L)"
  show ?case
  proof (cases "t = card (heads L)")
    case True
    then show ?thesis using stop [OF assms(1)] by auto
  next
    case False
    then have t: "t < card (heads L)" using Suc.prems(1) by simp
    have "?ls ! t \<in> heads L"
      using t nth_mem [of t ?ls] by (simp add: finite)
    then have "\<not> wild (?ls ! t)" using tame_heads [OF assms(2)] by blast
    moreover have "adguardLabel fuel rec m (c # key) i (Suc (p + t)) = hasLabel fuel m c i (Suc (p + t))"
      using Suc.IH [of "Suc t", unfolded add_Suc_right] Suc.prems t by simp
    ultimately show ?thesis
      using child_bit [OF assms(1) t] child_label [OF assms(1) t] by (simp add: wild_def Let_def cong: if_cong)
  qed
qed simp

lemma adguardTail_tame:
  assumes "node m i p L" "tame L" "t \<le> card (heads L)" "card (heads L) - t < fuel"
  shows "adguardTail fuel rec m i (p + t) = hasTail fuel m i (p + t)"
  using assms(3,4)
proof (induction fuel arbitrary: t)
  case (Suc fuel)
  let ?ls = "sorted_list_of_set (heads L)"
  show ?case
  proof (cases "t = card (heads L)")
    case True
    then show ?thesis using stop [OF assms(1)] by auto
  next
    case False
    then have t: "t < card (heads L)" using Suc.prems(1) by simp
    have "?ls ! t \<in> heads L"
      using t nth_mem [of t ?ls] by (simp add: finite)
    then have "\<not> wild (?ls ! t)" using tame_heads [OF assms(2)] by blast
    moreover have "adguardTail fuel rec m i (Suc (p + t)) = hasTail fuel m i (Suc (p + t))"
      using Suc.IH [of "Suc t", unfolded add_Suc_right] Suc.prems t by simp
    ultimately show ?thesis
      using child_bit [OF assms(1) t] child_label [OF assms(1) t] by (simp add: wild_def)
  qed
qed simp

lemma adguardFrom_tame:
  assumes "node m i p L" "tame L"
  shows "adguardFrom rec m key i p = Some (trieHas L key)"
  using assms
proof (induction key arbitrary: i p L)
  case Nil
  then show ?case
    using adguardTail_tame [OF Nil, of 0 "bitmapFuel m"] has_trieHas [OF Nil(1), of "[]"] fuel_enough [OF Nil(1)]
    by (simp cong: if_cong)
next
  case (Cons c key)
  let ?ls = "sorted_list_of_set (heads L)"
  have eq: "adguardLabel (bitmapFuel m) rec m (c # key) i p = hasLabel (bitmapFuel m) m c i p"
    using adguardLabel_tame [OF Cons.prems, of 0 "bitmapFuel m"] fuel_enough [OF Cons.prems(1)] by simp
  have scan: "case scanLabels c L ?ls of
      Some b \<Rightarrow> hasLabel (bitmapFuel m) m c i p = Some (Inl b)
    | None \<Rightarrow> \<exists>t'<card (heads L). ?ls ! t' = c \<and> hasLabel (bitmapFuel m) m c i p = Some (Inr (p + t'))"
    using hasLabel_scan [OF Cons.prems(1), of 0 "bitmapFuel m" c, unfolded add_0_right drop_0]
      fuel_enough [OF Cons.prems(1)] by simp
  show ?case
  proof (cases "scanLabels c L ?ls")
    case None
    then obtain t where t: "t < card (heads L)" "?ls ! t = c" "hasLabel (bitmapFuel m) m c i p = Some (Inr (p + t))"
      using scan by auto
    obtain i' p' where i': "countZeros (labelBitmap m) (ranks m) (p + t + 1) = Some i'"
      "selectIthOne (labelBitmap m) (ranks m) (selects m) (i' - 1) = Some p'" "node m i' (p' + 1) (tails c L)"
      using child_node [OF Cons.prems(1) t(1)] t(2) by auto
    then have "childNode m (p + t) = Some (i', p' + 1)" by (simp add: childNode_def)
    then show ?thesis using Cons.IH [OF i'(3) tame_tails [OF Cons.prems(2)]] t(3) None eq by simp
  next
    case (Some b)
    then show ?thesis using scan eq by simp
  qed
qed

lemma adguard_has_tame: "node m 0 0 L \<Longrightarrow> tame L \<Longrightarrow> adguard_has m key = Some (trieHas L key)"
  by (simp add: adguard_has_def adguardFrom_tame eval_nat_numeral)

lemma adguardLoop_tame:
  assumes "node m 0 0 L" "tame L" "\<And>k. \<not> trieHas L (suffixLabel # k)" "length key < rounds"
  shows "adguardMatchLoop rounds m key = Some False"
  using assms(4)
proof (induction rounds arbitrary: key)
  case (Suc rounds)
  show ?case
  proof (cases "strings_Index key (CHR ''.'')")
    case None
    then show ?thesis using assms(3) [of key] adguard_has_tame [OF assms(1,2)] by simp
  next
    case (Some idx)
    then have "idx < length key" by (simp add: strings_Index_Some)
    then have "length (drop (idx + 1) key) < rounds" using Suc.prems by simp
    then show ?thesis using Some Suc.IH [of "drop (idx + 1) key"] assms(3) [of key] adguard_has_tame [OF assms(1,2)] by simp
  qed
qed simp

end

text \<open>
  The rules that end in \<open>^\<close> and have no wildcard: \<open>||name^\<close> stands for a name and its subdomains,
  \<open>|name^\<close> for the name alone and \<open>name^\<close> for all names that end in it.
\<close>

datatype adguardAnchor = SubdomainAnchor | StartAnchor | NoAnchor

fun ruleLine :: "adguardAnchor \<times> string \<Rightarrow> string" where
  "ruleLine (SubdomainAnchor, d) = ''||'' @ d @ ''^''"
| "ruleLine (StartAnchor, d) = ''|'' @ d @ ''^''"
| "ruleLine (NoAnchor, d) = d @ ''^''"

fun ruleCovers :: "adguardAnchor \<times> string \<Rightarrow> string \<Rightarrow> bool" where
  "ruleCovers (SubdomainAnchor, d) q \<longleftrightarrow> q = d \<or> suffix (CHR ''.'' # d) q"
| "ruleCovers (StartAnchor, d) q \<longleftrightarrow> q = d"
| "ruleCovers (NoAnchor, d) q \<longleftrightarrow> suffix d q"

fun ruleKey :: "adguardAnchor \<times> string \<Rightarrow> string" where
  "ruleKey (SubdomainAnchor, d) = rootLabel # d"
| "ruleKey (StartAnchor, d) = d"
| "ruleKey (NoAnchor, d) = prefixLabel # d"

definition adguardName :: "string \<Rightarrow> bool" where
  "adguardName d \<longleftrightarrow> d \<noteq> [] \<and> hostName d \<and> CHR ''*'' \<notin> set d \<and> CHR ''|'' \<notin> set d"

lemma hasSuffix_caret: "hasSuffix (s @ ''^'') ''^''"
  by (simp add: hasSuffix_def)

lemma adguardKey_ruleLine: "adguardName (snd r) \<Longrightarrow> adguardKey (ruleLine r) = ruleKey r"
proof (induction r rule: ruleKey.induct)
  case (1 d)
  then show ?case using hasSuffix_caret [of d] by (simp add: adguardKey_def Let_def butlast_append)
next
  case (2 d)
  then show ?case using hasSuffix_caret [of d]
    by (cases d) (auto simp: adguardKey_def Let_def butlast_append adguardName_def)
next
  case (3 d)
  then show ?case using hasSuffix_caret [of d]
    by (cases d) (auto simp: adguardKey_def Let_def butlast_append adguardName_def)
qed

lemma ruleKey_facts:
  assumes "adguardName (snd r)"
  shows "keyForm (ruleKey r)" "ascii (ruleKey r)" "keyAccepts (ruleKey r) q \<longleftrightarrow> ruleCovers r q"
    and "c \<in> set (ruleKey r) \<Longrightarrow> \<not> wild c"
proof -
  have d: "plain (snd r)" "ascii (snd r)" "CHR ''*'' \<notin> set (snd r)" using assms by (simp_all add: adguardName_def hostName_def)
  have sl: "\<not> prefixLabel < suffixLabel" by (simp add: less_char_def)
  show "keyForm (ruleKey r)" using d by (induction r rule: ruleKey.induct) (simp_all add: keyForm_def)
  show "ascii (ruleKey r)" using d by (induction r rule: ruleKey.induct) (simp_all add: ascii_def)
  show "keyAccepts (ruleKey r) q \<longleftrightarrow> ruleCovers r q"
    using d label_order by (induction r rule: ruleKey.induct) auto
  show "\<not> wild c" if "c \<in> set (ruleKey r)"
    using that d sl by (induction r rule: ruleKey.induct) (auto simp: wild_def plain_def)
qed

lemma common_Uniq_spec: "set (common_Uniq seen xs) = set xs - set seen" "distinct (common_Uniq seen xs)"
  by (induction seen xs rule: common_Uniq.induct) auto

lemma trieHas_suffixLabel:
  assumes "\<And>c. c \<in> heads L \<Longrightarrow> prefixLabel < c"
  shows "\<not> trieHas L (suffixLabel # k)"
proof -
  have miss: "scanLabels suffixLabel L ls = Some False" if "\<forall>c\<in>set ls. prefixLabel < c" for ls
    using that by (induction ls) (auto simp: less_char_def)
  have "finite (heads L)" by (rule finite)
  then show ?thesis using miss [of "sorted_list_of_set (heads L)"] assms by simp
qed

lemma ruleKey_last:
  assumes "adguardName (snd r)" "rev (ruleKey r) = c # w"
  shows "prefixLabel < c"
proof -
  have "ruleKey r = rev w @ [c]" using assms(2) by (metis rev.simps(2) rev_swap)
  then have "c = last (ruleKey r)" by simp
  also have "last (ruleKey r) = last (snd r)" using assms(1) by (induction r rule: ruleKey.induct) (simp_all add: adguardName_def)
  finally show ?thesis using assms(1) last_in_set [of "snd r"] by (auto simp: adguardName_def hostName_def plain_def)
qed

lemma adguard_correct:
  assumes "\<forall>r\<in>set rules. adguardName (snd r)" "rules \<noteq> []"
  shows "\<exists>m. NewAdGuardMatcher (map ruleLine rules) = Some m \<and>
    (\<forall>q. hostName q \<longrightarrow> AdGuardMatcher_Match m q = Some (\<exists>r\<in>set rules. ruleCovers r q))"
proof -
  let ?K = "ruleKey ` set rules"
  have "reverseDomain (adguardKey (ruleLine r)) = Some (rev (ruleKey r))" if "r \<in> set rules" for r
    using assms(1) that by (simp add: adguardKey_ruleLine reverseDomain_ascii ruleKey_facts(2))
  then have keys: "mapOption (\<lambda>l. reverseDomain (adguardKey l)) (map ruleLine rules) = Some (map (rev \<circ> ruleKey) rules)"
    by (induction rules) auto
  define l where "l = sort (common_Uniq [] (map (rev \<circ> ruleKey) rules))"
  have l: "set l = rev ` ?K" "distinct l" using common_Uniq_spec [of "[]" "map (rev \<circ> ruleKey) rules"] by (auto simp: l_def)
  then have "l \<noteq> []" using assms(2) by auto
  then have "keysOK l" using l(2) by (simp add: keysOK_def l_def)
  then obtain m where m: "newSuccinctSet l = Some m" "trieNode m 0 0 (rev ` ?K)" using trieNode_root l(1) by metis
  have tame: "tame (rev ` ?K)" using assms(1) ruleKey_facts(4) by (fastforce simp: tame_def)
  have form: "\<forall>k\<in>?K. keyForm k" using assms(1) ruleKey_facts(1) by blast
  have has: "adguard_has m (rev q) = Some (\<exists>r\<in>set rules. ruleCovers r q)" if "hostName q" for q
    using st.adguard_has_tame [OF m(2) tame] trieHas_keys [OF form] that assms(1) ruleKey_facts(3)
    by (simp add: hostName_def)
  have none: "\<not> trieHas (rev ` ?K) (suffixLabel # k)" for k
  proof (rule trieHas_suffixLabel)
    fix c
    assume "c \<in> heads (rev ` ?K)"
    then obtain w where "c # w \<in> rev ` ?K" unfolding heads_def by blast
    then obtain k where k: "c # w = rev k" "k \<in> ?K" by (rule imageE)
    from k(2) obtain r where "k = ruleKey r" "r \<in> set rules" by (rule imageE)
    then show "prefixLabel < c" using ruleKey_last [OF _ k(1) [symmetric, unfolded \<open>k = ruleKey r\<close>]] assms(1) by blast
  qed
  have "AdGuardMatcher_Match m q = Some (\<exists>r\<in>set rules. ruleCovers r q)" if "hostName q" for q
    using has [OF that] st.adguardLoop_tame [OF m(2) tame none, of "rev q" "length q + 1"] that
    by (simp add: AdGuardMatcher_Match_def hostName_def reverseDomain_ascii split: bool.split)
  then show ?thesis using m(1) keys by (simp add: NewAdGuardMatcher_def l_def)
qed

section \<open>Properties\<close>

text \<open>
  C11. A matcher can be built from every list of domains and suffixes of printable ASCII names, and it
  accepts a name if and only if the name is one of the domains or is covered by one of the suffixes:
  a suffix with a leading dot covers the names that end in it, and any other suffix covers itself and
  its subdomains. No lookup runs past the bitmaps of the trie.
\<close>

theorem domain_matcher_exact:
  assumes "\<forall>d\<in>set domains. hostName d" "\<forall>d\<in>set domainSuffix. hostName d \<and> d \<noteq> []"
    and "domains \<noteq> [] \<or> domainSuffix \<noteq> []"
  shows "\<exists>m. NewMatcher domains domainSuffix generateLegacy = Some m \<and> (\<forall>q. hostName q \<longrightarrow>
    Matcher_Match m q = Some (q \<in> set domains \<or>
      (\<exists>s\<in>set domainSuffix. if hd s = CHR ''.'' then suffix s q else q = s \<or> suffix (CHR ''.'' # s) q)))"
  using matcher_correct [OF assms] by (simp add: covers_def)

theorem domain_matcher_exact_witness:
  "\<exists>m. NewMatcher [''a.b''] [''.d'', ''c''] False = Some m \<and> Matcher_Match m ''x.c'' = Some True \<and>
     Matcher_Match m ''c'' = Some True \<and> Matcher_Match m ''xc'' = Some False \<and>
     Matcher_Match m ''d'' = Some False \<and> Matcher_Match m ''x.d'' = Some True"
proof -
  have "hostName ''a.b''" "hostName ''.d''" "hostName ''c''" and q: "hostName ''x.c''" "hostName ''xc''" "hostName ''d''" "hostName ''x.d''"
    by (simp_all add: hostName_def ascii_def less_char_def)
  then obtain m where "NewMatcher [''a.b''] [''.d'', ''c''] False = Some m" and
    m: "\<And>q. hostName q \<Longrightarrow> Matcher_Match m q = Some (q \<in> set [''a.b''] \<or>
      (\<exists>s\<in>set [''.d'', ''c'']. if hd s = CHR ''.'' then suffix s q else q = s \<or> suffix (CHR ''.'' # s) q))"
    using domain_matcher_exact [of "[''a.b'']" "[''.d'', ''c'']" False] by auto
  then show ?thesis using q \<open>hostName ''c''\<close> by (intro exI [of _ m]) (simp add: m suffix_def)
qed

text \<open>
  C12. The AdGuard rules that end in the separator and contain no wildcard accept what the filter
  syntax says: \<open>||name^\<close> the name and its subdomains, \<open>|name^\<close> the name only, \<open>name^\<close> every name that
  ends in it. Building the matcher and looking up a name always succeed.
\<close>

theorem adguard_rules_exact:
  assumes "\<forall>r\<in>set rules. adguardName (snd r)" "rules \<noteq> []"
  shows "\<exists>m. NewAdGuardMatcher (map ruleLine rules) = Some m \<and>
    (\<forall>q. hostName q \<longrightarrow> AdGuardMatcher_Match m q = Some (\<exists>r\<in>set rules. ruleCovers r q))"
  using adguard_correct [OF assms] .

theorem adguard_rules_exact_witness:
  "\<exists>m. NewAdGuardMatcher [''||a.b^'', ''|c^'', ''d^''] = Some m \<and> AdGuardMatcher_Match m ''x.a.b'' = Some True \<and>
     AdGuardMatcher_Match m ''x.c'' = Some False \<and> AdGuardMatcher_Match m ''xd'' = Some True"
proof -
  let ?rules = "[(SubdomainAnchor, ''a.b''), (StartAnchor, ''c''), (NoAnchor, ''d'')]"
  have "\<forall>r\<in>set ?rules. adguardName (snd r)" by (simp add: adguardName_def hostName_def ascii_def less_char_def)
  then obtain m where "NewAdGuardMatcher (map ruleLine ?rules) = Some m"
    "\<And>q. hostName q \<Longrightarrow> AdGuardMatcher_Match m q = Some (\<exists>r\<in>set ?rules. ruleCovers r q)"
    using adguard_rules_exact [of ?rules] by blast
  moreover have "hostName ''x.a.b''" "hostName ''x.c''" "hostName ''xd''" by (simp_all add: hostName_def ascii_def less_char_def)
  ultimately show ?thesis by (intro exI [of _ m]) (simp add: suffix_def)
qed

lemma lowerChar_bounds: "prefixLabel < c \<Longrightarrow> of_char c < (128 :: nat) \<Longrightarrow> prefixLabel < lowerChar c \<and> of_char (lowerChar c) < (128 :: nat)"
  by (auto simp: lowerChar_def less_char_def)

lemma hostName_lower: "hostName s \<Longrightarrow> hostName (map lowerChar s)"
  using lowerChar_bounds by (auto simp: hostName_def plain_def ascii_def)

text \<open>
  C13. A domain item built from lower case names matches a connection exactly when its host, read
  without regard to case, is one of the domains or is covered by one of the suffixes; the host is the
  sniffed or queried domain and otherwise the name of the destination, and a connection without one
  never matches.
\<close>

theorem domain_item_exact:
  assumes "\<forall>d\<in>set domains \<union> set domainSuffixes. hostName d \<and> d \<noteq> []" "domains \<noteq> [] \<or> domainSuffixes \<noteq> []"
  shows "\<exists>item. NewDomainItem domains domainSuffixes = Inr item \<and>
    (\<forall>env md. hostName (domainHost md) \<longrightarrow> (RuleItem_Match env item md \<longleftrightarrow> domainHost md \<noteq> [] \<and>
      (let host = map lowerChar (domainHost md) in
       host \<in> set domains \<or> (\<exists>s\<in>set domainSuffixes. covers s host))))"
proof -
  have ne: "[] \<notin> set domains" "[] \<notin> set domainSuffixes" using assms(1) by auto
  obtain m where m: "NewMatcher domains domainSuffixes False = Some m" "\<And>q. hostName q \<Longrightarrow>
      Matcher_Match m q = Some (q \<in> set domains \<or> (\<exists>s\<in>set domainSuffixes. covers s q))"
    using matcher_correct [of domains domainSuffixes False] assms by blast
  have "RuleItem_Match env (DomainItem m d) md \<longleftrightarrow> domainHost md \<noteq> [] \<and>
      (let host = map lowerChar (domainHost md) in host \<in> set domains \<or> (\<exists>s\<in>set domainSuffixes. covers s host))"
    if "hostName (domainHost md)" for env md d
  proof -
    have "isASCII (domainHost md)" using that by (simp add: hostName_def ascii_def isASCII_def list_all_iff)
    then show ?thesis using m(2) [OF hostName_lower [OF that]]
      by (simp add: RuleItem_Match_def DomainItem_Match_def strings_ToLower_def Let_def)
  qed
  with m(1) ne show ?thesis by (simp add: NewDomainItem_def)
qed

theorem domain_item_exact_witness:
  "\<exists>item. NewDomainItem [''a.b''] [''c''] = Inr item \<and>
    (\<forall>env md. md_Domain md = ''X.C'' \<longrightarrow> RuleItem_Match env item md) \<and>
    (\<forall>env md. md_Domain md = ''b'' \<longrightarrow> \<not> RuleItem_Match env item md)"
proof -
  have "hostName ''a.b''" "hostName ''c''" and q: "hostName ''X.C''" "hostName ''b''"
    by (simp_all add: hostName_def ascii_def less_char_def)
  then obtain item where item: "NewDomainItem [''a.b''] [''c''] = Inr item"
    "\<And>env md. hostName (domainHost md) \<Longrightarrow> RuleItem_Match env item md \<longleftrightarrow> domainHost md \<noteq> [] \<and>
      (let host = map lowerChar (domainHost md) in host \<in> set [''a.b''] \<or> (\<exists>s\<in>set [''c'']. covers s host))"
    using domain_item_exact [of "[''a.b'']" "[''c'']"] by auto
  have low: "map lowerChar ''X.C'' = ''x.c''" "map lowerChar ''b'' = ''b''" by code_simp+
  have "RuleItem_Match env item md" if "md_Domain md = ''X.C''" for env md
    using item(2) [of md env] that q(1) by (simp add: domainHost_def covers_def suffix_def low del: list.map)
  moreover have "\<not> RuleItem_Match env item md" if "md_Domain md = ''b''" for env md
    using item(2) [of md env] that q(2) by (simp add: domainHost_def covers_def suffix_def low del: list.map)
  ultimately show ?thesis using item(1) by blast
qed

end
