(* ===== verification/Rule_Engine.thy ===== *)
theory Rule_Engine
  imports Match_State Rule_Items
begin

text \<open>
  The matching core of the rules: \<open>route/rule/rule_abstract.go\<close>, the dispatch of
  \<open>match_state.go\<close>, the rule-set item and the matching of rule-sets. Route rules, DNS rules and
  headless rules embed one of the two abstract rules and inherit their matching, so one datatype
  \<open>rule\<close> stands for all of them; a rule-set is the snapshot of the rules it holds. A matcher takes the
  metadata and a base state and returns the states and the metadata it leaves behind, in which the
  code records the definitive states.
\<close>

section \<open>Data\<close>

text \<open>
  \<open>allItems\<close> lists the items in the order they were added, \<open>Inr ()\<close> being the rule-set item of the
  rule. The rule-set item and the action are fields of the rule itself.
\<close>

record abstractDefaultRule =
  items :: "RuleItem list"
  sourceAddressItems :: "RuleItem list"
  sourcePortItems :: "RuleItem list"
  destinationAddressItems :: "RuleItem list"
  destinationIPCIDRItems :: "RuleItem list"
  destinationPortItems :: "RuleItem list"
  allItems :: "(RuleItem + unit) list"
  invert :: bool

record RuleSetMetadata =
  ContainsProcessRule :: bool
  ContainsWIFIRule :: bool
  ContainsIPCIDRRule :: bool

datatype 'a rule =
    DefaultRule abstractDefaultRule "'a RuleSetItem option" "'a option"
  | LogicalRule "'a rule list" string bool "'a option"
and 'a RuleSetItem = RuleSetItem "string list" "'a RuleSet list" bool bool
and 'a RuleSet = RuleSet string RuleSetMetadata "'a rule list"

abbreviation (input) LogicalTypeAnd :: string where "LogicalTypeAnd \<equiv> ''and''"
abbreviation (input) LogicalTypeOr :: string where "LogicalTypeOr \<equiv> ''or''"

fun rule_Action :: "'a rule \<Rightarrow> 'a option" where
  "rule_Action (DefaultRule r item action) = action"
| "rule_Action (LogicalRule rules mode inverted action) = action"

fun rule_Type :: "'a rule \<Rightarrow> string" where
  "rule_Type (DefaultRule r item action) = ''default''"
| "rule_Type (LogicalRule rules mode inverted action) = ''logical''"

fun ruleSet_Metadata :: "'a RuleSet \<Rightarrow> RuleSetMetadata" where
  "ruleSet_Metadata (RuleSet tag metadata rules) = metadata"

section \<open>Default rules\<close>

type_synonym matcher =
  "InboundContext \<Rightarrow> ruleMatchState \<Rightarrow> ruleMatchStateSet \<times> InboundContext"

definition matchAnyItem :: "env \<Rightarrow> RuleItem list \<Rightarrow> InboundContext \<Rightarrow> bool" where
  "matchAnyItem env its md = list_ex (\<lambda>it. RuleItem_Match env it md) its"

definition destinationIPCIDRMatchesSource :: "abstractDefaultRule \<Rightarrow> InboundContext \<Rightarrow> bool" where
  "destinationIPCIDRMatchesSource r md \<longleftrightarrow>
     md_IPCIDRMatchSource md \<and> destinationIPCIDRItems r \<noteq> []"

definition destinationIPCIDRMatchesDestination :: "abstractDefaultRule \<Rightarrow> InboundContext \<Rightarrow> bool" where
  "destinationIPCIDRMatchesDestination r md \<longleftrightarrow>
     \<not> md_IgnoreDestinationIPCIDRMatch md \<and> \<not> md_IPCIDRMatchSource md \<and> destinationIPCIDRItems r \<noteq> []"

definition requiresSourceAddressMatch :: "abstractDefaultRule \<Rightarrow> InboundContext \<Rightarrow> bool" where
  "requiresSourceAddressMatch r md \<longleftrightarrow>
     sourceAddressItems r \<noteq> [] \<or> destinationIPCIDRMatchesSource r md"

definition requiresDestinationAddressMatch :: "abstractDefaultRule \<Rightarrow> InboundContext \<Rightarrow> bool" where
  "requiresDestinationAddressMatch r md \<longleftrightarrow>
     destinationAddressItems r \<noteq> [] \<or> destinationIPCIDRMatchesDestination r md"

definition invertedFailure ::
  "abstractDefaultRule \<Rightarrow> InboundContext \<Rightarrow> ruleMatchState \<Rightarrow> ruleMatchStateSet \<times> InboundContext" where
  "invertedFailure r md base =
     (if invert r then
        let stateSet = withBase emptyRuleMatchState base
        in (stateSet, md\<lparr>md_DefinitiveMatchStates := stateSet\<rparr>)
      else (0, md\<lparr>md_DefinitiveMatchStates := 0\<rparr>))"

text \<open>The state a default rule starts from: the groups whose items match, on top of the base.\<close>

definition defaultBaseState :: "env \<Rightarrow> abstractDefaultRule \<Rightarrow> InboundContext \<Rightarrow> ruleMatchState \<Rightarrow> ruleMatchState" where
  "defaultBaseState env r md evaluationBase =
     (let b0 = evaluationBase;
          b1 = (if sourceAddressItems r \<noteq> [] \<and> matchAnyItem env (sourceAddressItems r) md
                then b0 OR ruleMatchSourceAddress else b0);
          b2 = (if destinationIPCIDRMatchesSource r md \<and> \<not> has b1 ruleMatchSourceAddress \<and>
                   matchAnyItem env (destinationIPCIDRItems r) md
                then b1 OR ruleMatchSourceAddress else b1);
          b3 = (if sourcePortItems r \<noteq> [] \<and> matchAnyItem env (sourcePortItems r) md
                then b2 OR ruleMatchSourcePort else b2);
          b4 = (if destinationAddressItems r \<noteq> [] \<and> matchAnyItem env (destinationAddressItems r) md
                then b3 OR ruleMatchDestinationAddress else b3);
          b5 = (if destinationIPCIDRMatchesDestination r md \<and> \<not> has b4 ruleMatchDestinationAddress \<and>
                   matchAnyItem env (destinationIPCIDRItems r) md
                then b4 OR ruleMatchDestinationAddress else b4);
          b6 = (if destinationPortItems r \<noteq> [] \<and> matchAnyItem env (destinationPortItems r) md
                then b5 OR ruleMatchDestinationPort else b5)
      in b6)"

definition deferredGroups :: "abstractDefaultRule \<Rightarrow> InboundContext \<Rightarrow> ruleMatchState" where
  "deferredGroups r md =
     (if md_IgnoreDestinationIPCIDRMatch md \<and> \<not> md_IPCIDRMatchSource md \<and>
         destinationIPCIDRItems r \<noteq> [] \<and> destinationAddressItems r = []
      then ruleMatchDestinationAddress else 0)"

definition stateFilter :: "abstractDefaultRule \<Rightarrow> InboundContext \<Rightarrow> ruleMatchState \<Rightarrow> bool" where
  "stateFilter r md state =
     (if requiresSourceAddressMatch r md \<and> \<not> has state ruleMatchSourceAddress then False
      else if sourcePortItems r \<noteq> [] \<and> \<not> has state ruleMatchSourcePort then False
      else if requiresDestinationAddressMatch r md \<and> \<not> has state ruleMatchDestinationAddress then False
      else if destinationPortItems r \<noteq> [] \<and> \<not> has state ruleMatchDestinationPort then False
      else True)"

text \<open>\<open>abstractDefaultRule.matchStatesWithBase\<close>; \<open>ruleSet\<close> is the matcher of the rule-set item, if any.\<close>

definition abstractDefaultRule_matchStatesWithBase ::
  "env \<Rightarrow> abstractDefaultRule \<Rightarrow> matcher option \<Rightarrow> matcher" where
  "abstractDefaultRule_matchStatesWithBase env r ruleSet md inheritedBase =
     (if allItems r = [] then
        let stateSet = withBase emptyRuleMatchState inheritedBase
        in (stateSet, md\<lparr>md_DefinitiveMatchStates := stateSet\<rparr>)
      else
        let evaluationBase = (if invert r then 0 else inheritedBase);
            baseState = defaultBaseState env r md evaluationBase;
            deferred = deferredGroups r md
        in if \<not> list_all (\<lambda>item. RuleItem_Match env item md) (items r) then
             invertedFailure r md inheritedBase
           else
             let (stateSet0, definitive0, md1) =
                   (case ruleSet of
                      Some m \<Rightarrow>
                        (let (s, md') = m md baseState in (s, md_DefinitiveMatchStates md', md'))
                    | None \<Rightarrow> (singleRuleMatchState baseState, singleRuleMatchState baseState, md));
                 definitive1 =
                   (if deferred \<noteq> 0 then filterStates definitive0 (\<lambda>state. deferred AND NOT state = 0)
                    else definitive0);
                 stateSet = filterStates stateSet0 (stateFilter r md1);
                 definitiveStateSet = filterStates definitive1 (stateFilter r md1)
             in if isEmpty stateSet then invertedFailure r md1 inheritedBase
                else if invert r then
                  (if isEmpty definitiveStateSet then withBase emptyRuleMatchState inheritedBase else 0,
                   md1\<lparr>md_DefinitiveMatchStates := 0\<rparr>)
                else (stateSet, md1\<lparr>md_DefinitiveMatchStates := definitiveStateSet\<rparr>))"

section \<open>Alternatives and logical rules\<close>

text \<open>
  The loop shared by the rule-set item, the rule-sets and the \<open>or\<close> mode of logical rules: every
  matcher runs on a fresh copy of the metadata and the states are merged.
\<close>

definition mergeMatchers ::
  "matcher list \<Rightarrow> InboundContext \<Rightarrow> ruleMatchState \<Rightarrow> ruleMatchStateSet \<times> ruleMatchStateSet" where
  "mergeMatchers ms nestedMetadata base =
     foldl (\<lambda>(stateSet, definitiveStateSet) m.
       let (s, md') = m nestedMetadata base
       in (merge stateSet s, merge definitiveStateSet (md_DefinitiveMatchStates md')))
       (0, 0) ms"

definition RuleSetItem_matchStatesWithBase :: "matcher list \<Rightarrow> bool \<Rightarrow> bool \<Rightarrow> matcher" where
  "RuleSetItem_matchStatesWithBase setList ipCidrMatchSource ipCidrAcceptEmpty md base =
     (let nestedMetadata =
            (ResetRuleMatchCache md)\<lparr>md_IPCIDRMatchSource := ipCidrMatchSource,
                                     md_IPCIDRAcceptEmpty := ipCidrAcceptEmpty\<rparr>;
          (stateSet, definitiveStateSet) = mergeMatchers setList nestedMetadata base
      in (stateSet, md\<lparr>md_DefinitiveMatchStates := definitiveStateSet\<rparr>))"

definition RuleSet_matchStatesWithBase :: "matcher list \<Rightarrow> matcher" where
  "RuleSet_matchStatesWithBase rules md base =
     (let (stateSet, definitiveStateSet) = mergeMatchers rules (ResetRuleMatchCache md) base
      in (stateSet, md\<lparr>md_DefinitiveMatchStates := definitiveStateSet\<rparr>))"

text \<open>The \<open>and\<close> loop; \<open>None\<close> when a rule has no state, where the code returns at once.\<close>

fun andMatchers ::
  "matcher list \<Rightarrow> InboundContext \<Rightarrow> ruleMatchState \<Rightarrow> ruleMatchStateSet \<times> ruleMatchStateSet \<Rightarrow>
   (ruleMatchStateSet \<times> ruleMatchStateSet) option" where
  "andMatchers [] nestedMetadata base acc = Some acc"
| "andMatchers (m # ms) nestedMetadata base (stateSet, definitiveStateSet) =
     (let (s, md') = m nestedMetadata base
      in if isEmpty s then None
         else andMatchers ms nestedMetadata base
           (combine stateSet s, combine definitiveStateSet (md_DefinitiveMatchStates md')))"

definition logicalFailure :: "bool \<Rightarrow> matcher" where
  "logicalFailure inverted md base =
     (if inverted then
        let invertedStateSet = withBase emptyRuleMatchState base
        in (invertedStateSet, md\<lparr>md_DefinitiveMatchStates := invertedStateSet\<rparr>)
      else (0, md\<lparr>md_DefinitiveMatchStates := 0\<rparr>))"

definition logicalSuccess :: "bool \<Rightarrow> ruleMatchStateSet \<Rightarrow> ruleMatchStateSet \<Rightarrow> matcher" where
  "logicalSuccess inverted stateSet definitiveStateSet md base =
     (if inverted then
        (if isEmpty definitiveStateSet then withBase emptyRuleMatchState base else 0,
         md\<lparr>md_DefinitiveMatchStates := 0\<rparr>)
      else (stateSet, md\<lparr>md_DefinitiveMatchStates := definitiveStateSet\<rparr>))"

definition abstractLogicalRule_matchStatesWithBase :: "matcher list \<Rightarrow> string \<Rightarrow> bool \<Rightarrow> matcher" where
  "abstractLogicalRule_matchStatesWithBase rules mode inverted md base =
     (let evaluationBase = (if inverted then 0 else base);
          nestedMetadata = ResetRuleCache md
      in if mode = LogicalTypeAnd then
           (let start = withBase emptyRuleMatchState evaluationBase
            in case andMatchers rules nestedMetadata evaluationBase (start, start) of
                 None \<Rightarrow> logicalFailure inverted md base
               | Some (stateSet, definitiveStateSet) \<Rightarrow>
                   logicalSuccess inverted stateSet definitiveStateSet md base)
         else
           (let (stateSet, definitiveStateSet) = mergeMatchers rules nestedMetadata evaluationBase
            in if isEmpty stateSet then logicalFailure inverted md base
               else logicalSuccess inverted stateSet definitiveStateSet md base))"

section \<open>Rules\<close>

text \<open>
  The dispatch of \<open>matchHeadlessRuleStatesWithBase\<close> and \<open>matchRuleItemStatesWithBase\<close>: every rule,
  rule-set and rule-set item implements \<open>matchStatesWithBase\<close>, so the first branch is the one taken.
\<close>

fun matchStatesWithBase :: "env \<Rightarrow> 'a rule \<Rightarrow> matcher"
and ruleSetItem_matchStatesWithBase :: "env \<Rightarrow> 'a RuleSetItem \<Rightarrow> matcher"
and ruleSet_matchStatesWithBase :: "env \<Rightarrow> 'a RuleSet \<Rightarrow> matcher" where
  "matchStatesWithBase env (DefaultRule r None action) md base =
     abstractDefaultRule_matchStatesWithBase env r None md base"
| "matchStatesWithBase env (DefaultRule r (Some item) action) md base =
     abstractDefaultRule_matchStatesWithBase env r
       (Some (\<lambda>m b. ruleSetItem_matchStatesWithBase env item m b)) md base"
| "matchStatesWithBase env (LogicalRule rules mode inverted action) md base =
     abstractLogicalRule_matchStatesWithBase (map (\<lambda>r m b. matchStatesWithBase env r m b) rules)
       mode inverted md base"
| "ruleSetItem_matchStatesWithBase env (RuleSetItem tagList setList ms ae) md base =
     RuleSetItem_matchStatesWithBase (map (\<lambda>s m b. ruleSet_matchStatesWithBase env s m b) setList)
       ms ae md base"
| "ruleSet_matchStatesWithBase env (RuleSet tag metadata rules) md base =
     RuleSet_matchStatesWithBase (map (\<lambda>r m b. matchStatesWithBase env r m b) rules) md base"

definition matchStates :: "env \<Rightarrow> 'a rule \<Rightarrow> InboundContext \<Rightarrow> ruleMatchStateSet \<times> InboundContext" where
  "matchStates env r md = matchStatesWithBase env r md 0"

definition rule_Match :: "env \<Rightarrow> 'a rule \<Rightarrow> InboundContext \<Rightarrow> bool" where
  "rule_Match env r md \<longleftrightarrow> \<not> isEmpty (fst (matchStates env r md))"

definition RuleSetItem_Match :: "env \<Rightarrow> 'a RuleSetItem \<Rightarrow> InboundContext \<Rightarrow> bool" where
  "RuleSetItem_Match env item md \<longleftrightarrow> \<not> isEmpty (fst (ruleSetItem_matchStatesWithBase env item md 0))"

definition RuleSet_Match :: "env \<Rightarrow> 'a RuleSet \<Rightarrow> InboundContext \<Rightarrow> bool" where
  "RuleSet_Match env s md \<longleftrightarrow> \<not> isEmpty (fst (ruleSet_matchStatesWithBase env s md 0))"

end
