(* ===== verification/Rule_Semantics.thy ===== *)
theory Rule_Semantics
  imports Rule_Engine
begin

text \<open>
  What the matching core computes. Items do not read the rule cache; the groups a default rule
  matches and requires are sets; a locale states the contract every state matcher of the engine
  keeps, proved for all rules; on top of it the boolean reading of default rules, logical rules,
  inversion and merged rule-sets.
\<close>

section \<open>Items read only their part of the metadata\<close>

lemmas item_match_defs = RuleItem_Match_def AdGuardDomainItem_Match_def AuthUserItem_Match_def
  IPCIDRItem_Match_def ClashModeItem_Match_def ClientItem_Match_def DomainItem_Match_def
  DomainKeywordItem_Match_def DomainRegexItem_Match_def InboundItem_Match_def
  IPAcceptAnyItem_Match_def IPIsPrivateItem_Match_def IPVersionItem_Match_def NetworkItem_Match_def
  OutboundItem_Match_def PackageNameItem_Match_def PortItem_Match_def PortRangeItem_Match_def
  PreferredByItem_Match_def ProcessItem_Match_def ProcessPathItem_Match_def
  ProcessPathRegexItem_Match_def ProtocolItem_Match_def QueryTypeItem_Match_def
  TunnelDestinationItem_Match_def TunnelSourceItem_Match_def UserItem_Match_def
  UserIdItem_Match_def domainHost_def

text \<open>The rule cache of the metadata is no input of an item, except the two flags of the CIDR item.\<close>

lemma RuleItem_Match_cache [simp]:
  "RuleItem_Match env it (md\<lparr>md_DefinitiveMatchStates := d\<rparr>) = RuleItem_Match env it md"
  "RuleItem_Match env it (ResetRuleMatchCache md) = RuleItem_Match env it md"
  "RuleItem_Match env it (md\<lparr>md_IgnoreDestinationIPCIDRMatch := i\<rparr>) = RuleItem_Match env it md"
  by (cases it; simp add: item_match_defs ResetRuleMatchCache_def)+

lemma matchAnyItem_cache [simp]:
  "matchAnyItem env its (md\<lparr>md_DefinitiveMatchStates := d\<rparr>) = matchAnyItem env its md"
  "matchAnyItem env its (ResetRuleMatchCache md) = matchAnyItem env its md"
  "matchAnyItem env its (md\<lparr>md_IgnoreDestinationIPCIDRMatch := i\<rparr>) = matchAnyItem env its md"
  by (simp_all add: matchAnyItem_def)

lemma ResetRuleMatchCache_flags [simp]:
  "md_IPCIDRMatchSource (ResetRuleMatchCache md) = md_IPCIDRMatchSource md"
  "md_IPCIDRAcceptEmpty (ResetRuleMatchCache md) = md_IPCIDRAcceptEmpty md"
  "md_IgnoreDestinationIPCIDRMatch (ResetRuleMatchCache md) = md_IgnoreDestinationIPCIDRMatch md"
  "md_IPCIDRMatchSource (ResetRuleCache md) = False"
  "md_IPCIDRAcceptEmpty (ResetRuleCache md) = False"
  "md_IgnoreDestinationIPCIDRMatch (ResetRuleCache md) = md_IgnoreDestinationIPCIDRMatch md"
  by (simp_all add: ResetRuleMatchCache_def ResetRuleCache_def)

section \<open>Groups of a default rule\<close>

definition matchedGroups :: "env \<Rightarrow> abstractDefaultRule \<Rightarrow> InboundContext \<Rightarrow> group set" where
  "matchedGroups env r md =
     {g. case g of
           SourceAddress \<Rightarrow> matchAnyItem env (sourceAddressItems r) md \<or>
             destinationIPCIDRMatchesSource r md \<and> matchAnyItem env (destinationIPCIDRItems r) md
         | SourcePort \<Rightarrow> matchAnyItem env (sourcePortItems r) md
         | DestinationAddress \<Rightarrow> matchAnyItem env (destinationAddressItems r) md \<or>
             destinationIPCIDRMatchesDestination r md \<and> matchAnyItem env (destinationIPCIDRItems r) md
         | DestinationPort \<Rightarrow> matchAnyItem env (destinationPortItems r) md}"

definition requiredGroups :: "abstractDefaultRule \<Rightarrow> InboundContext \<Rightarrow> group set" where
  "requiredGroups r md =
     {g. case g of
           SourceAddress \<Rightarrow> requiresSourceAddressMatch r md
         | SourcePort \<Rightarrow> sourcePortItems r \<noteq> []
         | DestinationAddress \<Rightarrow> requiresDestinationAddressMatch r md
         | DestinationPort \<Rightarrow> destinationPortItems r \<noteq> []}"

lemma matchAnyItem_Nil [simp]: "\<not> matchAnyItem env [] md"
  by (simp add: matchAnyItem_def)

lemma validState_if_OR: "validState b \<Longrightarrow> validState m \<Longrightarrow> validState (if P then b OR m else b)"
  by (simp add: validState_OR)

lemma groups_if_OR: "groups (if P then b OR m else b) = groups b \<union> (if P then groups m else {})"
  by (simp add: groups_OR)

lemma valid_defaultBaseState: "validState b \<Longrightarrow> validState (defaultBaseState env r md b)"
  unfolding defaultBaseState_def Let_def by (intro validState_if_OR validState_masks)

lemma groups_defaultBaseState:
  "groups (defaultBaseState env r md b) = groups b \<union> matchedGroups env r md"
proof -
  let ?any = "\<lambda>its. matchAnyItem env its md"
  define b1 where "b1 = (if sourceAddressItems r \<noteq> [] \<and> ?any (sourceAddressItems r)
    then b OR ruleMatchSourceAddress else b)"
  define b2 where "b2 = (if destinationIPCIDRMatchesSource r md \<and> \<not> has b1 ruleMatchSourceAddress \<and>
      ?any (destinationIPCIDRItems r) then b1 OR ruleMatchSourceAddress else b1)"
  define b3 where "b3 = (if sourcePortItems r \<noteq> [] \<and> ?any (sourcePortItems r)
    then b2 OR ruleMatchSourcePort else b2)"
  define b4 where "b4 = (if destinationAddressItems r \<noteq> [] \<and> ?any (destinationAddressItems r)
    then b3 OR ruleMatchDestinationAddress else b3)"
  define b5 where "b5 = (if destinationIPCIDRMatchesDestination r md \<and>
      \<not> has b4 ruleMatchDestinationAddress \<and> ?any (destinationIPCIDRItems r)
    then b4 OR ruleMatchDestinationAddress else b4)"
  define b6 where "b6 = (if destinationPortItems r \<noteq> [] \<and> ?any (destinationPortItems r)
    then b5 OR ruleMatchDestinationPort else b5)"
  have b2: "groups b2 = groups b \<union> (if SourceAddress \<in> matchedGroups env r md then {SourceAddress} else {})"
    unfolding b2_def b1_def groups_if_OR by (auto simp: matchedGroups_def groups_OR)
  have b3: "groups b3 = groups b2 \<union> (if SourcePort \<in> matchedGroups env r md then {SourcePort} else {})"
    unfolding b3_def groups_if_OR by (auto simp: matchedGroups_def)
  have b5: "groups b5 = groups b3 \<union>
      (if DestinationAddress \<in> matchedGroups env r md then {DestinationAddress} else {})"
    unfolding b5_def b4_def groups_if_OR by (auto simp: matchedGroups_def groups_OR)
  have b6: "groups b6 = groups b5 \<union>
      (if DestinationPort \<in> matchedGroups env r md then {DestinationPort} else {})"
    unfolding b6_def groups_if_OR by (auto simp: matchedGroups_def)
  have "defaultBaseState env r md b = b6"
    unfolding defaultBaseState_def Let_def b6_def b5_def b4_def b3_def b2_def b1_def ..
  moreover have "X = (if SourceAddress \<in> X then {SourceAddress} else {}) \<union>
      (if SourcePort \<in> X then {SourcePort} else {}) \<union>
      (if DestinationAddress \<in> X then {DestinationAddress} else {}) \<union>
      (if DestinationPort \<in> X then {DestinationPort} else {})" for X
    by (rule set_eqI, rename_tac g, case_tac g) simp_all
  ultimately show ?thesis using b2 b3 b5 b6 by (metis Un_assoc)
qed

lemma stateFilter_iff: "stateFilter r md s \<longleftrightarrow> requiredGroups r md \<subseteq> groups s"
  unfolding stateFilter_def has_masks requiredGroups_def by (auto split: group.splits)

lemma states_stateFilter [simp]:
  "states (filterStates s (stateFilter r md)) = {A \<in> states s. requiredGroups r md \<subseteq> A}"
  by (rule states_filterStates) (simp add: stateFilter_iff)

lemma cond_cache [simp]:
  "destinationIPCIDRMatchesSource r (md\<lparr>md_DefinitiveMatchStates := d\<rparr>) = destinationIPCIDRMatchesSource r md"
  "destinationIPCIDRMatchesDestination r (md\<lparr>md_DefinitiveMatchStates := d\<rparr>) = destinationIPCIDRMatchesDestination r md"
  "requiredGroups r (md\<lparr>md_DefinitiveMatchStates := d\<rparr>) = requiredGroups r md"
  "matchedGroups env r (md\<lparr>md_DefinitiveMatchStates := d\<rparr>) = matchedGroups env r md"
  "deferredGroups r (md\<lparr>md_DefinitiveMatchStates := d\<rparr>) = deferredGroups r md"
  by (simp_all add: requiredGroups_def matchedGroups_def requiresSourceAddressMatch_def deferredGroups_def
      requiresDestinationAddressMatch_def destinationIPCIDRMatchesSource_def
      destinationIPCIDRMatchesDestination_def cong: group.case_cong)

lemma cond_reset [simp]:
  "requiredGroups r (ResetRuleMatchCache md) = requiredGroups r md"
  "matchedGroups env r (ResetRuleMatchCache md) = matchedGroups env r md"
  by (simp_all add: requiredGroups_def matchedGroups_def requiresSourceAddressMatch_def
      requiresDestinationAddressMatch_def destinationIPCIDRMatchesSource_def
      destinationIPCIDRMatchesDestination_def cong: group.case_cong)

section \<open>The contract of state matchers\<close>

abbreviation definitive :: "InboundContext \<Rightarrow> ruleMatchStateSet" where
  "definitive md \<equiv> md_DefinitiveMatchStates md"

text \<open>
  A matcher leaves the metadata alone except for the definitive states, does not read the ones it
  is given, keeps the base in every state it returns, and reports only states it returns as
  definitive; outside of DNS pre-lookup it reports all of them.
\<close>

locale state_matcher =
  fixes m :: matcher
  assumes frame: "snd (m md b) = md\<lparr>md_DefinitiveMatchStates := definitive (snd (m md b))\<rparr>"
    and cache: "m (md\<lparr>md_DefinitiveMatchStates := d\<rparr>) b = m md b"
    and base_le: "validState b \<Longrightarrow> A \<in> states (fst (m md b)) \<Longrightarrow> groups b \<subseteq> A"
    and definitive_le: "validState b \<Longrightarrow> states (definitive (snd (m md b))) \<subseteq> states (fst (m md b))"
    and definitive_all: "validState b \<Longrightarrow> \<not> md_IgnoreDestinationIPCIDRMatch md \<Longrightarrow>
      definitive (snd (m md b)) = fst (m md b)"
begin

lemma empty_definitive: "validState b \<Longrightarrow> states (fst (m md b)) = {} \<Longrightarrow> definitive (snd (m md b)) = 0"
  using definitive_le [of b md] states_inject [of _ 0] by (metis states_0 subset_empty)

lemma result_eq: "m md b = (fst (m md b), md\<lparr>md_DefinitiveMatchStates := definitive (snd (m md b))\<rparr>)"
  using frame by (metis prod.collapse)

end

lemma withBase_empty [simp]: "validState b \<Longrightarrow> states (withBase emptyRuleMatchState b) = {groups b}"
  by simp

lemma deferred_filter:
  "states (if deferredGroups r md \<noteq> 0
     then filterStates s (\<lambda>state. deferredGroups r md AND NOT state = 0) else s) \<subseteq> states s"
  by (auto simp: states_def contains_filterStates)

lemma deferred_none: "\<not> md_IgnoreDestinationIPCIDRMatch md \<Longrightarrow> deferredGroups r md = 0"
  by (simp add: deferredGroups_def)

text \<open>The states of a default rule before the inversion, and the definitive ones among them.\<close>

definition ruleSetResult :: "matcher option \<Rightarrow> InboundContext \<Rightarrow> ruleMatchState \<Rightarrow> ruleMatchStateSet \<times> ruleMatchStateSet" where
  "ruleSetResult rs md b =
     (case rs of Some m \<Rightarrow> (fst (m md b), definitive (snd (m md b)))
      | None \<Rightarrow> (singleRuleMatchState b, singleRuleMatchState b))"

definition defaultPositive ::
  "env \<Rightarrow> abstractDefaultRule \<Rightarrow> matcher option \<Rightarrow> InboundContext \<Rightarrow> ruleMatchState \<Rightarrow>
   ruleMatchStateSet \<times> ruleMatchStateSet" where
  "defaultPositive env r rs md b =
     (if \<not> list_all (\<lambda>item. RuleItem_Match env item md) (items r) then (0, 0)
      else
        let (s, d) = ruleSetResult rs md (defaultBaseState env r md b)
        in (filterStates s (stateFilter r md),
            filterStates
              (if deferredGroups r md \<noteq> 0
               then filterStates d (\<lambda>state. deferredGroups r md AND NOT state = 0) else d)
              (stateFilter r md)))"

lemma isEmpty_0 [simp]: "isEmpty 0"
  by (simp add: isEmpty_def)

lemma stateFilter_cache [simp]:
  "stateFilter r (md\<lparr>md_DefinitiveMatchStates := d\<rparr>) = stateFilter r md"
  by (rule ext) (simp add: stateFilter_iff)

lemma invertedFailure_eq:
  "invertedFailure r (md\<lparr>md_DefinitiveMatchStates := d\<rparr>) b = invertedFailure r md b"
  by (simp add: invertedFailure_def Let_def)

text \<open>The rule in terms of its positive part; the code is this once the rule-set's metadata is known.\<close>

lemma default_eq:
  assumes "pred_option state_matcher rs"
  shows "abstractDefaultRule_matchStatesWithBase env r rs md b =
    (if allItems r = [] then
       (withBase emptyRuleMatchState b, md\<lparr>md_DefinitiveMatchStates := withBase emptyRuleMatchState b\<rparr>)
     else
       let (s, d) = defaultPositive env r rs md (if invert r then 0 else b)
       in if isEmpty s then invertedFailure r md b
          else if invert r then
            (if isEmpty d then withBase emptyRuleMatchState b else 0, md\<lparr>md_DefinitiveMatchStates := 0\<rparr>)
          else (s, md\<lparr>md_DefinitiveMatchStates := d\<rparr>))"
proof (cases rs)
  case None
  then show ?thesis
    by (simp add: abstractDefaultRule_matchStatesWithBase_def defaultPositive_def ruleSetResult_def Let_def
        del: isEmpty_states)
next
  case (Some m)
  then have sm: "state_matcher m" using assms by simp
  let ?b = "defaultBaseState env r md (if invert r then 0 else b)"
  obtain s d where m: "m md ?b = (s, md\<lparr>md_DefinitiveMatchStates := d\<rparr>)"
    using state_matcher.result_eq [OF sm] by blast
  show ?thesis
    unfolding abstractDefaultRule_matchStatesWithBase_def defaultPositive_def ruleSetResult_def Let_def Some
    by (simp add: m invertedFailure_eq del: isEmpty_states)
qed

lemma ruleSetResult_facts:
  assumes "pred_option state_matcher rs" and "validState b"
  shows "A \<in> states (fst (ruleSetResult rs md b)) \<Longrightarrow> groups b \<subseteq> A"
    and "states (snd (ruleSetResult rs md b)) \<subseteq> states (fst (ruleSetResult rs md b))"
    and "\<not> md_IgnoreDestinationIPCIDRMatch md \<Longrightarrow> snd (ruleSetResult rs md b) = fst (ruleSetResult rs md b)"
proof -
  consider "rs = None" | m where "rs = Some m" "state_matcher m" using assms(1) by (cases rs) auto
  note cs = this
  show "A \<in> states (fst (ruleSetResult rs md b)) \<Longrightarrow> groups b \<subseteq> A"
    by (rule cs) (use assms(2) in \<open>auto simp: ruleSetResult_def dest: state_matcher.base_le\<close>)
  show "states (snd (ruleSetResult rs md b)) \<subseteq> states (fst (ruleSetResult rs md b))"
    by (rule cs) (use assms(2) in \<open>simp_all add: ruleSetResult_def state_matcher.definitive_le\<close>)
  show "\<not> md_IgnoreDestinationIPCIDRMatch md \<Longrightarrow> snd (ruleSetResult rs md b) = fst (ruleSetResult rs md b)"
    by (rule cs) (use assms(2) in \<open>simp_all add: ruleSetResult_def state_matcher.definitive_all\<close>)
qed

lemma ruleSetResult_cache:
  assumes "pred_option state_matcher rs"
  shows "ruleSetResult rs (md\<lparr>md_DefinitiveMatchStates := d\<rparr>) b = ruleSetResult rs md b"
  using assms by (cases rs) (simp_all add: ruleSetResult_def state_matcher.cache)

lemma defaultBaseState_cache [simp]:
  "defaultBaseState env r (md\<lparr>md_DefinitiveMatchStates := d\<rparr>) b = defaultBaseState env r md b"
  by (simp add: defaultBaseState_def)

lemma defaultPositive_facts:
  assumes sm: "pred_option state_matcher rs" and b: "validState b"
  shows "A \<in> states (fst (defaultPositive env r rs md b)) \<Longrightarrow> groups b \<subseteq> A"
    and "states (snd (defaultPositive env r rs md b)) \<subseteq> states (fst (defaultPositive env r rs md b))"
    and "\<not> md_IgnoreDestinationIPCIDRMatch md \<Longrightarrow>
      snd (defaultPositive env r rs md b) = fst (defaultPositive env r rs md b)"
proof -
  let ?b = "defaultBaseState env r md b"
  have vb: "validState ?b" using b by (rule valid_defaultBaseState)
  note facts = ruleSetResult_facts [where md = md and rs = rs, OF sm vb]
  show "A \<in> states (fst (defaultPositive env r rs md b)) \<Longrightarrow> groups b \<subseteq> A"
    using facts(1) groups_defaultBaseState [of env r md b]
    by (auto simp: defaultPositive_def Let_def split: if_splits prod.splits)
  show "states (snd (defaultPositive env r rs md b)) \<subseteq> states (fst (defaultPositive env r rs md b))"
    using facts(2) deferred_filter [of r md "snd (ruleSetResult rs md ?b)"]
    unfolding defaultPositive_def Let_def by (cases "ruleSetResult rs md ?b") auto
  show "\<not> md_IgnoreDestinationIPCIDRMatch md \<Longrightarrow>
      snd (defaultPositive env r rs md b) = fst (defaultPositive env r rs md b)"
    using facts(3) by (auto simp: defaultPositive_def Let_def deferred_none split: prod.splits)
qed

lemma defaultPositive_cache:
  assumes "pred_option state_matcher rs"
  shows "defaultPositive env r rs (md\<lparr>md_DefinitiveMatchStates := d\<rparr>) b = defaultPositive env r rs md b"
  unfolding defaultPositive_def defaultBaseState_cache RuleItem_Match_cache stateFilter_cache cond_cache
    ruleSetResult_cache [OF assms] ..

lemma state_matcher_default:
  assumes sm: "pred_option state_matcher rs"
  shows "state_matcher (abstractDefaultRule_matchStatesWithBase env r rs)"
proof
  fix md and b :: ruleMatchState and d A
  let ?m = "abstractDefaultRule_matchStatesWithBase env r rs"
  let ?e = "if invert r then 0 else b"
  note facts = defaultPositive_facts [where md = md and env = env and r = r and rs = rs and b = ?e, OF sm]
  note unf = default_eq [OF sm] Let_def invertedFailure_def
  show "snd (?m md b) = md\<lparr>md_DefinitiveMatchStates := definitive (snd (?m md b))\<rparr>"
    by (simp add: unf split: prod.splits del: isEmpty_states)
  show "?m (md\<lparr>md_DefinitiveMatchStates := d\<rparr>) b = ?m md b"
    by (simp add: unf defaultPositive_cache [OF sm] split: prod.splits del: isEmpty_states)
  assume vb: "validState b"
  then have ve: "validState ?e" by simp
  note facts = facts [OF ve]
  show "A \<in> states (fst (?m md b)) \<Longrightarrow> groups b \<subseteq> A"
    using facts(1) vb by (auto simp: unf split: prod.splits if_splits)
  show "states (definitive (snd (?m md b))) \<subseteq> states (fst (?m md b))"
    using facts(2) vb by (auto simp: unf split: prod.splits)
  assume "\<not> md_IgnoreDestinationIPCIDRMatch md"
  then show "definitive (snd (?m md b)) = fst (?m md b)"
    using facts(3) vb by (auto simp: unf split: prod.splits)
qed

section \<open>Alternatives and logical rules\<close>

lemma mergeMatchers_fold:
  "foldl (\<lambda>(s, d) m. let (s', md') = m md b in (merge s s', merge d (definitive md'))) (s, d) ms =
     (foldl merge s (map (\<lambda>m. fst (m md b)) ms), foldl merge d (map (\<lambda>m. definitive (snd (m md b))) ms))"
  by (induction ms arbitrary: s d) (auto simp: Let_def split: prod.splits)

lemma states_foldl_merge: "states (foldl merge s xs) = states s \<union> (\<Union>x\<in>set xs. states x)"
  by (induction xs arbitrary: s) auto

lemma states_mergeMatchers:
  "states (fst (mergeMatchers ms md b)) = (\<Union>m\<in>set ms. states (fst (m md b)))"
  "states (snd (mergeMatchers ms md b)) = (\<Union>m\<in>set ms. states (definitive (snd (m md b))))"
  unfolding mergeMatchers_def mergeMatchers_fold by (simp_all add: states_foldl_merge)

lemma andMatchers_eq:
  "andMatchers ms md b (s, d) =
     (if \<exists>m\<in>set ms. isEmpty (fst (m md b)) then None
      else Some (foldl combine s (map (\<lambda>m. fst (m md b)) ms),
                 foldl combine d (map (\<lambda>m. definitive (snd (m md b))) ms)))"
  by (induction ms arbitrary: s d) (auto simp: Let_def split: prod.splits simp del: isEmpty_states)

lemma foldl_combine_empty:
  "states (foldl combine s xs) = {} \<longleftrightarrow> states s = {} \<or> (\<exists>x\<in>set xs. states x = {})"
  by (induction xs arbitrary: s) auto

lemma foldl_combine_ge:
  "A \<in> states (foldl combine s xs) \<Longrightarrow> \<exists>B\<in>states s. B \<subseteq> A"
proof (induction xs arbitrary: s)
  case (Cons x xs)
  from Cons.prems have "A \<in> states (foldl combine (combine s x) xs)" by simp
  then obtain B where "B \<in> states (combine s x)" "B \<subseteq> A" using Cons.IH by blast
  then show ?case by auto
qed auto

lemma foldl_combine_mono:
  assumes "states d \<subseteq> states s" and "list_all2 (\<lambda>y x. states y \<subseteq> states x) ys xs"
  shows "states (foldl combine d ys) \<subseteq> states (foldl combine s xs)"
  using assms(2,1)
proof (induction ys xs arbitrary: d s rule: list_all2_induct)
  case (Cons y ys x xs)
  have "states (combine d y) \<subseteq> states (combine s x)"
    using Cons.hyps(1) Cons.prems by auto
  then show ?case using Cons.IH by simp
qed simp

lemma reset_cache [simp]:
  "ResetRuleMatchCache (md\<lparr>md_DefinitiveMatchStates := d\<rparr>) = ResetRuleMatchCache md"
  "ResetRuleCache (md\<lparr>md_DefinitiveMatchStates := d\<rparr>) = ResetRuleCache md"
  by (simp_all add: ResetRuleMatchCache_def ResetRuleCache_def)

lemma state_matcher_merge:
  assumes "list_all state_matcher ms"
    and "\<And>md d. nested (md\<lparr>md_DefinitiveMatchStates := d\<rparr>) = nested md"
    and "\<And>md. md_IgnoreDestinationIPCIDRMatch (nested md) = md_IgnoreDestinationIPCIDRMatch md"
  shows "state_matcher (\<lambda>md b. let (s, d) = mergeMatchers ms (nested md) b
    in (s, md\<lparr>md_DefinitiveMatchStates := d\<rparr>))"
proof
  fix md and b :: ruleMatchState and d A
  let ?m = "\<lambda>md b. let (s, d) = mergeMatchers ms (nested md) b in (s, md\<lparr>md_DefinitiveMatchStates := d\<rparr>)"
  have sm: "state_matcher m" if "m \<in> set ms" for m using assms(1) that by (simp add: list_all_iff)
  show "snd (?m md b) = md\<lparr>md_DefinitiveMatchStates := definitive (snd (?m md b))\<rparr>"
    by (simp add: Let_def split: prod.splits)
  show "?m (md\<lparr>md_DefinitiveMatchStates := d\<rparr>) b = ?m md b"
    by (simp add: Let_def assms(2) split: prod.splits)
  have st: "fst (?m md b) = fst (mergeMatchers ms (nested md) b)"
    "definitive (snd (?m md b)) = snd (mergeMatchers ms (nested md) b)"
    by (simp_all add: Let_def split: prod.splits)
  assume vb: "validState b"
  show "A \<in> states (fst (?m md b)) \<Longrightarrow> groups b \<subseteq> A"
    unfolding st states_mergeMatchers using state_matcher.base_le [OF sm vb] by blast
  show "states (definitive (snd (?m md b))) \<subseteq> states (fst (?m md b))"
    unfolding st states_mergeMatchers using state_matcher.definitive_le [OF sm vb] by blast
  assume "\<not> md_IgnoreDestinationIPCIDRMatch md"
  then have "definitive (snd (m (nested md) b)) = fst (m (nested md) b)" if "m \<in> set ms" for m
    using state_matcher.definitive_all [OF sm [OF that] vb] assms(3) by simp
  then have "states (definitive (snd (?m md b))) = states (fst (?m md b))"
    unfolding st states_mergeMatchers by simp
  then show "definitive (snd (?m md b)) = fst (?m md b)" by simp
qed

lemma state_matcher_ruleSet:
  "list_all state_matcher ms \<Longrightarrow> state_matcher (RuleSet_matchStatesWithBase ms)"
  using state_matcher_merge [of ms ResetRuleMatchCache]
  by (simp add: RuleSet_matchStatesWithBase_def [abs_def])

lemma state_matcher_ruleSetItem:
  "list_all state_matcher ms \<Longrightarrow> state_matcher (RuleSetItem_matchStatesWithBase ms src emp)"
  using state_matcher_merge [of ms "\<lambda>md. (ResetRuleMatchCache md)
    \<lparr>md_IPCIDRMatchSource := src, md_IPCIDRAcceptEmpty := emp\<rparr>"]
  by (simp add: RuleSetItem_matchStatesWithBase_def [abs_def] Let_def)

text \<open>The states of a logical rule before the inversion.\<close>

definition logicalPositive ::
  "matcher list \<Rightarrow> string \<Rightarrow> InboundContext \<Rightarrow> ruleMatchState \<Rightarrow> ruleMatchStateSet \<times> ruleMatchStateSet" where
  "logicalPositive ms mode md b =
     (if mode = LogicalTypeAnd then
        let start = withBase emptyRuleMatchState b
        in (case andMatchers ms (ResetRuleCache md) b (start, start) of None \<Rightarrow> (0, 0) | Some sd \<Rightarrow> sd)
      else mergeMatchers ms (ResetRuleCache md) b)"

lemma logical_eq:
  assumes "validState b"
  shows "abstractLogicalRule_matchStatesWithBase ms mode inverted md b =
    (let (s, d) = logicalPositive ms mode md (if inverted then 0 else b)
     in if isEmpty s then logicalFailure inverted md b else logicalSuccess inverted s d md b)"
  using assms
  by (auto simp: abstractLogicalRule_matchStatesWithBase_def logicalPositive_def Let_def andMatchers_eq
      foldl_combine_empty split: prod.splits)

lemma empty_logicalPositive:
  assumes "validState b"
  shows "states (fst (logicalPositive ms mode md b)) = {} \<longleftrightarrow>
    (if mode = LogicalTypeAnd then \<exists>m\<in>set ms. states (fst (m (ResetRuleCache md) b)) = {}
     else \<forall>m\<in>set ms. states (fst (m (ResetRuleCache md) b)) = {})"
  using assms
  by (auto simp: logicalPositive_def Let_def andMatchers_eq foldl_combine_empty states_mergeMatchers)

lemma logicalPositive_facts:
  assumes ms: "list_all state_matcher ms" and b: "validState b"
  shows "A \<in> states (fst (logicalPositive ms mode md b)) \<Longrightarrow> groups b \<subseteq> A"
    and "states (snd (logicalPositive ms mode md b)) \<subseteq> states (fst (logicalPositive ms mode md b))"
    and "\<not> md_IgnoreDestinationIPCIDRMatch md \<Longrightarrow>
      snd (logicalPositive ms mode md b) = fst (logicalPositive ms mode md b)"
proof -
  have sm: "state_matcher m" if "m \<in> set ms" for m using ms that by (simp add: list_all_iff)
  let ?md = "ResetRuleCache md"
  show "A \<in> states (fst (logicalPositive ms mode md b)) \<Longrightarrow> groups b \<subseteq> A"
    using state_matcher.base_le [OF sm b] foldl_combine_ge [of A "withBase emptyRuleMatchState b"] b
    by (auto simp: logicalPositive_def Let_def andMatchers_eq states_mergeMatchers
        split: if_splits option.splits)
  have "list_all2 (\<lambda>y x. states y \<subseteq> states x)
      (map (\<lambda>m. definitive (snd (m ?md b))) ms) (map (\<lambda>m. fst (m ?md b)) ms)"
    using state_matcher.definitive_le [OF sm b] by (simp add: list_all2_conv_all_nth)
  note mono = foldl_combine_mono [OF subset_refl this]
  show "states (snd (logicalPositive ms mode md b)) \<subseteq> states (fst (logicalPositive ms mode md b))"
  proof (cases "mode = LogicalTypeAnd")
    case True
    then show ?thesis using mono by (simp add: logicalPositive_def Let_def andMatchers_eq del: isEmpty_states)
  next
    case False
    then show ?thesis using state_matcher.definitive_le [OF sm b]
      by (auto simp: logicalPositive_def states_mergeMatchers)
  qed
  assume "\<not> md_IgnoreDestinationIPCIDRMatch md"
  then have eq: "definitive (snd (m ?md b)) = fst (m ?md b)" if "m \<in> set ms" for m
    using state_matcher.definitive_all [OF sm [OF that] b] by simp
  then have "map (\<lambda>m. definitive (snd (m ?md b))) ms = map (\<lambda>m. fst (m ?md b)) ms" by simp
  moreover have "snd (mergeMatchers ms ?md b) = fst (mergeMatchers ms ?md b)"
    using eq states_mergeMatchers [of ms ?md b] states_inject by (metis (no_types, lifting) SUP_cong)
  ultimately show "snd (logicalPositive ms mode md b) = fst (logicalPositive ms mode md b)"
    by (simp add: logicalPositive_def Let_def andMatchers_eq del: isEmpty_states map_eq_conv)
qed

lemma state_matcher_logical:
  assumes ms: "list_all state_matcher ms"
  shows "state_matcher (abstractLogicalRule_matchStatesWithBase ms mode inverted)"
proof
  fix md and b :: ruleMatchState and d A
  let ?m = "abstractLogicalRule_matchStatesWithBase ms mode inverted"
  let ?e = "if inverted then 0 else b"
  note unf = logical_eq Let_def logicalFailure_def logicalSuccess_def
  show "snd (?m md b) = md\<lparr>md_DefinitiveMatchStates := definitive (snd (?m md b))\<rparr>"
    by (simp add: abstractLogicalRule_matchStatesWithBase_def Let_def logicalFailure_def
        logicalSuccess_def split: prod.splits option.splits del: isEmpty_states)
  show "?m (md\<lparr>md_DefinitiveMatchStates := d\<rparr>) b = ?m md b"
    by (simp add: abstractLogicalRule_matchStatesWithBase_def Let_def logicalFailure_def
        logicalSuccess_def split: prod.splits option.splits del: isEmpty_states)
  assume vb: "validState b"
  then have ve: "validState ?e" by simp
  note facts = logicalPositive_facts [where mode = mode and md = md, OF ms ve]
  show "A \<in> states (fst (?m md b)) \<Longrightarrow> groups b \<subseteq> A"
    using facts(1) vb by (auto simp: unf split: prod.splits if_splits)
  show "states (definitive (snd (?m md b))) \<subseteq> states (fst (?m md b))"
    using facts(2) vb by (auto simp: unf split: prod.splits)
  assume "\<not> md_IgnoreDestinationIPCIDRMatch md"
  then show "definitive (snd (?m md b)) = fst (?m md b)"
    using facts(3) vb by (auto simp: unf split: prod.splits)
qed

section \<open>Every rule keeps the contract\<close>

lemma matcher_eqs:
  "matchStatesWithBase env (DefaultRule r item action) =
     abstractDefaultRule_matchStatesWithBase env r (map_option (ruleSetItem_matchStatesWithBase env) item)"
  "matchStatesWithBase env (LogicalRule rules mode inverted action) =
     abstractLogicalRule_matchStatesWithBase (map (matchStatesWithBase env) rules) mode inverted"
  "ruleSetItem_matchStatesWithBase env (RuleSetItem tagList setList src emp) =
     RuleSetItem_matchStatesWithBase (map (ruleSet_matchStatesWithBase env) setList) src emp"
  "ruleSet_matchStatesWithBase env (RuleSet tag metadata rules) =
     RuleSet_matchStatesWithBase (map (matchStatesWithBase env) rules)"
  by (intro ext; cases item; simp)+

declare matchStatesWithBase.simps [simp del] ruleSetItem_matchStatesWithBase.simps [simp del]
  ruleSet_matchStatesWithBase.simps [simp del]

lemma state_matcher_all:
  fixes r :: "'a rule" and item :: "'a RuleSetItem" and s :: "'a RuleSet"
  shows "state_matcher (matchStatesWithBase env r)"
  "state_matcher (ruleSetItem_matchStatesWithBase env item)"
  "state_matcher (ruleSet_matchStatesWithBase env s)"
  by (induction r and item and s)
     (auto simp: matcher_eqs option.pred_map option.pred_set list_all_iff intro!: state_matcher_default
       state_matcher_logical state_matcher_ruleSet state_matcher_ruleSetItem)

interpretation ruleM: state_matcher "matchStatesWithBase env r" for env and r :: "'a rule"
  by (rule state_matcher_all)

interpretation ruleSetItemM: state_matcher "ruleSetItem_matchStatesWithBase env item"
  for env and item :: "'a RuleSetItem"
  by (rule state_matcher_all)

interpretation ruleSetM: state_matcher "ruleSet_matchStatesWithBase env s" for env and s :: "'a RuleSet"
  by (rule state_matcher_all)

section \<open>Boolean reading of rules\<close>

lemma rule_Match_states: "rule_Match env r md \<longleftrightarrow> states (fst (matchStatesWithBase env r md 0)) \<noteq> {}"
  by (simp add: rule_Match_def matchStates_def)

lemma state_matcher_map [simp]:
  "list_all state_matcher (map (matchStatesWithBase env) rules)"
  "pred_option state_matcher (map_option (ruleSetItem_matchStatesWithBase env) item)"
  by (simp_all add: list_all_iff state_matcher_all) (cases item; simp add: state_matcher_all)

lemma states_defaultPositive:
  "states (fst (defaultPositive env r rs md b)) =
     (if list_all (\<lambda>it. RuleItem_Match env it md) (items r)
      then {A \<in> states (fst (ruleSetResult rs md (defaultBaseState env r md b))). requiredGroups r md \<subseteq> A}
      else {})"
  by (auto simp: defaultPositive_def split: prod.splits)

text \<open>Outside of DNS pre-lookup the inversion is exact.\<close>

lemma states_default:
  assumes "pred_option state_matcher rs" "validState b" "\<not> md_IgnoreDestinationIPCIDRMatch md" "allItems r \<noteq> []"
  shows "states (fst (abstractDefaultRule_matchStatesWithBase env r rs md b)) =
    (if invert r then
       (if states (fst (defaultPositive env r rs md 0)) = {} then {groups b} else {})
     else states (fst (defaultPositive env r rs md b)))"
proof -
  note facts = defaultPositive_facts(3) [where rs = rs and md = md and env = env and r = r, OF assms(1) _ assms(3)]
  obtain s t where "defaultPositive env r rs md 0 = (s, s)" "defaultPositive env r rs md b = (t, t)"
    using facts [of 0] facts [OF assms(2)] by (metis prod.collapse validState_masks(5))
  with assms show ?thesis
    by (cases "invert r") (simp_all add: default_eq invertedFailure_def Let_def rms.sts_empty_iff)
qed

lemma states_logical:
  assumes "list_all state_matcher ms" "validState b" "\<not> md_IgnoreDestinationIPCIDRMatch md"
  shows "states (fst (abstractLogicalRule_matchStatesWithBase ms mode inverted md b)) =
    (if inverted then
       (if states (fst (logicalPositive ms mode md 0)) = {} then {groups b} else {})
     else states (fst (logicalPositive ms mode md b)))"
proof -
  note facts = logicalPositive_facts(3) [where ms = ms and md = md and mode = mode, OF assms(1) _ assms(3)]
  obtain s t where "logicalPositive ms mode md 0 = (s, s)" "logicalPositive ms mode md b = (t, t)"
    using facts [of 0] facts [OF assms(2)] by (metis prod.collapse validState_masks(5))
  with assms(2) show ?thesis
    by (cases inverted)
       (simp_all add: logical_eq logicalFailure_def logicalSuccess_def Let_def rms.sts_empty_iff)
qed

lemma groups_base0 [simp]: "groups (defaultBaseState env r md 0) = matchedGroups env r md"
  by (simp add: groups_defaultBaseState)

lemma all_group_iff: "(\<forall>g. P g) \<longleftrightarrow> P SourceAddress \<and> P SourcePort \<and> P DestinationAddress \<and> P DestinationPort"
  by (metis group.exhaust)

lemma matchAnyItem_append: "matchAnyItem env (xs @ ys) md \<longleftrightarrow> matchAnyItem env xs md \<or> matchAnyItem env ys md"
  by (simp add: matchAnyItem_def)

lemma required_top:
  assumes "\<not> md_IgnoreDestinationIPCIDRMatch md" "\<not> md_IPCIDRMatchSource md"
  shows "requiredGroups r md \<subseteq> matchedGroups env r md \<longleftrightarrow>
    (sourceAddressItems r = [] \<or> matchAnyItem env (sourceAddressItems r) md) \<and>
    (sourcePortItems r = [] \<or> matchAnyItem env (sourcePortItems r) md) \<and>
    (destinationAddressItems r @ destinationIPCIDRItems r = [] \<or>
       matchAnyItem env (destinationAddressItems r @ destinationIPCIDRItems r) md) \<and>
    (destinationPortItems r = [] \<or> matchAnyItem env (destinationPortItems r) md)"
  using assms
  by (simp add: requiredGroups_def matchedGroups_def subset_iff all_group_iff requiresSourceAddressMatch_def
      requiresDestinationAddressMatch_def destinationIPCIDRMatchesSource_def
      destinationIPCIDRMatchesDestination_def matchAnyItem_append)
     (cases "destinationIPCIDRItems r"; auto)

lemma default_match:
  assumes "allItems r \<noteq> []" "\<not> md_IgnoreDestinationIPCIDRMatch md"
  shows "rule_Match env (DefaultRule r None action) md \<longleftrightarrow>
    invert r \<noteq> (list_all (\<lambda>it. RuleItem_Match env it md) (items r) \<and>
      requiredGroups r md \<subseteq> matchedGroups env r md)"
proof -
  have "states (fst (defaultPositive env r None md 0)) \<noteq> {} \<longleftrightarrow>
      list_all (\<lambda>it. RuleItem_Match env it md) (items r) \<and> requiredGroups r md \<subseteq> matchedGroups env r md"
    using valid_defaultBaseState [of 0 env r md] by (simp add: states_defaultPositive ruleSetResult_def)
  with assms show ?thesis by (cases "invert r") (auto simp: rule_Match_states matcher_eqs states_default)
qed

lemma invert_irrelevant [simp]:
  "requiredGroups (r\<lparr>invert := i\<rparr>) md = requiredGroups r md"
  "deferredGroups (r\<lparr>invert := i\<rparr>) md = deferredGroups r md"
  "defaultBaseState env (r\<lparr>invert := i\<rparr>) md b = defaultBaseState env r md b"
  by (simp_all add: requiredGroups_def deferredGroups_def defaultBaseState_def
      requiresSourceAddressMatch_def requiresDestinationAddressMatch_def
      destinationIPCIDRMatchesSource_def destinationIPCIDRMatchesDestination_def cong: group.case_cong)

lemma stateFilter_invert [simp]: "stateFilter (r\<lparr>invert := i\<rparr>) md = stateFilter r md"
  by (rule ext) (simp add: stateFilter_iff)

lemma defaultPositive_invert [simp]:
  "defaultPositive env (r\<lparr>invert := i\<rparr>) rs md b = defaultPositive env r rs md b"
  unfolding defaultPositive_def invert_irrelevant stateFilter_invert by simp

lemma invert_default_match:
  assumes "allItems r \<noteq> []" "\<not> md_IgnoreDestinationIPCIDRMatch md"
  shows "rule_Match env (DefaultRule (r\<lparr>invert := True\<rparr>) item action) md \<longleftrightarrow>
    \<not> rule_Match env (DefaultRule (r\<lparr>invert := False\<rparr>) item action) md"
  using assms by (simp add: rule_Match_states matcher_eqs states_default)

lemma logical_match:
  "rule_Match env (LogicalRule rules mode False action) md \<longleftrightarrow>
     (if mode = LogicalTypeAnd then \<forall>r\<in>set rules. rule_Match env r (ResetRuleCache md)
      else \<exists>r\<in>set rules. rule_Match env r (ResetRuleCache md))"
proof -
  let ?p = "logicalPositive (map (matchStatesWithBase env) rules) mode md 0"
  have "rule_Match env (LogicalRule rules mode False action) md \<longleftrightarrow> states (fst ?p) \<noteq> {}"
    by (cases ?p) (simp add: rule_Match_states matcher_eqs logical_eq logicalFailure_def logicalSuccess_def)
  then show ?thesis by (auto simp: empty_logicalPositive rule_Match_states)
qed

lemma invert_logical_match:
  assumes "\<not> md_IgnoreDestinationIPCIDRMatch md"
  shows "rule_Match env (LogicalRule rules mode True action) md \<longleftrightarrow>
    \<not> rule_Match env (LogicalRule rules mode False action) md"
  using assms by (simp add: rule_Match_states matcher_eqs states_logical)

section \<open>Rule-sets are merged into the rule\<close>

fun ruleSet_rules :: "'a RuleSet \<Rightarrow> 'a rule list" where
  "ruleSet_rules (RuleSet tag metadata rules) = rules"

text \<open>Every item of a rule is listed in \<open>allItems\<close>; the constructors add each item to both lists.\<close>

definition wfDefault :: "abstractDefaultRule \<Rightarrow> bool" where
  "wfDefault r \<longleftrightarrow>
     (allItems r = [] \<longrightarrow>
        items r = [] \<and> sourceAddressItems r = [] \<and> sourcePortItems r = [] \<and>
        destinationAddressItems r = [] \<and> destinationIPCIDRItems r = [] \<and> destinationPortItems r = [])"

definition mergeRules :: "abstractDefaultRule \<Rightarrow> abstractDefaultRule \<Rightarrow> abstractDefaultRule" where
  "mergeRules r h =
     r\<lparr>items := items r @ items h, sourceAddressItems := sourceAddressItems r @ sourceAddressItems h,
       sourcePortItems := sourcePortItems r @ sourcePortItems h,
       destinationAddressItems := destinationAddressItems r @ destinationAddressItems h,
       destinationIPCIDRItems := destinationIPCIDRItems r @ destinationIPCIDRItems h,
       destinationPortItems := destinationPortItems r @ destinationPortItems h,
       allItems := allItems r @ allItems h\<rparr>"

definition plainRule :: "'a rule \<Rightarrow> bool" where
  "plainRule x \<longleftrightarrow> (\<exists>h a. x = DefaultRule h None a \<and> \<not> invert h \<and> wfDefault h)"

definition nestedContext :: "bool \<Rightarrow> bool \<Rightarrow> InboundContext \<Rightarrow> InboundContext" where
  "nestedContext src emp md =
     ResetRuleMatchCache
       ((ResetRuleMatchCache md)\<lparr>md_IPCIDRMatchSource := src, md_IPCIDRAcceptEmpty := emp\<rparr>)"

lemma states_default_positive:
  assumes "pred_option state_matcher rs" "\<not> invert r" "allItems r \<noteq> []"
  shows "states (fst (abstractDefaultRule_matchStatesWithBase env r rs md b)) =
    states (fst (defaultPositive env r rs md b))"
  using assms
  by (cases "defaultPositive env r rs md b")
     (simp add: default_eq invertedFailure_def rms.sts_empty_iff)

lemma wfDefault_groups:
  assumes "wfDefault h" "allItems h = []"
  shows "requiredGroups h md = {}" "matchedGroups env h md = {}" "items h = []"
  using assms
  by (auto simp: wfDefault_def requiredGroups_def matchedGroups_def requiresSourceAddressMatch_def
      requiresDestinationAddressMatch_def destinationIPCIDRMatchesSource_def
      destinationIPCIDRMatchesDestination_def split: group.splits)

lemma states_plain:
  assumes "\<not> invert h" "wfDefault h" "validState b"
  shows "states (fst (matchStatesWithBase env (DefaultRule h None a) md b)) =
    (if list_all (\<lambda>it. RuleItem_Match env it md) (items h) \<and>
        requiredGroups h md \<subseteq> groups b \<union> matchedGroups env h md
     then {groups b \<union> matchedGroups env h md} else {})"
proof (cases "allItems h = []")
  case True
  then show ?thesis
    using assms wfDefault_groups [OF assms(2) True]
    by (simp add: matcher_eqs abstractDefaultRule_matchStatesWithBase_def Let_def)
next
  case False
  then show ?thesis
    using assms valid_defaultBaseState [OF assms(3), of env h md]
    by (auto simp: matcher_eqs states_default_positive states_defaultPositive ruleSetResult_def
        groups_defaultBaseState)
qed

lemma states_ruleSetItem:
  "states (fst (ruleSetItem_matchStatesWithBase env (RuleSetItem tags sets src emp) md b)) =
     (\<Union>s\<in>set sets. \<Union>x\<in>set (ruleSet_rules s).
        states (fst (matchStatesWithBase env x (nestedContext src emp md) b)))"
proof -
  have set: "states (fst (ruleSet_matchStatesWithBase env s md' b)) =
      (\<Union>x\<in>set (ruleSet_rules s). states (fst (matchStatesWithBase env x (ResetRuleMatchCache md') b)))" for s md'
    by (cases s) (simp add: matcher_eqs RuleSet_matchStatesWithBase_def states_mergeMatchers Let_def case_prod_unfold)
  have "states (fst (ruleSetItem_matchStatesWithBase env (RuleSetItem tags sets src emp) md b)) =
      (\<Union>s\<in>set sets. states (fst (ruleSet_matchStatesWithBase env s
        ((ResetRuleMatchCache md)\<lparr>md_IPCIDRMatchSource := src, md_IPCIDRAcceptEmpty := emp\<rparr>) b)))"
    by (simp add: matcher_eqs RuleSetItem_matchStatesWithBase_def states_mergeMatchers Let_def case_prod_unfold)
  then show ?thesis by (simp add: set nestedContext_def)
qed

lemma bex_image_swap:
  "(\<And>x. x \<in> X \<Longrightarrow> P x \<longleftrightarrow> (\<exists>h a. x = F h a \<and> Q h \<and> R h)) \<Longrightarrow>
    (\<exists>x\<in>X. P x) \<longleftrightarrow> (\<exists>h a. F h a \<in> X \<and> Q h \<and> R h)"
  by metis

text \<open>
  A rule with a rule-set item matches when one rule of one of the sets completes it: its own items
  and the items of that rule match, and every group required by either is matched by either.
\<close>

lemma rule_set_match:
  assumes "\<not> invert r" "allItems r \<noteq> []" "\<forall>s\<in>set sets. \<forall>x\<in>set (ruleSet_rules s). plainRule x"
  shows "rule_Match env (DefaultRule r (Some (RuleSetItem tags sets src emp)) action) md \<longleftrightarrow>
    list_all (\<lambda>it. RuleItem_Match env it md) (items r) \<and>
    (\<exists>s\<in>set sets. \<exists>h a. DefaultRule h None a \<in> set (ruleSet_rules s) \<and>
       list_all (\<lambda>it. RuleItem_Match env it (nestedContext src emp md)) (items h) \<and>
       requiredGroups r md \<union> requiredGroups h (nestedContext src emp md) \<subseteq>
         matchedGroups env r md \<union> matchedGroups env h (nestedContext src emp md))"
proof -
  let ?md = "nestedContext src emp md" and ?b = "defaultBaseState env r md 0"
  let ?ok = "\<lambda>h. list_all (\<lambda>it. RuleItem_Match env it ?md) (items h) \<and>
    requiredGroups h ?md \<subseteq> matchedGroups env r md \<union> matchedGroups env h ?md"
  have vb: "validState ?b" by (simp add: valid_defaultBaseState)
  have inner: "(\<exists>A\<in>states (fst (matchStatesWithBase env x ?md ?b)). requiredGroups r md \<subseteq> A) \<longleftrightarrow>
      (\<exists>h a. x = DefaultRule h None a \<and> ?ok h \<and>
         requiredGroups r md \<subseteq> matchedGroups env r md \<union> matchedGroups env h ?md)"
    if plain: "plainRule x" for x
    using plain vb by (auto simp: plainRule_def states_plain split: if_splits)
  have "rule_Match env (DefaultRule r (Some (RuleSetItem tags sets src emp)) action) md \<longleftrightarrow>
      list_all (\<lambda>it. RuleItem_Match env it md) (items r) \<and>
      (\<exists>s\<in>set sets. \<exists>x\<in>set (ruleSet_rules s). \<exists>A\<in>states (fst (matchStatesWithBase env x ?md ?b)).
         requiredGroups r md \<subseteq> A)"
    unfolding rule_Match_states matcher_eqs(1) states_default_positive [OF state_matcher_map(2) assms(1,2)]
      states_defaultPositive
    by (auto simp: ruleSetResult_def states_ruleSetItem)
  also have "\<dots> \<longleftrightarrow> list_all (\<lambda>it. RuleItem_Match env it md) (items r) \<and>
      (\<exists>s\<in>set sets. \<exists>h a. DefaultRule h None a \<in> set (ruleSet_rules s) \<and> ?ok h \<and>
         requiredGroups r md \<subseteq> matchedGroups env r md \<union> matchedGroups env h ?md)"
    using assms(3) by (intro conj_cong refl bex_cong bex_image_swap inner) auto
  finally show ?thesis by (auto simp: Un_subset_iff)
qed

lemma merge_groups:
  "requiredGroups (mergeRules r h) md = requiredGroups r md \<union> requiredGroups h md"
  "matchedGroups env (mergeRules r h) md = matchedGroups env r md \<union> matchedGroups env h md"
proof -
  have req: "g \<in> requiredGroups (mergeRules r h) md \<longleftrightarrow> g \<in> requiredGroups r md \<union> requiredGroups h md" for g
    by (cases g) (auto simp: requiredGroups_def mergeRules_def requiresSourceAddressMatch_def
      requiresDestinationAddressMatch_def destinationIPCIDRMatchesSource_def
      destinationIPCIDRMatchesDestination_def)
  have mat: "g \<in> matchedGroups env (mergeRules r h) md \<longleftrightarrow> g \<in> matchedGroups env r md \<union> matchedGroups env h md" for g
    by (cases g) (auto simp: matchedGroups_def mergeRules_def matchAnyItem_append
      destinationIPCIDRMatchesSource_def destinationIPCIDRMatchesDestination_def)
  show "requiredGroups (mergeRules r h) md = requiredGroups r md \<union> requiredGroups h md"
    using req by blast
  show "matchedGroups env (mergeRules r h) md = matchedGroups env r md \<union> matchedGroups env h md"
    using mat by blast
qed

lemma nested_top:
  assumes "\<not> md_IPCIDRMatchSource md" "\<not> md_IPCIDRAcceptEmpty md"
  shows "RuleItem_Match env it (nestedContext False False md) = RuleItem_Match env it md"
    and "requiredGroups r (nestedContext False False md) = requiredGroups r md"
    and "matchedGroups env r (nestedContext False False md) = matchedGroups env r md"
proof -
  have item: "RuleItem_Match env it (nestedContext False False md) = RuleItem_Match env it md" for it
    using assms by (cases it; simp add: item_match_defs nestedContext_def ResetRuleMatchCache_def)
  then show "RuleItem_Match env it (nestedContext False False md) = RuleItem_Match env it md" .
  have flags: "md_IPCIDRMatchSource (nestedContext False False md) = md_IPCIDRMatchSource md"
    "md_IgnoreDestinationIPCIDRMatch (nestedContext False False md) = md_IgnoreDestinationIPCIDRMatch md"
    using assms by (simp_all add: nestedContext_def)
  show "requiredGroups r (nestedContext False False md) = requiredGroups r md"
    by (simp add: requiredGroups_def requiresSourceAddressMatch_def requiresDestinationAddressMatch_def
        destinationIPCIDRMatchesSource_def destinationIPCIDRMatchesDestination_def flags
        cong: group.case_cong)
  show "matchedGroups env r (nestedContext False False md) = matchedGroups env r md"
    by (simp add: matchedGroups_def matchAnyItem_def item destinationIPCIDRMatchesSource_def
        destinationIPCIDRMatchesDestination_def flags cong: group.case_cong)
qed

section \<open>Properties\<close>

text \<open>
  C2: the documented formula of a rule without rule-sets. Outside of DNS pre-lookup and outside of
  a rule-set that matches sources, the rule matches iff, up to \<open>invert\<close>, every plain item matches
  and each of the source address, source port, destination address (domain or IP CIDR) and
  destination port groups that has items has one that matches.
\<close>

theorem default_rule_formula:
  assumes "allItems r \<noteq> []" "\<not> md_IgnoreDestinationIPCIDRMatch md" "\<not> md_IPCIDRMatchSource md"
  shows "rule_Match env (DefaultRule r None action) md \<longleftrightarrow>
    invert r \<noteq>
      ((\<forall>it\<in>set (items r). RuleItem_Match env it md) \<and>
       (sourceAddressItems r = [] \<or> (\<exists>it\<in>set (sourceAddressItems r). RuleItem_Match env it md)) \<and>
       (sourcePortItems r = [] \<or> (\<exists>it\<in>set (sourcePortItems r). RuleItem_Match env it md)) \<and>
       (destinationAddressItems r @ destinationIPCIDRItems r = [] \<or>
          (\<exists>it\<in>set (destinationAddressItems r @ destinationIPCIDRItems r). RuleItem_Match env it md)) \<and>
       (destinationPortItems r = [] \<or> (\<exists>it\<in>set (destinationPortItems r). RuleItem_Match env it md)))"
  unfolding default_match [OF assms(1,2)] required_top [OF assms(2,3)] matchAnyItem_def list_all_iff list_ex_iff ..

text \<open>Samples for the witnesses: a rule on a destination port and one on a source port.\<close>

definition portRule :: "bool \<Rightarrow> uint16 \<Rightarrow> abstractDefaultRule" where
  "portRule isSource port =
     \<lparr>items = [], sourceAddressItems = [],
      sourcePortItems = (if isSource then [NewPortItem True [port]] else []),
      destinationAddressItems = [], destinationIPCIDRItems = [],
      destinationPortItems = (if isSource then [] else [NewPortItem False [port]]),
      allItems = [Inl (NewPortItem isSource [port])], invert = False\<rparr>"

definition portContext :: "uint16 \<Rightarrow> uint16 \<Rightarrow> InboundContext" where
  "portContext source destination =
     emptyContext\<lparr>md_Source := \<lparr>sa_Addr = Addr4 0x0a000001, sa_Port = source, sa_Fqdn = []\<rparr>,
       md_Destination := \<lparr>sa_Addr = Addr4 0x08080808, sa_Port = destination, sa_Fqdn = []\<rparr>\<rparr>"

lemmas sample_defs = portRule_def portContext_def emptyContext_def NewPortItem_def RuleItem_Match_def
  PortItem_Match_def

theorem default_rule_formula_witness:
  "rule_Match sampleEnv (DefaultRule (portRule False 443) None (None :: unit option)) (portContext 1000 443) \<and>
   \<not> rule_Match sampleEnv (DefaultRule (portRule False 443) None (None :: unit option)) (portContext 1000 80)"
  using default_rule_formula [of "portRule False 443" "portContext 1000 443" sampleEnv "None :: unit option"]
    default_rule_formula [of "portRule False 443" "portContext 1000 80" sampleEnv "None :: unit option"]
  by (simp add: sample_defs)



text \<open>
  C4: a logical rule is the conjunction or the disjunction of its rules, each matched on metadata
  with a fresh rule cache, and its inversion is the negation outside of DNS pre-lookup.
\<close>

theorem logical_rule_formula:
  assumes "\<not> md_IgnoreDestinationIPCIDRMatch md"
  shows "rule_Match env (LogicalRule rules mode inverted action) md \<longleftrightarrow>
    inverted \<noteq> (if mode = ''and'' then \<forall>r\<in>set rules. rule_Match env r (ResetRuleCache md)
      else \<exists>r\<in>set rules. rule_Match env r (ResetRuleCache md))"
  using logical_match [of env rules mode action md] invert_logical_match [OF assms, of env rules mode action]
  by (cases inverted) simp_all

theorem logical_rule_formula_witness:
  "rule_Match sampleEnv (LogicalRule [DefaultRule (portRule False 443) None None,
      DefaultRule (portRule True 1) None None] ''or'' False (None :: unit option)) (portContext 1000 443)"
proof -
  have "rule_Match sampleEnv (DefaultRule (portRule False 443) None (None :: unit option))
      (ResetRuleCache (portContext 1000 443))"
    by (subst default_match) (auto simp: requiredGroups_def matchedGroups_def matchAnyItem_def
         ResetRuleCache_def ResetRuleMatchCache_def sample_defs requiresSourceAddressMatch_def
         requiresDestinationAddressMatch_def destinationIPCIDRMatchesSource_def
         destinationIPCIDRMatchesDestination_def split: group.splits)
  then show ?thesis
    using logical_rule_formula [of "portContext 1000 443" sampleEnv "[DefaultRule (portRule False 443) None None,
      DefaultRule (portRule True 1) None None]" "''or''" False "None :: unit option"]
    by (simp add: portContext_def emptyContext_def)
qed

text \<open>
  C5: the inversion of a default rule, with or without rule-sets, is its negation outside of DNS
  pre-lookup.
\<close>

theorem default_rule_inversion:
  assumes "allItems r \<noteq> []" "\<not> md_IgnoreDestinationIPCIDRMatch md"
  shows "rule_Match env (DefaultRule (r\<lparr>invert := True\<rparr>) item action) md \<longleftrightarrow>
    \<not> rule_Match env (DefaultRule (r\<lparr>invert := False\<rparr>) item action) md"
  by (rule invert_default_match [OF assms])

theorem default_rule_inversion_witness:
  "rule_Match sampleEnv (DefaultRule ((portRule False 443)\<lparr>invert := True\<rparr>) None (None :: unit option))
     (portContext 1000 443) \<longleftrightarrow>
   \<not> rule_Match sampleEnv (DefaultRule ((portRule False 443)\<lparr>invert := False\<rparr>) None (None :: unit option))
     (portContext 1000 443)"
  using default_rule_inversion [of "portRule False 443" "portContext 1000 443" sampleEnv None "None :: unit option"]
  by (simp add: sample_defs)

text \<open>
  C6: matching a rule changes nothing of the metadata but the definitive states, which outside of
  DNS pre-lookup are the states of the match.
\<close>

theorem matching_frame:
  "snd (matchStates env r md) =
     md\<lparr>md_DefinitiveMatchStates := md_DefinitiveMatchStates (snd (matchStates env r md))\<rparr> \<and>
   (md_IgnoreDestinationIPCIDRMatch md \<or>
     md_DefinitiveMatchStates (snd (matchStates env r md)) = fst (matchStates env r md))"
  unfolding matchStates_def using ruleM.frame ruleM.definitive_all [of 0 md env r] by fastforce

text \<open>
  C7: a rule-set of logical rules does not see the flags of the rule-set item: the logical rule
  clears them for its rules, so \<open>rule_set_ip_cidr_match_source\<close> and \<open>rule_set_ip_cidr_accept_empty\<close>
  have no effect on the IP CIDR items inside.
\<close>

theorem logical_rule_drops_rule_set_flags:
  assumes "\<forall>s\<in>set sets. \<forall>x\<in>set (ruleSet_rules s). rule_Type x = ''logical''"
  shows "RuleSetItem_Match env (RuleSetItem tags sets src emp) md \<longleftrightarrow>
    RuleSetItem_Match env (RuleSetItem tags sets False False) md"
proof -
  have "matchStatesWithBase env x (nestedContext src emp md) 0 =
      (fst (matchStatesWithBase env x (nestedContext False False md) 0), 
       snd (matchStatesWithBase env x (nestedContext src emp md) 0))"
    if "rule_Type x = ''logical''" for x
  proof (cases x)
    case (LogicalRule rules mode inverted action)
    have "ResetRuleCache (nestedContext src emp md) = ResetRuleCache (nestedContext False False md)"
      by (simp add: nestedContext_def ResetRuleCache_def ResetRuleMatchCache_def)
    then show ?thesis
      by (simp add: LogicalRule matcher_eqs logical_eq logicalPositive_def logicalFailure_def
          logicalSuccess_def prod_eq_iff Let_def split: prod.splits)
  qed (use that in simp)
  then show ?thesis
    using assms unfolding RuleSetItem_Match_def isEmpty_states states_ruleSetItem
    by (metis (no_types, lifting) SUP_cong fst_conv)
qed

theorem logical_rule_drops_rule_set_flags_witness:
  "RuleSetItem_Match sampleEnv (RuleSetItem [''set''] [RuleSet ''set'' \<lparr>ContainsProcessRule = False,
      ContainsWIFIRule = False, ContainsIPCIDRRule = False\<rparr>
      [LogicalRule [DefaultRule (portRule False 443) None (None :: unit option)] ''and'' False None]] True True)
      (portContext 1000 443) \<longleftrightarrow>
   RuleSetItem_Match sampleEnv (RuleSetItem [''set''] [RuleSet ''set'' \<lparr>ContainsProcessRule = False,
      ContainsWIFIRule = False, ContainsIPCIDRRule = False\<rparr>
      [LogicalRule [DefaultRule (portRule False 443) None (None :: unit option)] ''and'' False None]] False False)
      (portContext 1000 443)"
  by (rule logical_rule_drops_rule_set_flags) simp

end
