(* ===== verification/DNS_Rule.thy ===== *)
theory DNS_Rule
  imports Rule_Semantics
begin

text \<open>
  The two-phase matching of DNS rules (\<open>route/rule/rule_dns.go\<close>). \<open>Match\<close> runs before the lookup and
  leaves the destination IP items out; \<open>MatchAddressLimit\<close> runs on the addresses of the response. The
  theory shows when the first phase is complete for the second: no rule that would accept the
  response is skipped before the lookup.
\<close>

section \<open>Operations\<close>

text \<open>\<open>Match\<close> sets the flag for the call and clears it afterwards.\<close>

definition dnsRule_Match :: "env \<Rightarrow> 'a rule \<Rightarrow> InboundContext \<Rightarrow> bool \<times> InboundContext" where
  "dnsRule_Match env r md =
     (let (stateSet, md') = matchStates env r (md\<lparr>md_IgnoreDestinationIPCIDRMatch := True\<rparr>)
      in (\<not> isEmpty stateSet, md'\<lparr>md_IgnoreDestinationIPCIDRMatch := False\<rparr>))"

definition MatchAddressLimit :: "env \<Rightarrow> 'a rule \<Rightarrow> InboundContext \<Rightarrow> bool \<times> InboundContext" where
  "MatchAddressLimit env r md =
     (let (stateSet, md') = matchStates env r md in (\<not> isEmpty stateSet, md'))"

fun ContainsDestinationIPCIDRRule :: "'a RuleSetItem \<Rightarrow> bool" where
  "ContainsDestinationIPCIDRRule (RuleSetItem tagList setList ipCidrMatchSource ipCidrAcceptEmpty) =
     (if ipCidrMatchSource then False
      else list_ex (\<lambda>s. ContainsIPCIDRRule (ruleSet_Metadata s)) setList)"

fun WithAddressLimit :: "'a rule \<Rightarrow> bool" where
  "WithAddressLimit (DefaultRule r item action) =
     (if destinationIPCIDRItems r \<noteq> [] then True
      else case item of Some ruleSet \<Rightarrow> ContainsDestinationIPCIDRRule ruleSet | None \<Rightarrow> False)"
| "WithAddressLimit (LogicalRule rules mode inverted action) = list_ex WithAddressLimit rules"

section \<open>Rules that keep the two phases apart\<close>

text \<open>Items that do not look at the resolved addresses.\<close>

fun addrFree :: "RuleItem \<Rightarrow> bool" where
  "addrFree (IPCIDRItem s isSource d) = isSource"
| "addrFree (IPIsPrivateItem isSource) = isSource"
| "addrFree IPAcceptAnyItem = False"
| "addrFree (PreferredByItem tags os) = False"
| "addrFree _ = True"

fun isCIDR :: "RuleItem \<Rightarrow> bool" where
  "isCIDR (IPCIDRItem s isSource d) = True"
| "isCIDR _ = False"

text \<open>
  \<open>defers src x\<close>: \<open>x\<close> has destination IP items that wait for the response, where \<open>src\<close> is the flag
  that turns them to the source. \<open>hasDomain x\<close>: \<open>x\<close> has items of the destination address group that
  are decided before the lookup. \<open>separated src x\<close>: in no rule of \<open>x\<close> can one kind stand in for the
  other, within the rule or between the rule and its rule-sets.
\<close>

fun defers :: "bool \<Rightarrow> 'a rule \<Rightarrow> bool"
and itemDefers :: "'a RuleSetItem \<Rightarrow> bool"
and setDefers :: "bool \<Rightarrow> 'a RuleSet \<Rightarrow> bool" where
  "defers src (DefaultRule r None a) = (\<not> src \<and> destinationIPCIDRItems r \<noteq> [])"
| "defers src (DefaultRule r (Some item) a) =
     (\<not> src \<and> destinationIPCIDRItems r \<noteq> [] \<or> itemDefers item)"
| "defers src (LogicalRule rules mode inverted a) = list_ex (\<lambda>r. defers False r) rules"
| "itemDefers (RuleSetItem tags sets ms ae) = list_ex (\<lambda>s. setDefers ms s) sets"
| "setDefers src (RuleSet tag metadata rules) = list_ex (\<lambda>r. defers src r) rules"

fun hasDomain :: "'a rule \<Rightarrow> bool"
and itemHasDomain :: "'a RuleSetItem \<Rightarrow> bool"
and setHasDomain :: "'a RuleSet \<Rightarrow> bool" where
  "hasDomain (DefaultRule r None a) = (destinationAddressItems r \<noteq> [])"
| "hasDomain (DefaultRule r (Some item) a) = (destinationAddressItems r \<noteq> [] \<or> itemHasDomain item)"
| "hasDomain (LogicalRule rules mode inverted a) = list_ex (\<lambda>r. hasDomain r) rules"
| "itemHasDomain (RuleSetItem tags sets ms ae) = list_ex (\<lambda>s. setHasDomain s) sets"
| "setHasDomain (RuleSet tag metadata rules) = list_ex (\<lambda>r. hasDomain r) rules"

definition separatedItems :: "bool \<Rightarrow> abstractDefaultRule \<Rightarrow> bool" where
  "separatedItems src r \<longleftrightarrow>
     list_all addrFree (items r @ sourceAddressItems r @ sourcePortItems r @ destinationAddressItems r @
       destinationPortItems r) \<and>
     (src \<longrightarrow> list_all isCIDR (destinationIPCIDRItems r)) \<and>
     (destinationAddressItems r = [] \<or> src \<or> destinationIPCIDRItems r = [])"

fun separated :: "bool \<Rightarrow> 'a rule \<Rightarrow> bool"
and itemSeparated :: "'a RuleSetItem \<Rightarrow> bool"
and setSeparated :: "bool \<Rightarrow> 'a RuleSet \<Rightarrow> bool" where
  "separated src (DefaultRule r None a) = separatedItems src r"
| "separated src (DefaultRule r (Some item) a) =
     (separatedItems src r \<and> itemSeparated item \<and>
      (destinationAddressItems r \<noteq> [] \<longrightarrow> \<not> itemDefers item) \<and>
      (\<not> src \<and> destinationIPCIDRItems r \<noteq> [] \<longrightarrow> \<not> itemHasDomain item))"
| "separated src (LogicalRule rules mode inverted a) = list_all (\<lambda>r. separated False r) rules"
| "itemSeparated (RuleSetItem tags sets ms ae) = list_all (\<lambda>s. setSeparated ms s) sets"
| "setSeparated src (RuleSet tag metadata rules) = list_all (\<lambda>r. separated src r) rules"

section \<open>The two phases side by side\<close>

text \<open>
  \<open>pre md\<close> is the metadata of the first phase and \<open>post addrs md\<close> that of the second, with the
  addresses of the response.
\<close>

definition pre :: "InboundContext \<Rightarrow> InboundContext" where
  "pre md = md\<lparr>md_IgnoreDestinationIPCIDRMatch := True\<rparr>"

definition post :: "addr list \<Rightarrow> InboundContext \<Rightarrow> InboundContext" where
  "post addrs md = md\<lparr>md_IgnoreDestinationIPCIDRMatch := False, md_DestinationAddresses := addrs\<rparr>"

lemma phase_fields [simp]:
  "md_IgnoreDestinationIPCIDRMatch (pre md) = True"
  "md_IgnoreDestinationIPCIDRMatch (post addrs md) = False"
  "md_IPCIDRMatchSource (pre md) = md_IPCIDRMatchSource md"
  "md_IPCIDRMatchSource (post addrs md) = md_IPCIDRMatchSource md"
  by (simp_all add: pre_def post_def)

lemma phase_nested:
  "ResetRuleMatchCache (pre md) = pre (ResetRuleMatchCache md)"
  "ResetRuleMatchCache (post addrs md) = post addrs (ResetRuleMatchCache md)"
  "ResetRuleCache (pre md) = pre (ResetRuleCache md)"
  "ResetRuleCache (post addrs md) = post addrs (ResetRuleCache md)"
  "(pre md)\<lparr>md_IPCIDRMatchSource := src, md_IPCIDRAcceptEmpty := emp\<rparr> =
     pre (md\<lparr>md_IPCIDRMatchSource := src, md_IPCIDRAcceptEmpty := emp\<rparr>)"
  "(post addrs md)\<lparr>md_IPCIDRMatchSource := src, md_IPCIDRAcceptEmpty := emp\<rparr> =
     post addrs (md\<lparr>md_IPCIDRMatchSource := src, md_IPCIDRAcceptEmpty := emp\<rparr>)"
  by (simp_all add: pre_def post_def ResetRuleMatchCache_def ResetRuleCache_def)

lemma addrFree_phase:
  "addrFree it \<Longrightarrow> RuleItem_Match env it (post addrs md) = RuleItem_Match env it (pre md)"
  by (cases it) (simp_all add: item_match_defs pre_def post_def)

lemma isCIDR_phase:
  "isCIDR it \<Longrightarrow> md_IPCIDRMatchSource md \<Longrightarrow>
     RuleItem_Match env it (post addrs md) = RuleItem_Match env it (pre md)"
  by (cases it) (simp_all add: item_match_defs pre_def post_def)

text \<open>
  The relation between the states of the first phase, its definitive states and the states of the
  second phase: every final state is found before the lookup up to the destination address, every
  definitive state stays, and where nothing is deferred (\<open>e\<close>) all three agree.
\<close>

definition phaseSim :: "bool \<Rightarrow> group set set \<Rightarrow> group set set \<Rightarrow> group set set \<Rightarrow> bool" where
  "phaseSim e Si Di Sf \<longleftrightarrow>
     (\<forall>s\<in>Sf. \<exists>s'\<in>Si. s \<subseteq> insert DestinationAddress s') \<and>
     (\<forall>s\<in>Di. \<exists>s'\<in>Sf. s \<subseteq> s') \<and> (e \<longrightarrow> Si = Sf \<and> Di = Sf)"

lemma phaseSimI:
  assumes "\<And>s. s \<in> Sf \<Longrightarrow> \<exists>s'\<in>Si. s \<subseteq> insert DestinationAddress s'"
    and "\<And>s. s \<in> Di \<Longrightarrow> \<exists>s'\<in>Sf. s \<subseteq> s'" and "e \<Longrightarrow> Si = Sf \<and> Di = Sf"
  shows "phaseSim e Si Di Sf"
  using assms by (simp add: phaseSim_def)

lemma phaseSimD:
  assumes "phaseSim e Si Di Sf"
  shows "s \<in> Sf \<Longrightarrow> \<exists>s'\<in>Si. s \<subseteq> insert DestinationAddress s'"
    and "s \<in> Di \<Longrightarrow> \<exists>s'\<in>Sf. s \<subseteq> s'" and "e \<Longrightarrow> Si = Sf" and "e \<Longrightarrow> Di = Sf"
  using assms by (simp_all add: phaseSim_def)

lemma phaseSim_single:
  "gi \<subseteq> gf \<Longrightarrow> gf \<subseteq> insert DestinationAddress gi \<Longrightarrow> (e \<Longrightarrow> gi = gf) \<Longrightarrow> phaseSim e {gi} {gi} {gf}"
  by (auto simp: phaseSim_def)

lemma phaseSim_UN:
  "(\<And>x. x \<in> X \<Longrightarrow> phaseSim e (Si x) (Di x) (Sf x)) \<Longrightarrow> phaseSim e (\<Union>x\<in>X. Si x) (\<Union>x\<in>X. Di x) (\<Union>x\<in>X. Sf x)"
proof (rule phaseSimI)
  assume sim: "\<And>x. x \<in> X \<Longrightarrow> phaseSim e (Si x) (Di x) (Sf x)"
  show "\<exists>s'\<in>\<Union> (Si ` X). s \<subseteq> insert DestinationAddress s'" if "s \<in> \<Union> (Sf ` X)" for s
    using that phaseSimD(1) [OF sim] by (metis UN_iff)
  show "\<exists>s'\<in>\<Union> (Sf ` X). s \<subseteq> s'" if "s \<in> \<Union> (Di ` X)" for s
    using that phaseSimD(2) [OF sim] by (metis UN_iff)
  show "\<Union> (Si ` X) = \<Union> (Sf ` X) \<and> \<Union> (Di ` X) = \<Union> (Sf ` X)" if e
    using phaseSimD(3,4) [OF sim that] by simp
qed

lemma phaseSim_combine:
  assumes "phaseSim e (states a) (states b) (states c)" "phaseSim e (states a') (states b') (states c')"
  shows "phaseSim e (states (combine a a')) (states (combine b b')) (states (combine c c'))"
proof -
  have up: "\<exists>s'\<in>states (combine a a'). s \<subseteq> insert DestinationAddress s'" if sc: "s \<in> states (combine c c')" for s
  proof -
    from sc obtain t t' where s: "t \<in> states c" "t' \<in> states c'" "s = t \<union> t'" by auto
    then obtain u u' where "u \<in> states a" "t \<subseteq> insert DestinationAddress u"
      "u' \<in> states a'" "t' \<subseteq> insert DestinationAddress u'"
      using assms by (meson phaseSim_def)
    with s have "u \<union> u' \<in> states (combine a a')" "s \<subseteq> insert DestinationAddress (u \<union> u')" by auto
    then show ?thesis by blast
  qed
  have down: "\<exists>s'\<in>states (combine c c'). s \<subseteq> s'" if sb: "s \<in> states (combine b b')" for s
  proof -
    from sb obtain t t' where s: "t \<in> states b" "t' \<in> states b'" "s = t \<union> t'" by auto
    then obtain u u' where "u \<in> states c" "t \<subseteq> u" "u' \<in> states c'" "t' \<subseteq> u'"
      using assms by (meson phaseSim_def)
    with s have "u \<union> u' \<in> states (combine c c')" "s \<subseteq> u \<union> u'" by auto
    then show ?thesis by blast
  qed
  show ?thesis
    using phaseSimD(3,4) [OF assms(1)] phaseSimD(3,4) [OF assms(2)]
    by (intro phaseSimI up down) simp_all
qed

lemma phaseSim_empty: "phaseSim e Si Di Sf \<Longrightarrow> Si = {} \<Longrightarrow> Sf = {}"
  "phaseSim e Si Di Sf \<Longrightarrow> Sf = {} \<Longrightarrow> Di = {}"
  by (auto simp: phaseSim_def)

text \<open>Inversion: a result that is not definitive is let through, as the code does.\<close>

lemma phaseSim_invert:
  assumes sim: "phaseSim e Si Di Sf"
    and base: "gi \<subseteq> gf" "gf \<subseteq> insert DestinationAddress gi" "e' \<Longrightarrow> e \<and> gi = gf"
  shows "phaseSim e' (if Si = {} \<or> Di = {} then {gi} else {}) (if Si = {} then {gi} else {})
    (if Sf = {} then {gf} else {})"
proof (rule phaseSimI)
  note emp = phaseSim_empty [OF sim]
  show "\<exists>s'\<in>(if Si = {} \<or> Di = {} then {gi} else {}). s \<subseteq> insert DestinationAddress s'"
    if "s \<in> (if Sf = {} then {gf} else {})" for s
    using that emp base(2) by (simp split: if_splits)
  show "\<exists>s'\<in>(if Sf = {} then {gf} else {}). s \<subseteq> s'" if "s \<in> (if Si = {} then {gi} else {})" for s
    using that emp base(1) by (simp split: if_splits)
  show "(if Si = {} \<or> Di = {} then {gi} else {}) = (if Sf = {} then {gf} else {}) \<and>
      (if Si = {} then {gi} else {}) = (if Sf = {} then {gf} else {})" if e'
    using phaseSimD(3,4) [OF sim] base(3) [OF that] by simp
qed

lemma phaseSim_filter:
  assumes sim: "phaseSim e0 Si Di Sf"
    and req: "qi \<subseteq> qf" "qf \<subseteq> insert DestinationAddress qi"
    and dom: "DestinationAddress \<in> qi \<Longrightarrow> e0"
    and dfr: "DestinationAddress \<in> qf \<Longrightarrow> DestinationAddress \<notin> qi \<Longrightarrow> dfr"
    and e: "e \<Longrightarrow> e0 \<and> qi = qf \<and> \<not> dfr"
  shows "phaseSim e {A \<in> Si. qi \<subseteq> A} {A \<in> Di. (dfr \<longrightarrow> DestinationAddress \<in> A) \<and> qi \<subseteq> A} {A \<in> Sf. qf \<subseteq> A}"
proof -
  have up: "\<exists>t\<in>Si. qi \<subseteq> t \<and> s \<subseteq> insert DestinationAddress t" if s: "s \<in> Sf" "qf \<subseteq> s" for s
  proof (cases "DestinationAddress \<in> qi")
    case True
    then have "Si = Sf" using dom sim by (simp add: phaseSim_def)
    then show ?thesis using s req(1) by blast
  next
    case False
    obtain t where "t \<in> Si" "s \<subseteq> insert DestinationAddress t" using sim s(1) by (meson phaseSim_def)
    moreover from this False s(2) req(1) have "qi \<subseteq> t" by auto
    ultimately show ?thesis by blast
  qed
  have down: "\<exists>t\<in>Sf. qf \<subseteq> t \<and> s \<subseteq> t"
    if s: "s \<in> Di" "dfr \<longrightarrow> DestinationAddress \<in> s" "qi \<subseteq> s" for s
  proof -
    obtain t where t: "t \<in> Sf" "s \<subseteq> t" using sim s(1) by (meson phaseSim_def)
    moreover have "qf \<subseteq> s"
      using s(2,3) req(2) dfr by blast
    ultimately show ?thesis by blast
  qed
  show ?thesis
  proof (rule phaseSimI)
    show "\<exists>s'\<in>{A \<in> Si. qi \<subseteq> A}. s \<subseteq> insert DestinationAddress s'" if "s \<in> {A \<in> Sf. qf \<subseteq> A}" for s
      using up [of s] that by (metis (no_types, lifting) mem_Collect_eq)
    show "\<exists>s'\<in>{A \<in> Sf. qf \<subseteq> A}. s \<subseteq> s'"
      if "s \<in> {A \<in> Di. (dfr \<longrightarrow> DestinationAddress \<in> A) \<and> qi \<subseteq> A}" for s
      using down [of s] that by (metis (no_types, lifting) mem_Collect_eq)
    show "{A \<in> Si. qi \<subseteq> A} = {A \<in> Sf. qf \<subseteq> A} \<and>
        {A \<in> Di. (dfr \<longrightarrow> DestinationAddress \<in> A) \<and> qi \<subseteq> A} = {A \<in> Sf. qf \<subseteq> A}" if e
      using phaseSimD(3,4) [OF sim] e [OF that] by simp
  qed
qed

section \<open>Default rules in the two phases\<close>

definition baseRel :: "ruleMatchState \<Rightarrow> ruleMatchState \<Rightarrow> bool" where
  "baseRel bi bf \<longleftrightarrow> validState bi \<and> validState bf \<and> groups bi \<subseteq> groups bf \<and>
     groups bf \<subseteq> insert DestinationAddress (groups bi)"

text \<open>
  The contract of a matcher over the phases; \<open>df\<close> says that it may defer and \<open>hasDom\<close> that it has
  domain items, for which the two bases must agree.
\<close>

definition matcherSim :: "bool \<Rightarrow> bool \<Rightarrow> matcher \<Rightarrow> InboundContext \<Rightarrow> addr list \<Rightarrow> bool" where
  "matcherSim df hasDom m md addrs \<longleftrightarrow>
     (\<forall>bi bf. baseRel bi bf \<longrightarrow> (hasDom \<longrightarrow> bi = bf) \<longrightarrow>
        phaseSim (\<not> df \<and> bi = bf) (states (fst (m (pre md) bi)))
          (states (definitive (snd (m (pre md) bi)))) (states (fst (m (post addrs md) bf))))"

lemma matcherSimI:
  "(\<And>bi bf. baseRel bi bf \<Longrightarrow> (hasDom \<Longrightarrow> bi = bf) \<Longrightarrow>
     phaseSim (\<not> df \<and> bi = bf) (states (fst (m (pre md) bi)))
       (states (definitive (snd (m (pre md) bi)))) (states (fst (m (post addrs md) bf)))) \<Longrightarrow>
   matcherSim df hasDom m md addrs"
  by (simp add: matcherSim_def)

lemma matcherSimD:
  "matcherSim df hasDom m md addrs \<Longrightarrow> baseRel bi bf \<Longrightarrow> (hasDom \<Longrightarrow> bi = bf) \<Longrightarrow>
     phaseSim (\<not> df \<and> bi = bf) (states (fst (m (pre md) bi)))
       (states (definitive (snd (m (pre md) bi)))) (states (fst (m (post addrs md) bf)))"
  by (simp add: matcherSim_def)

lemma phaseSim_mono: "phaseSim e Si Di Sf \<Longrightarrow> (e' \<Longrightarrow> e) \<Longrightarrow> phaseSim e' Si Di Sf"
  by (auto simp: phaseSim_def)

lemma matchAny_phase:
  "list_all addrFree its \<Longrightarrow> matchAnyItem env its (post addrs md) = matchAnyItem env its (pre md)"
  "list_all isCIDR its \<Longrightarrow> md_IPCIDRMatchSource md \<Longrightarrow>
     matchAnyItem env its (post addrs md) = matchAnyItem env its (pre md)"
  by (induction its) (auto simp: matchAnyItem_def addrFree_phase isCIDR_phase)

lemma items_phase:
  "separatedItems src r \<Longrightarrow>
     list_all (\<lambda>it. RuleItem_Match env it (post addrs md)) (items r) =
     list_all (\<lambda>it. RuleItem_Match env it (pre md)) (items r)"
  by (auto simp: separatedItems_def list_all_iff addrFree_phase)

lemma group_phase:
  assumes "separatedItems (md_IPCIDRMatchSource md) r"
  shows "g \<noteq> DestinationAddress \<Longrightarrow> g \<in> matchedGroups env r (post addrs md) \<longleftrightarrow> g \<in> matchedGroups env r (pre md)"
    and "DestinationAddress \<in> matchedGroups env r (pre md) \<Longrightarrow> DestinationAddress \<in> matchedGroups env r (post addrs md)"
    and "md_IPCIDRMatchSource md \<or> destinationIPCIDRItems r = [] \<Longrightarrow>
      matchedGroups env r (post addrs md) = matchedGroups env r (pre md)"
proof -
  note sep = assms [unfolded separatedItems_def list_all_append]
  have any: "matchAnyItem env (sourceAddressItems r) (post addrs md) = matchAnyItem env (sourceAddressItems r) (pre md)"
    "matchAnyItem env (sourcePortItems r) (post addrs md) = matchAnyItem env (sourcePortItems r) (pre md)"
    "matchAnyItem env (destinationAddressItems r) (post addrs md) = matchAnyItem env (destinationAddressItems r) (pre md)"
    "matchAnyItem env (destinationPortItems r) (post addrs md) = matchAnyItem env (destinationPortItems r) (pre md)"
    "md_IPCIDRMatchSource md \<Longrightarrow>
      matchAnyItem env (destinationIPCIDRItems r) (post addrs md) = matchAnyItem env (destinationIPCIDRItems r) (pre md)"
    using sep by (simp_all add: matchAny_phase)
  note defs = matchedGroups_def destinationIPCIDRMatchesSource_def destinationIPCIDRMatchesDestination_def
  show other: "g \<noteq> DestinationAddress \<Longrightarrow>
      g \<in> matchedGroups env r (post addrs md) \<longleftrightarrow> g \<in> matchedGroups env r (pre md)" for g
    by (cases g) (simp_all add: defs any cong: conj_cong)
  show "DestinationAddress \<in> matchedGroups env r (pre md) \<Longrightarrow>
      DestinationAddress \<in> matchedGroups env r (post addrs md)"
    by (simp add: defs any)
  assume "md_IPCIDRMatchSource md \<or> destinationIPCIDRItems r = []"
  then have "DestinationAddress \<in> matchedGroups env r (post addrs md) \<longleftrightarrow>
      DestinationAddress \<in> matchedGroups env r (pre md)"
    by (elim disjE) (simp_all add: defs any(3))
  then have "g \<in> matchedGroups env r (post addrs md) \<longleftrightarrow> g \<in> matchedGroups env r (pre md)" for g
    using other [of g] by (cases "g = DestinationAddress") simp_all
  then show "matchedGroups env r (post addrs md) = matchedGroups env r (pre md)" by (rule set_eqI)
qed

lemma required_phase:
  "requiredGroups r (pre md) \<subseteq> requiredGroups r (post addrs md)"
  "requiredGroups r (post addrs md) \<subseteq> insert DestinationAddress (requiredGroups r (pre md))"
  "DestinationAddress \<in> requiredGroups r (pre md) \<longleftrightarrow> destinationAddressItems r \<noteq> []"
  "DestinationAddress \<in> requiredGroups r (post addrs md) \<longleftrightarrow>
     destinationAddressItems r \<noteq> [] \<or> \<not> md_IPCIDRMatchSource md \<and> destinationIPCIDRItems r \<noteq> []"
  by (auto simp: requiredGroups_def requiresSourceAddressMatch_def requiresDestinationAddressMatch_def
      destinationIPCIDRMatchesSource_def destinationIPCIDRMatchesDestination_def split: group.splits)

lemma states_deferred_filter:
  "states (if deferredGroups r md \<noteq> 0
     then filterStates d (\<lambda>state. deferredGroups r md AND NOT state = 0) else d) =
   {A \<in> states d. deferredGroups r md \<noteq> 0 \<longrightarrow> DestinationAddress \<in> A}"
proof -
  have "ruleMatchDestinationAddress AND NOT x = 0 \<longleftrightarrow> DestinationAddress \<in> groups x" for x
    using and_exp_eq_0_iff_not_bit [of "NOT x" 2]
    by (simp add: ruleMatchDestinationAddress_def groups_def and.commute bit_not_iff)
  then have "states (filterStates d (\<lambda>state. ruleMatchDestinationAddress AND NOT state = 0)) =
      {A \<in> states d. DestinationAddress \<in> A}"
    by (rule states_filterStates)
  then show ?thesis by (simp add: deferredGroups_def)
qed

lemma deferred_pre:
  "deferredGroups r (pre md) \<noteq> 0 \<longleftrightarrow>
     \<not> md_IPCIDRMatchSource md \<and> destinationIPCIDRItems r \<noteq> [] \<and> destinationAddressItems r = []"
  by (simp add: deferredGroups_def ruleMatchDestinationAddress_def)

lemma states_default_any:
  assumes "pred_option state_matcher rs" "validState b" "allItems r \<noteq> []"
  shows "states (fst (abstractDefaultRule_matchStatesWithBase env r rs md b)) =
    (if invert r then
       (if states (fst (defaultPositive env r rs md 0)) = {} \<or> states (snd (defaultPositive env r rs md 0)) = {}
        then {groups b} else {})
     else states (fst (defaultPositive env r rs md b)))"
    and "states (definitive (snd (abstractDefaultRule_matchStatesWithBase env r rs md b))) =
    (if invert r then (if states (fst (defaultPositive env r rs md 0)) = {} then {groups b} else {})
     else states (snd (defaultPositive env r rs md b)))"
proof -
  note dle = defaultPositive_facts(2) [where rs = rs and md = md and env = env and r = r, OF assms(1)]
  obtain s d t u where p: "defaultPositive env r rs md 0 = (s, d)" "defaultPositive env r rs md b = (t, u)"
    by fastforce
  have "t = 0 \<Longrightarrow> u = 0" using dle [OF assms(2)] p rms.sts_empty_iff [of u] by simp
  show "states (fst (abstractDefaultRule_matchStatesWithBase env r rs md b)) =
    (if invert r then
       (if states (fst (defaultPositive env r rs md 0)) = {} \<or> states (snd (defaultPositive env r rs md 0)) = {}
        then {groups b} else {})
     else states (fst (defaultPositive env r rs md b)))"
    using assms(2,3) by (cases "invert r") (simp_all add: default_eq [OF assms(1)] p invertedFailure_def Let_def rms.sts_empty_iff)
  show "states (definitive (snd (abstractDefaultRule_matchStatesWithBase env r rs md b))) =
    (if invert r then (if states (fst (defaultPositive env r rs md 0)) = {} then {groups b} else {})
     else states (snd (defaultPositive env r rs md b)))"
    using assms(2,3) \<open>t = 0 \<Longrightarrow> u = 0\<close>
    by (cases "invert r") (simp_all add: default_eq [OF assms(1)] p invertedFailure_def Let_def rms.sts_empty_iff)
qed

lemma base_phase:
  assumes sep: "separatedItems (md_IPCIDRMatchSource md) r" and b: "baseRel ei ef"
  shows "baseRel (defaultBaseState env r (pre md) ei) (defaultBaseState env r (post addrs md) ef)"
    and "md_IPCIDRMatchSource md \<or> destinationIPCIDRItems r = [] \<Longrightarrow> ei = ef \<Longrightarrow>
      defaultBaseState env r (pre md) ei = defaultBaseState env r (post addrs md) ef"
proof -
  have le: "matchedGroups env r (pre md) \<subseteq> matchedGroups env r (post addrs md)"
    using group_phase(1,2) [OF sep] by (metis subsetI)
  have ge: "matchedGroups env r (post addrs md) \<subseteq> insert DestinationAddress (matchedGroups env r (pre md))"
    using group_phase(1) [OF sep] by (metis insertI1 insertI2 subsetI)
  have v: "validState ei" "validState ef" using b by (simp_all add: baseRel_def)
  show "baseRel (defaultBaseState env r (pre md) ei) (defaultBaseState env r (post addrs md) ef)"
    using b le ge unfolding baseRel_def groups_defaultBaseState by (auto intro: valid_defaultBaseState)
  assume "md_IPCIDRMatchSource md \<or> destinationIPCIDRItems r = []" and e: "ei = ef"
  then have "groups (defaultBaseState env r (pre md) ei) = groups (defaultBaseState env r (post addrs md) ef)"
    using group_phase(3) [OF sep] by (simp add: groups_defaultBaseState)
  then show "defaultBaseState env r (pre md) ei = defaultBaseState env r (post addrs md) ef"
    using v by (intro groups_inject valid_defaultBaseState)
qed

lemma states_defaultPositive_snd:
  "states (snd (defaultPositive env r rs md b)) =
     (if list_all (\<lambda>it. RuleItem_Match env it md) (items r)
      then {A \<in> states (snd (ruleSetResult rs md (defaultBaseState env r md b))).
              (deferredGroups r md \<noteq> 0 \<longrightarrow> DestinationAddress \<in> A) \<and> requiredGroups r md \<subseteq> A}
      else {})"
proof (cases "list_all (\<lambda>it. RuleItem_Match env it md) (items r)")
  case True
  obtain s d where p: "ruleSetResult rs md (defaultBaseState env r md b) = (s, d)" by fastforce
  have "snd (defaultPositive env r rs md b) =
      filterStates (if deferredGroups r md \<noteq> 0
        then filterStates d (\<lambda>state. deferredGroups r md AND NOT state = 0) else d) (stateFilter r md)"
    using True p by (simp add: defaultPositive_def)
  then have "states (snd (defaultPositive env r rs md b)) =
      {A \<in> {A \<in> states d. deferredGroups r md \<noteq> 0 \<longrightarrow> DestinationAddress \<in> A}. requiredGroups r md \<subseteq> A}"
    by (simp only: states_stateFilter states_deferred_filter)
  with True p show ?thesis by auto
qed (simp add: defaultPositive_def)

lemma ruleSetResult_phase:
  assumes rs: "\<And>m. rs = Some m \<Longrightarrow> matcherSim idf idom m md addrs"
    and b: "baseRel bi bf" and eq: "idom \<Longrightarrow> rs \<noteq> None \<Longrightarrow> bi = bf"
  shows "phaseSim ((rs = None \<or> \<not> idf) \<and> bi = bf) (states (fst (ruleSetResult rs (pre md) bi)))
    (states (snd (ruleSetResult rs (pre md) bi))) (states (fst (ruleSetResult rs (post addrs md) bf)))"
proof (cases rs)
  case None
  then show ?thesis
    using b by (auto simp: ruleSetResult_def baseRel_def intro!: phaseSim_single)
next
  case (Some m)
  then show ?thesis
    using matcherSimD [OF rs [OF Some] b] eq by (simp add: ruleSetResult_def)
qed

lemma positive_phase:
  assumes sep: "separatedItems (md_IPCIDRMatchSource md) r"
    and rs: "\<And>m. rs = Some m \<Longrightarrow> matcherSim idf idom m md addrs"
    and sep1: "destinationAddressItems r \<noteq> [] \<Longrightarrow> rs = None \<or> \<not> idf"
    and sep2: "\<not> md_IPCIDRMatchSource md \<and> destinationIPCIDRItems r \<noteq> [] \<Longrightarrow> rs = None \<or> \<not> idom"
    and b: "baseRel ei ef" and eq: "destinationAddressItems r \<noteq> [] \<or> rs \<noteq> None \<and> idom \<Longrightarrow> ei = ef"
    and e: "e \<Longrightarrow> (md_IPCIDRMatchSource md \<or> destinationIPCIDRItems r = []) \<and> (rs = None \<or> \<not> idf) \<and> ei = ef"
  shows "phaseSim e (states (fst (defaultPositive env r rs (pre md) ei)))
    (states (snd (defaultPositive env r rs (pre md) ei))) (states (fst (defaultPositive env r rs (post addrs md) ef)))"
proof (cases "list_all (\<lambda>it. RuleItem_Match env it (pre md)) (items r)")
  case False
  then show ?thesis
    by (simp add: states_defaultPositive states_defaultPositive_snd items_phase [OF sep] phaseSim_def)
next
  case True
  let ?bi = "defaultBaseState env r (pre md) ei" and ?bf = "defaultBaseState env r (post addrs md) ef"
  let ?e0 = "(rs = None \<or> \<not> idf) \<and> ?bi = ?bf"
  have same: "md_IPCIDRMatchSource md \<or> destinationIPCIDRItems r = []"
    if "destinationAddressItems r \<noteq> []" using sep that by (auto simp: separatedItems_def)
  have "idom \<Longrightarrow> rs \<noteq> None \<Longrightarrow> ?bi = ?bf"
    using base_phase(2) [OF sep b] sep2 eq by blast
  from ruleSetResult_phase [OF rs base_phase(1) [OF sep b] this]
  have sim: "phaseSim ?e0 (states (fst (ruleSetResult rs (pre md) ?bi)))
      (states (snd (ruleSetResult rs (pre md) ?bi))) (states (fst (ruleSetResult rs (post addrs md) ?bf)))"
    by blast
  have "phaseSim e {A \<in> states (fst (ruleSetResult rs (pre md) ?bi)). requiredGroups r (pre md) \<subseteq> A}
     {A \<in> states (snd (ruleSetResult rs (pre md) ?bi)).
        (deferredGroups r (pre md) \<noteq> 0 \<longrightarrow> DestinationAddress \<in> A) \<and> requiredGroups r (pre md) \<subseteq> A}
     {A \<in> states (fst (ruleSetResult rs (post addrs md) ?bf)). requiredGroups r (post addrs md) \<subseteq> A}"
  proof (rule phaseSim_filter [OF sim required_phase(1,2)])
    show "?e0" if "DestinationAddress \<in> requiredGroups r (pre md)"
      using that same sep1 base_phase(2) [OF sep b] eq unfolding required_phase(3) by blast
    show "deferredGroups r (pre md) \<noteq> 0"
      if "DestinationAddress \<in> requiredGroups r (post addrs md)" "DestinationAddress \<notin> requiredGroups r (pre md)"
      using that unfolding required_phase(3,4) deferred_pre by blast
    show "?e0 \<and> requiredGroups r (pre md) = requiredGroups r (post addrs md) \<and> \<not> deferredGroups r (pre md) \<noteq> 0" if e
    proof -
      have "requiredGroups r (post addrs md) \<subseteq> requiredGroups r (pre md)"
        using required_phase(2) [of r addrs md] required_phase(3) [of r md]
          required_phase(4) [of r addrs md] e [OF that] by blast
      then show ?thesis
        using required_phase(1) [of r md addrs] base_phase(2) [OF sep b] e [OF that] unfolding deferred_pre by blast
    qed
  qed
  then show ?thesis
    using True by (simp only: states_defaultPositive states_defaultPositive_snd items_phase [OF sep] if_True)
qed

lemma baseRel_0: "baseRel 0 0"
  by (simp add: baseRel_def)

lemma matcherSim_default:
  assumes sm: "pred_option state_matcher rs" and sep: "separatedItems (md_IPCIDRMatchSource md) r"
    and rs: "\<And>m. rs = Some m \<Longrightarrow> matcherSim idf idom m md addrs"
    and sep1: "destinationAddressItems r \<noteq> [] \<Longrightarrow> rs = None \<or> \<not> idf"
    and sep2: "\<not> md_IPCIDRMatchSource md \<and> destinationIPCIDRItems r \<noteq> [] \<Longrightarrow> rs = None \<or> \<not> idom"
  shows "matcherSim (\<not> md_IPCIDRMatchSource md \<and> destinationIPCIDRItems r \<noteq> [] \<or> rs \<noteq> None \<and> idf)
    (destinationAddressItems r \<noteq> [] \<or> rs \<noteq> None \<and> idom)
    (abstractDefaultRule_matchStatesWithBase env r rs) md addrs"
proof (rule matcherSimI)
  fix bi bf
  assume b: "baseRel bi bf" and eq: "destinationAddressItems r \<noteq> [] \<or> rs \<noteq> None \<and> idom \<Longrightarrow> bi = bf"
  let ?m = "abstractDefaultRule_matchStatesWithBase env r rs"
  let ?e = "\<not> (\<not> md_IPCIDRMatchSource md \<and> destinationIPCIDRItems r \<noteq> [] \<or> rs \<noteq> None \<and> idf) \<and> bi = bf"
  let ?e1 = "\<not> (\<not> md_IPCIDRMatchSource md \<and> destinationIPCIDRItems r \<noteq> [] \<or> rs \<noteq> None \<and> idf)"
  have v: "validState bi" "validState bf" "groups bi \<subseteq> groups bf"
    "groups bf \<subseteq> insert DestinationAddress (groups bi)" using b by (simp_all add: baseRel_def)
  note pos = positive_phase [where env = env, OF sep rs sep1 sep2]
  show "phaseSim ?e (states (fst (?m (pre md) bi))) (states (definitive (snd (?m (pre md) bi))))
      (states (fst (?m (post addrs md) bf)))"
  proof (cases "allItems r = []")
    case True
    then show ?thesis using v
      by (auto simp: abstractDefaultRule_matchStatesWithBase_def Let_def intro!: phaseSim_single)
  next
    case False
    note st = states_default_any [OF sm _ False]
    show ?thesis
    proof (cases "invert r")
      case True
      have "phaseSim ?e1 (states (fst (defaultPositive env r rs (pre md) 0)))
          (states (snd (defaultPositive env r rs (pre md) 0))) (states (fst (defaultPositive env r rs (post addrs md) 0)))"
        by (rule pos [OF _ _ _ baseRel_0]) auto
      from phaseSim_invert [OF this v(3,4), of ?e]
      show ?thesis using True v st states_default [OF sm v(2) _ False, of "post addrs md"] by auto
    next
      case False
      have "phaseSim ?e (states (fst (defaultPositive env r rs (pre md) bi)))
          (states (snd (defaultPositive env r rs (pre md) bi))) (states (fst (defaultPositive env r rs (post addrs md) bf)))"
        by (rule pos [OF _ _ _ b eq]) auto
      then show ?thesis using False v st by simp
    qed
  qed
qed

section \<open>Alternatives and logical rules in the two phases\<close>

lemma matcherSim_mono:
  "matcherSim df hasDom m md addrs \<Longrightarrow> (df \<Longrightarrow> df') \<Longrightarrow> (hasDom \<Longrightarrow> hasDom') \<Longrightarrow> matcherSim df' hasDom' m md addrs"
  unfolding matcherSim_def by (metis phaseSim_mono)

lemma merge_phase:
  assumes "\<And>m. m \<in> set ms \<Longrightarrow> matcherSim df hasDom m md addrs" "baseRel bi bf" "hasDom \<Longrightarrow> bi = bf"
  shows "phaseSim (\<not> df \<and> bi = bf) (states (fst (mergeMatchers ms (pre md) bi)))
    (states (snd (mergeMatchers ms (pre md) bi))) (states (fst (mergeMatchers ms (post addrs md) bf)))"
  unfolding states_mergeMatchers using assms by (intro phaseSim_UN matcherSimD)

lemma matcherSim_ruleSet:
  assumes "\<And>m. m \<in> set ms \<Longrightarrow> matcherSim df hasDom m (ResetRuleMatchCache md) addrs"
  shows "matcherSim df hasDom (RuleSet_matchStatesWithBase ms) md addrs"
  using merge_phase [OF assms]
  by (intro matcherSimI) (simp add: RuleSet_matchStatesWithBase_def phase_nested Let_def case_prod_unfold)

lemma matcherSim_ruleSetItem:
  assumes "\<And>m. m \<in> set ms \<Longrightarrow> matcherSim df hasDom m
       ((ResetRuleMatchCache md)\<lparr>md_IPCIDRMatchSource := src, md_IPCIDRAcceptEmpty := emp\<rparr>) addrs"
  shows "matcherSim df hasDom (RuleSetItem_matchStatesWithBase ms src emp) md addrs"
  using merge_phase [OF assms]
  by (intro matcherSimI) (simp add: RuleSetItem_matchStatesWithBase_def phase_nested Let_def case_prod_unfold)

lemma states_logicalPositive_and:
  assumes "list_all state_matcher ms" "validState b" "mode = ''and''"
  shows "states (fst (logicalPositive ms mode md b)) =
      states (foldl combine (withBase emptyRuleMatchState b) (map (\<lambda>m. fst (m (ResetRuleCache md) b)) ms))"
    and "states (snd (logicalPositive ms mode md b)) =
      states (foldl combine (withBase emptyRuleMatchState b) (map (\<lambda>m. definitive (snd (m (ResetRuleCache md) b))) ms))"
proof -
  let ?md = "ResetRuleCache md"
  let ?S = "foldl combine (withBase emptyRuleMatchState b) (map (\<lambda>m. fst (m ?md b)) ms)"
  let ?D = "foldl combine (withBase emptyRuleMatchState b) (map (\<lambda>m. definitive (snd (m ?md b))) ms)"
  have sm: "state_matcher m" if "m \<in> set ms" for m using assms(1) that by (simp add: list_all_iff)
  have "list_all2 (\<lambda>y x. states y \<subseteq> states x)
      (map (\<lambda>m. definitive (snd (m ?md b))) ms) (map (\<lambda>m. fst (m ?md b)) ms)"
    using state_matcher.definitive_le [OF sm assms(2)] by (simp add: list_all2_conv_all_nth)
  then have le: "states ?D \<subseteq> states ?S" by (intro foldl_combine_mono) simp
  have emp: "\<exists>m\<in>set ms. isEmpty (fst (m ?md b)) \<Longrightarrow> states ?S = {}"
    by (simp add: foldl_combine_empty)
  have lp: "logicalPositive ms mode md b = (if \<exists>m\<in>set ms. isEmpty (fst (m ?md b)) then (0, 0) else (?S, ?D))"
    using assms(3) by (simp add: logicalPositive_def Let_def andMatchers_eq del: isEmpty_states)
  show "states (fst (logicalPositive ms mode md b)) = states ?S"
    by (cases "\<exists>m\<in>set ms. isEmpty (fst (m ?md b))") (use lp emp in \<open>simp_all del: isEmpty_states\<close>)
  show "states (snd (logicalPositive ms mode md b)) = states ?D"
    by (cases "\<exists>m\<in>set ms. isEmpty (fst (m ?md b))") (use lp emp le in \<open>simp_all del: isEmpty_states\<close>)
qed

lemma fold_phase:
  assumes "phaseSim e (states a) (states b) (states c)"
    and "\<And>m. m \<in> set ms \<Longrightarrow> phaseSim e (states (f m)) (states (g m)) (states (h m))"
  shows "phaseSim e (states (foldl combine a (map f ms))) (states (foldl combine b (map g ms)))
    (states (foldl combine c (map h ms)))"
  using assms
proof (induction ms arbitrary: a b c)
  case (Cons m ms)
  have "phaseSim e (states (combine a (f m))) (states (combine b (g m))) (states (combine c (h m)))"
    using Cons.prems by (intro phaseSim_combine) simp_all
  then show ?case using Cons.IH Cons.prems(2) by (simp del: states_combine)
qed simp

lemma logicalPositive_phase:
  assumes sm: "list_all state_matcher ms"
    and ms: "\<And>m. m \<in> set ms \<Longrightarrow> matcherSim df hasDom m (ResetRuleCache md) addrs"
    and b: "baseRel bi bf" and eq: "hasDom \<Longrightarrow> bi = bf"
  shows "phaseSim (\<not> df \<and> bi = bf) (states (fst (logicalPositive ms mode (pre md) bi)))
    (states (snd (logicalPositive ms mode (pre md) bi))) (states (fst (logicalPositive ms mode (post addrs md) bf)))"
proof (cases "mode = ''and''")
  case True
  have v: "validState bi" "validState bf" using b by (simp_all add: baseRel_def)
  have start: "phaseSim (\<not> df \<and> bi = bf) (states (withBase emptyRuleMatchState bi))
      (states (withBase emptyRuleMatchState bi)) (states (withBase emptyRuleMatchState bf))"
    using b by (auto simp: baseRel_def intro!: phaseSim_single)
  show ?thesis
    unfolding states_logicalPositive_and [OF sm v(1) True] states_logicalPositive_and [OF sm v(2) True] phase_nested
    by (rule fold_phase [OF start]) (rule matcherSimD [OF ms b eq])
next
  case False
  then show ?thesis using merge_phase [OF ms b eq] by (simp add: logicalPositive_def phase_nested)
qed

lemma states_logical_any:
  assumes "list_all state_matcher ms" "validState b"
  shows "states (fst (abstractLogicalRule_matchStatesWithBase ms mode inverted md b)) =
    (if inverted then
       (if states (fst (logicalPositive ms mode md 0)) = {} \<or> states (snd (logicalPositive ms mode md 0)) = {}
        then {groups b} else {})
     else states (fst (logicalPositive ms mode md b)))"
    and "states (definitive (snd (abstractLogicalRule_matchStatesWithBase ms mode inverted md b))) =
    (if inverted then (if states (fst (logicalPositive ms mode md 0)) = {} then {groups b} else {})
     else states (snd (logicalPositive ms mode md b)))"
proof -
  note dle = logicalPositive_facts(2) [where ms = ms and md = md and mode = mode, OF assms(1)]
  obtain s d t u where p: "logicalPositive ms mode md 0 = (s, d)" "logicalPositive ms mode md b = (t, u)"
    by fastforce
  have tu: "t = 0 \<Longrightarrow> u = 0" using dle [OF assms(2)] p rms.sts_empty_iff [of u] by simp
  note unf = logical_eq [OF assms(2)] p logicalFailure_def logicalSuccess_def Let_def rms.sts_empty_iff
  show "states (fst (abstractLogicalRule_matchStatesWithBase ms mode inverted md b)) =
    (if inverted then
       (if states (fst (logicalPositive ms mode md 0)) = {} \<or> states (snd (logicalPositive ms mode md 0)) = {}
        then {groups b} else {})
     else states (fst (logicalPositive ms mode md b)))"
    using assms(2) by (cases inverted) (simp_all add: unf)
  show "states (definitive (snd (abstractLogicalRule_matchStatesWithBase ms mode inverted md b))) =
    (if inverted then (if states (fst (logicalPositive ms mode md 0)) = {} then {groups b} else {})
     else states (snd (logicalPositive ms mode md b)))"
    using assms(2) tu by (cases inverted) (simp_all add: unf)
qed

lemma matcherSim_logical:
  assumes sm: "list_all state_matcher ms"
    and ms: "\<And>m. m \<in> set ms \<Longrightarrow> matcherSim df hasDom m (ResetRuleCache md) addrs"
  shows "matcherSim df hasDom (abstractLogicalRule_matchStatesWithBase ms mode inverted) md addrs"
proof (rule matcherSimI)
  fix bi bf
  assume b: "baseRel bi bf" and eq: "hasDom \<Longrightarrow> bi = bf"
  let ?m = "abstractLogicalRule_matchStatesWithBase ms mode inverted"
  have v: "validState bi" "validState bf" "groups bi \<subseteq> groups bf"
    "groups bf \<subseteq> insert DestinationAddress (groups bi)" using b by (simp_all add: baseRel_def)
  note st = states_logical_any [OF sm]
  show "phaseSim (\<not> df \<and> bi = bf) (states (fst (?m (pre md) bi))) (states (definitive (snd (?m (pre md) bi))))
      (states (fst (?m (post addrs md) bf)))"
  proof (cases inverted)
    case True
    have "phaseSim (\<not> df \<and> (0 :: ruleMatchState) = 0) (states (fst (logicalPositive ms mode (pre md) 0)))
        (states (snd (logicalPositive ms mode (pre md) 0))) (states (fst (logicalPositive ms mode (post addrs md) 0)))"
      by (rule logicalPositive_phase [OF sm ms baseRel_0]) simp_all
    from phaseSim_invert [OF this v(3,4), of "\<not> df \<and> bi = bf"]
    show ?thesis using True v st states_logical [OF sm v(2), of "post addrs md"] by auto
  next
    case False
    then show ?thesis using logicalPositive_phase [OF sm ms b eq] v st by simp
  qed
qed

section \<open>All rules\<close>

lemma matcherSim_all:
  fixes x :: "'a rule" and item :: "'a RuleSetItem" and s :: "'a RuleSet"
  shows "\<And>md. separated (md_IPCIDRMatchSource md) x \<Longrightarrow>
      matcherSim (defers (md_IPCIDRMatchSource md) x) (hasDomain x) (matchStatesWithBase env x) md addrs"
    and "\<And>md. itemSeparated item \<Longrightarrow>
      matcherSim (itemDefers item) (itemHasDomain item) (ruleSetItem_matchStatesWithBase env item) md addrs"
    and "\<And>md. setSeparated (md_IPCIDRMatchSource md) s \<Longrightarrow>
      matcherSim (setDefers (md_IPCIDRMatchSource md) s) (setHasDomain s) (ruleSet_matchStatesWithBase env s) md addrs"
proof (induction x and item and s)
  case (DefaultRule r item action)
  show ?case
  proof (cases item)
    case None
    with DefaultRule.prems show ?thesis
      using matcherSim_default [where rs = None and idf = False and idom = False and r = r and md = md] by (simp add: matcher_eqs)
  next
    case (Some it)
    have sm: "pred_option state_matcher (Some (ruleSetItem_matchStatesWithBase env it))"
      by (simp add: state_matcher_all)
    have ih: "matcherSim (itemDefers it) (itemHasDomain it) (ruleSetItem_matchStatesWithBase env it) md addrs"
      using DefaultRule Some by simp
    show ?thesis
      using matcherSim_default [OF sm, of md r "itemDefers it" "itemHasDomain it" addrs env] ih DefaultRule.prems Some
      by (simp add: matcher_eqs)
  qed
next
  case (LogicalRule rules mode inverted action)
  have "matcherSim (list_ex (\<lambda>r. defers False r) rules) (list_ex (\<lambda>r. hasDomain r) rules)
      (matchStatesWithBase env r) (ResetRuleCache md) addrs" if "r \<in> set rules" for r
    by (rule matcherSim_mono [OF LogicalRule.IH [OF that]])
       (use LogicalRule.prems that in \<open>auto simp: list_all_iff list_ex_iff\<close>)
  then show ?case by (auto simp: matcher_eqs intro!: matcherSim_logical)
next
  case (RuleSetItem tags sets src emp)
  let ?md = "(ResetRuleMatchCache md)\<lparr>md_IPCIDRMatchSource := src, md_IPCIDRAcceptEmpty := emp\<rparr>"
  have "matcherSim (list_ex (\<lambda>s. setDefers src s) sets) (list_ex (\<lambda>s. setHasDomain s) sets)
      (ruleSet_matchStatesWithBase env s) ?md addrs" if "s \<in> set sets" for s
    by (rule matcherSim_mono [OF RuleSetItem.IH [OF that]])
       (use RuleSetItem.prems that in \<open>auto simp: list_all_iff list_ex_iff\<close>)
  then show ?case by (auto simp: matcher_eqs intro!: matcherSim_ruleSetItem)
next
  case (RuleSet tag metadata rules)
  have "matcherSim (list_ex (\<lambda>r. defers (md_IPCIDRMatchSource md) r) rules) (list_ex (\<lambda>r. hasDomain r) rules)
      (matchStatesWithBase env r) (ResetRuleMatchCache md) addrs" if "r \<in> set rules" for r
    by (rule matcherSim_mono [OF RuleSet.IH [OF that]])
       (use RuleSet.prems that in \<open>auto simp: list_all_iff list_ex_iff\<close>)
  then show ?case by (auto simp: matcher_eqs intro!: matcherSim_ruleSet)
qed

lemma dns_phases:
  fixes r :: "'a rule"
  assumes "separated False r" "\<not> md_IPCIDRMatchSource md" "\<not> md_IgnoreDestinationIPCIDRMatch md"
  shows "phaseSim (\<not> defers False r) (states (fst (matchStates env r (pre md))))
      (states (definitive (snd (matchStates env r (pre md)))))
      (states (fst (matchStates env r (md\<lparr>md_DestinationAddresses := addrs\<rparr>))))"
proof -
  have md: "post addrs md = md\<lparr>md_DestinationAddresses := addrs\<rparr>"
    using assms(3) by (simp add: post_def)
  have "matcherSim (defers False r) (hasDomain r) (matchStatesWithBase env r) md addrs"
    using matcherSim_all(1) [of md r env addrs] assms by simp
  from matcherSimD [OF this baseRel_0] show ?thesis by (simp add: matchStates_def md)
qed

lemma dnsRule_Match_states: "fst (dnsRule_Match env r md) \<longleftrightarrow> states (fst (matchStates env r (pre md))) \<noteq> {}"
  by (simp add: dnsRule_Match_def pre_def case_prod_unfold Let_def)

lemma MatchAddressLimit_states: "fst (MatchAddressLimit env r md) \<longleftrightarrow> states (fst (matchStates env r md)) \<noteq> {}"
  by (simp add: MatchAddressLimit_def case_prod_unfold Let_def)

section \<open>Rules without an address limit\<close>

text \<open>
  The metadata of the rule-sets is accurate for a rule: a set says that it has IP CIDR rules when
  one of its rules waits for the response, and no set that matches sources has such a rule.
\<close>

fun itemAccurate :: "'a RuleSetItem \<Rightarrow> bool" where
  "itemAccurate (RuleSetItem tags sets ms ae) =
     list_all (\<lambda>s. setDefers ms s \<longrightarrow> \<not> ms \<and> ContainsIPCIDRRule (ruleSet_Metadata s)) sets"

fun accurate :: "'a rule \<Rightarrow> bool" where
  "accurate (DefaultRule r item a) = pred_option itemAccurate item"
| "accurate (LogicalRule rules mode inverted a) = list_all accurate rules"

lemma limit_defers_item: "itemAccurate item \<Longrightarrow> \<not> ContainsDestinationIPCIDRRule item \<Longrightarrow> \<not> itemDefers item"
  by (cases item) (auto simp: list_all_iff list_ex_iff split: if_splits)

lemma limit_defers: "accurate r \<Longrightarrow> \<not> WithAddressLimit r \<Longrightarrow> \<not> defers False r"
  by (induction r rule: WithAddressLimit.induct)
     (auto simp: list_all_iff list_ex_iff limit_defers_item split: option.splits if_splits)

section \<open>Samples\<close>

text \<open>A rule on an IP range of the response, one on a domain keyword, and one that has both.\<close>

definition rangeItem :: RuleItem where
  "rangeItem = IPCIDRItem [IPSetPrefix \<lparr>pfx_ip = Addr4 0x01010100, pfx_bitsPlusOne = 25\<rparr>] False ''1.1.1.0/24''"

definition rangeRule :: "RuleItem list \<Rightarrow> abstractDefaultRule" where
  "rangeRule domainItems =
     \<lparr>items = [], sourceAddressItems = [], sourcePortItems = [], destinationAddressItems = domainItems,
      destinationIPCIDRItems = [rangeItem], destinationPortItems = [],
      allItems = map Inl (domainItems @ [rangeItem]), invert = False\<rparr>"

definition queryContext :: "string \<Rightarrow> InboundContext" where
  "queryContext domain = emptyContext\<lparr>md_Domain := domain\<rparr>"

lemma rangeRule_accepts:
  "fst (MatchAddressLimit sampleEnv (DefaultRule (rangeRule its) None (None :: unit option))
      ((queryContext domain)\<lparr>md_DestinationAddresses := [Addr4 0x01010105]\<rparr>))"
proof -
  let ?md = "(queryContext domain)\<lparr>md_DestinationAddresses := [Addr4 0x01010105]\<rparr>"
  have "prefix_Contains \<lparr>pfx_ip = Addr4 0x01010100, pfx_bitsPlusOne = 25\<rparr> (Addr4 0x01010105)"
    by code_simp
  then have "RuleItem_Match sampleEnv rangeItem ?md"
    by (simp add: item_match_defs rangeItem_def sampleEnv_def queryContext_def emptyContext_def socksaddrZero_def sa_IsIP_def addr_IsValid_def)
  then have "rule_Match sampleEnv (DefaultRule (rangeRule its) None (None :: unit option)) ?md"
    by (subst default_match)
       (auto simp: rangeRule_def queryContext_def emptyContext_def required_top matchAnyItem_def)
  then show ?thesis by (simp add: MatchAddressLimit_def rule_Match_def case_prod_unfold Let_def)
qed

section \<open>Properties\<close>

text \<open>
  C8: the phase before the lookup loses no answer. For a rule that keeps domain items and IP items
  apart, whatever its rule-sets, nesting and inversions, a response that \<open>MatchAddressLimit\<close> accepts
  belongs to a query that \<open>Match\<close> has let through.
\<close>

theorem dns_match_complete:
  assumes "separated False r" "\<not> md_IPCIDRMatchSource md" "\<not> md_IgnoreDestinationIPCIDRMatch md"
    and "fst (MatchAddressLimit env r (md\<lparr>md_DestinationAddresses := addrs\<rparr>))"
  shows "fst (dnsRule_Match env r md)"
  using phaseSim_empty [OF dns_phases [OF assms(1-3), of env addrs]] assms(4)
  by (auto simp: dnsRule_Match_states MatchAddressLimit_states)

theorem dns_match_complete_witness:
  "fst (dnsRule_Match sampleEnv (DefaultRule (rangeRule []) None (None :: unit option)) (queryContext ''a.b''))"
proof (rule dns_match_complete)
  show "fst (MatchAddressLimit sampleEnv (DefaultRule (rangeRule []) None (None :: unit option))
      ((queryContext ''a.b'')\<lparr>md_DestinationAddresses := [Addr4 0x01010105]\<rparr>))"
    by (rule rangeRule_accepts)
qed (simp_all add: separatedItems_def rangeRule_def queryContext_def emptyContext_def)





end
