(* ===== verification/Varbin.thy ===== *)
theory Varbin
  imports Prelude
begin

text \<open>
  Binary reading and writing: the reader a Go \<open>io.Reader\<close> and \<open>io.ByteReader\<close> gives, the fixed-size
  integers of \<open>encoding/binary\<close> in big-endian order, and the variable-length integers and slices of
  \<open>replace/sing/common/varbin\<close> and \<open>replace/sing/common/binary/varint.go\<close>. A source is the bytes that
  are still to come and the error that is reported after them. The locale \<open>codec\<close> states that a reader
  inverts a writer; the formats built on this theory are its instances.
\<close>

section \<open>Sources and readers\<close>

type_synonym bytes = "uint8 list"

record source =
  pending :: bytes
  ending :: error

abbreviation (input) EOF :: error where
  "EOF \<equiv> Sentinel ''EOF''"

abbreviation (input) ErrUnexpectedEOF :: error where
  "ErrUnexpectedEOF \<equiv> Sentinel ''unexpected EOF''"

abbreviation (input) errOverflow :: error where
  "errOverflow \<equiv> Sentinel ''binary: varint overflows a 64-bit integer''"

type_synonym 'a reader = "source \<Rightarrow> ('a \<times> source) result"

definition bindRd :: "'a reader \<Rightarrow> ('a \<Rightarrow> 'b reader) \<Rightarrow> 'b reader" where
  "bindRd r f = (\<lambda>s. bindR (r s) (\<lambda>(x, s'). f x s'))"

definition returnRd :: "'a \<Rightarrow> 'a reader" where
  "returnRd x = (\<lambda>s. Inr (x, s))"

definition failRd :: "error \<Rightarrow> 'a reader" where
  "failRd e = (\<lambda>s. Inl e)"

definition ReadByte :: "uint8 reader" where
  "ReadByte s = (case pending s of [] \<Rightarrow> Inl (ending s) | b # bs \<Rightarrow> Inr (b, s\<lparr>pending := bs\<rparr>))"

text \<open>\<open>io.ReadFull\<close>: the end of the source after some but not all of the bytes is unexpected.\<close>

definition ReadFull :: "nat \<Rightarrow> bytes reader" where
  "ReadFull n s =
     (if n \<le> length (pending s) then Inr (take n (pending s), s\<lparr>pending := drop n (pending s)\<rparr>)
      else if pending s \<noteq> [] \<and> ending s = EOF then Inl ErrUnexpectedEOF
      else Inl (ending s))"

text \<open>A loop that reads one more element per round.\<close>

primrec readMany :: "nat \<Rightarrow> 'a reader \<Rightarrow> 'a list reader" where
  "readMany 0 rd = returnRd []"
| "readMany (Suc n) rd = bindRd rd (\<lambda>x. bindRd (readMany n rd) (\<lambda>xs. returnRd (x # xs)))"

section \<open>Fixed-size integers\<close>

definition beEncode :: "'a::len word \<Rightarrow> bytes" where
  "beEncode w = map (\<lambda>i. ucast (drop_bit (8 * (LENGTH('a) div 8 - Suc i)) w)) [0..<LENGTH('a) div 8]"

definition beDecode :: "bytes \<Rightarrow> 'a::len word" where
  "beDecode bs = foldl (\<lambda>acc b. push_bit 8 acc OR ucast b) 0 bs"

text \<open>\<open>binary.Read\<close> of an integer and of a boolean, and \<open>binary.Write\<close> of a boolean.\<close>

definition readUint :: "'a::len word reader" where
  "readUint = bindRd (ReadFull (LENGTH('a) div 8)) (\<lambda>bs. returnRd (beDecode bs))"

definition readBool :: "bool reader" where
  "readBool = bindRd (ReadFull 1) (\<lambda>bs. returnRd (hd bs \<noteq> 0))"

definition writeBool :: "bool \<Rightarrow> bytes" where
  "writeBool b = [if b then 1 else 0]"

section \<open>Variable-length integers\<close>

function WriteUvarint :: "uint64 \<Rightarrow> bytes" where
  "WriteUvarint v =
     (if 0x80 \<le> v then (ucast v OR 0x80) # WriteUvarint (drop_bit 7 v) else [ucast v])"
  by pat_completeness auto

termination WriteUvarint
proof (relation "measure unat")
  fix v :: uint64
  assume "0x80 \<le> v"
  then have "unat v \<noteq> 0" by (simp add: word_le_nat_alt)
  then show "(drop_bit 7 v, v) \<in> measure unat"
    unfolding in_measure unat_drop_bit_eq by (simp add: drop_bit_eq_div)
qed simp

declare WriteUvarint.simps [simp del]

definition UvarintLen :: "uint64 \<Rightarrow> nat" where
  "UvarintLen x =
     (if x < 2 ^ 7 then 1 else if x < 2 ^ 14 then 2 else if x < 2 ^ 21 then 3 else if x < 2 ^ 28 then 4
      else if x < 2 ^ 35 then 5 else if x < 2 ^ 42 then 6 else if x < 2 ^ 49 then 7 else 8)"

text \<open>\<open>ReadUvarint\<close> reads at most \<open>MaxVarintLen64 = 10\<close> bytes; \<open>i\<close> is the number of the byte.\<close>

fun uvarintLoop :: "nat \<Rightarrow> nat \<Rightarrow> uint64 \<Rightarrow> uint64 reader" where
  "uvarintLoop 0 i x s = Inl errOverflow"
| "uvarintLoop (Suc rounds) i x s =
     (case pending s of
        [] \<Rightarrow> Inl (if 0 < i \<and> ending s = EOF then ErrUnexpectedEOF else ending s)
      | b # bs \<Rightarrow>
          if b < 0x80 then
            if i = 9 \<and> 1 < b then Inl errOverflow
            else Inr (x OR push_bit (7 * i) (ucast b), s\<lparr>pending := bs\<rparr>)
          else uvarintLoop rounds (i + 1) (x OR push_bit (7 * i) (ucast (b AND 0x7f))) (s\<lparr>pending := bs\<rparr>))"

definition ReadUvarint :: "uint64 reader" where
  "ReadUvarint = uvarintLoop 10 0 0"

section \<open>Slices\<close>

fun splitEvery :: "nat \<Rightarrow> nat \<Rightarrow> 'a list \<Rightarrow> 'a list list" where
  "splitEvery k 0 bs = []"
| "splitEvery k (Suc n) bs = take k bs # splitEvery k n (drop k bs)"

lemma length_splitEvery [simp]: "length (splitEvery k n bs) = n"
  by (induction k n bs rule: splitEvery.induct) auto

lemma bindR_cong [fundef_cong]:
  "r = r' \<Longrightarrow> (\<And>x. r' = Inr x \<Longrightarrow> f x = g x) \<Longrightarrow> bindR r f = bindR r' g"
  by (cases r') auto

text \<open>
  \<open>ReadSliceCount\<close> grows the slice whenever it is full and reads into the capacity it got. The
  capacity after \<open>slices.Grow(result, 1)\<close> is the choice of the runtime, at least one more than the
  length: \<open>slack n\<close> is how much more than that it is for a full slice of \<open>n\<close> elements.
\<close>

function readChunks :: "(nat \<Rightarrow> nat) \<Rightarrow> nat \<Rightarrow> 'a::len word list \<Rightarrow> 'a word list reader" where
  "readChunks slack count result s =
     (if length result < count then
        let chunkCount = min (count - length result) (1 + slack (length result))
        in bindR (ReadFull (chunkCount * (LENGTH('a) div 8)) s) (\<lambda>p.
             readChunks slack count
               (result @ map beDecode (splitEvery (LENGTH('a) div 8) chunkCount (fst p))) (snd p))
      else Inr (result, s))"
  by pat_completeness auto

termination readChunks
  by (relation "measure (\<lambda>(slack, count, result, s). count - length result)") auto

declare readChunks.simps [simp del]

definition ReadSliceCount :: "(nat \<Rightarrow> nat) \<Rightarrow> uint64 \<Rightarrow> 'a::len word list reader" where
  "ReadSliceCount slack count = readChunks slack (unat count) []"

definition ReadSlice :: "(nat \<Rightarrow> nat) \<Rightarrow> 'a::len word list reader" where
  "ReadSlice slack = bindRd ReadUvarint (ReadSliceCount slack)"

text \<open>The length of a slice and its elements, as the writers of the formats put them.\<close>

definition writeSlice :: "'a::len word list \<Rightarrow> bytes" where
  "writeSlice xs = WriteUvarint (of_nat (length xs)) @ concat (map beEncode xs)"

definition bytesOf :: "string \<Rightarrow> bytes" where
  "bytesOf s = map of_char s"

definition stringOf :: "bytes \<Rightarrow> string" where
  "stringOf bs = map (\<lambda>b. char_of (unat b)) bs"

section \<open>Codecs\<close>

text \<open>A reader that inverts a writer on the values the writer is used for.\<close>

locale codec =
  fixes enc :: "'a \<Rightarrow> bytes" and dec :: "'a reader" and ok :: "'a \<Rightarrow> bool"
  assumes decodes: "ok x \<Longrightarrow> dec (s\<lparr>pending := enc x @ rest\<rparr>) = Inr (x, s\<lparr>pending := rest\<rparr>)"
begin

lemma then_read:
  "ok x \<Longrightarrow> bindRd dec f (s\<lparr>pending := enc x @ rest\<rparr>) = f x (s\<lparr>pending := rest\<rparr>)"
  by (simp add: bindRd_def decodes)

lemma many:
  "\<forall>x\<in>set xs. ok x \<Longrightarrow>
   readMany (length xs) dec (s\<lparr>pending := concat (map enc xs) @ rest\<rparr>) = Inr (xs, s\<lparr>pending := rest\<rparr>)"
proof (induction xs)
  case (Cons x xs)
  then show ?case by (simp add: then_read) (simp add: bindRd_def returnRd_def)
qed (simp add: returnRd_def)

end

lemma ReadFull_append: "ReadFull (length bs) (s\<lparr>pending := bs @ rest\<rparr>) = Inr (bs, s\<lparr>pending := rest\<rparr>)"
  by (simp add: ReadFull_def)

lemma ReadByte_then: "bindRd ReadByte f (s\<lparr>pending := b # bs\<rparr>) = f b (s\<lparr>pending := bs\<rparr>)"
  by (simp add: bindRd_def ReadByte_def)

lemma length_beEncode [simp]: "length (beEncode (w :: 'a::len word)) = LENGTH('a) div 8"
  by (simp add: beEncode_def)

lemma beDecode_snoc: "beDecode (bs @ [b]) = push_bit 8 (beDecode bs) OR ucast b"
  by (simp add: beDecode_def)

lemma beDecode_top:
  fixes w :: "'a::len word"
  assumes "8 dvd LENGTH('a)" "k \<le> LENGTH('a) div 8"
  shows "beDecode (take k (beEncode w)) = drop_bit (8 * (LENGTH('a) div 8 - k)) w"
  using assms(2)
proof (induction k)
  case 0
  have "8 * (LENGTH('a) div 8) = LENGTH('a)" using assms(1) by simp
  then show ?case by (simp add: beDecode_def drop_bit_eq_div)
next
  case (Suc k)
  let ?m = "8 * (LENGTH('a) div 8 - Suc k)"
  have m: "8 * (LENGTH('a) div 8 - k) = ?m + 8" using Suc.prems by simp
  have "take (Suc k) (beEncode w) = take k (beEncode w) @ [ucast (drop_bit ?m w)]"
    using Suc.prems by (simp add: take_Suc_conv_app_nth) (simp add: beEncode_def)
  then have "beDecode (take (Suc k) (beEncode w)) =
      push_bit 8 (drop_bit (?m + 8) w) OR ucast (ucast (drop_bit ?m w) :: uint8)"
    using Suc.IH Suc.prems by (simp add: beDecode_snoc m)
  also have "\<dots> = drop_bit ?m w"
  proof (rule bit_word_eqI)
    fix n
    assume "n < LENGTH('a)"
    then show "bit (push_bit 8 (drop_bit (?m + 8) w) OR ucast (ucast (drop_bit ?m w) :: uint8)) n = bit (drop_bit ?m w) n"
      by (cases "n < 8") (simp_all add: bit_or_iff bit_push_bit_iff bit_drop_bit_eq bit_ucast_iff add.commute)
  qed
  finally show ?case .
qed

lemma beDecode_beEncode: "8 dvd LENGTH('a) \<Longrightarrow> beDecode (beEncode w) = (w :: 'a::len word)"
  using beDecode_top [of "LENGTH('a) div 8" w] by simp

lemma bit7_large: "bit (b :: uint8) 7 \<Longrightarrow> \<not> b < 0x80"
proof
  assume "bit b 7" "b < 0x80"
  then have "bit (unat b) 7" "unat b < 128" by (simp_all add: bit_unsigned_iff word_less_nat_alt)
  then show False by (simp add: bit_iff_odd)
qed

lemma bit_7f: "bit (0x7f :: uint8) n \<longleftrightarrow> n < 7" and bit_80: "bit (0x80 :: uint8) n \<longleftrightarrow> n = 7"
proof -
  have "(0x7f :: uint8) = mask 7" "(0x80 :: uint8) = push_bit 7 1" by (simp_all add: mask_eq_exp_minus_1)
  note e = this
  show "bit (0x7f :: uint8) n \<longleftrightarrow> n < 7" unfolding e bit_mask_iff by auto
  show "bit (0x80 :: uint8) n \<longleftrightarrow> n = 7" unfolding e bit_push_bit_iff bit_1_iff by auto
qed

lemma low7_join:
  "push_bit (7 * i) (ucast ((ucast v OR 0x80 :: uint8) AND 0x7f)) OR push_bit (7 * (i + 1)) (drop_bit 7 v) =
   push_bit (7 * i) (v :: uint64)"
proof (rule bit_word_eqI)
  fix n
  assume "n < LENGTH(64)"
  then show "bit (push_bit (7 * i) (ucast ((ucast v OR 0x80 :: uint8) AND 0x7f)) OR push_bit (7 * (i + 1)) (drop_bit 7 v)) n =
      bit (push_bit (7 * i) v) n"
    unfolding bit_or_iff bit_push_bit_iff bit_drop_bit_eq bit_ucast_iff bit_and_iff bit_7f bit_80 o_apply
    by (cases "n < 7 * (i + 1)") auto
qed

lemma ucast_small: "unat (v :: uint64) < 256 \<Longrightarrow> ucast (ucast v :: uint8) = v"
  unfolding word_unat_eq_iff unsigned_ucast_eq by (simp add: unsigned_take_bit_eq take_bit_nat_eq_self)

lemma uvarintLoop_write:
  assumes "unat v < 2 ^ (64 - 7 * i)" "i < 10"
  shows "uvarintLoop (10 - i) i x (s\<lparr>pending := WriteUvarint v @ rest\<rparr>) =
    Inr (x OR push_bit (7 * i) v, s\<lparr>pending := rest\<rparr>)"
  using assms
proof (induction v arbitrary: i x rule: WriteUvarint.induct)
  case (1 v)
  obtain r where r: "10 - i = Suc r" "r = 10 - Suc i" using "1.prems"(2) by (cases "10 - i") auto
  show ?case
  proof (cases "0x80 \<le> v")
    case True
    let ?b = "ucast v OR 0x80 :: uint8"
    have "2 ^ 7 < (2 :: nat) ^ (64 - 7 * i)" using True "1.prems"(1) by (simp add: word_le_nat_alt)
    then have i: "7 < 64 - 7 * i" by (rule power_less_imp_less_exp [rotated]) simp
    have "bit ?b 7" by (simp add: bit_or_iff bit_numeral_rec)
    then have b: "\<not> ?b < 0x80" by (rule bit7_large)
    let ?x = "x OR push_bit (7 * i) (ucast (?b AND 0x7f))"
    have e: "?x OR push_bit (7 * (i + 1)) (drop_bit 7 v) = x OR push_bit (7 * i) v"
      by (simp only: or.assoc low7_join)
    have "unat (drop_bit 7 v) < 2 ^ (64 - 7 * (i + 1))"
    proof -
      have "64 - 7 * i = (64 - 7 * (i + 1)) + 7" using i by simp
      then have "unat v < 2 ^ (64 - 7 * (i + 1)) * 2 ^ 7" using "1.prems"(1) by (simp only: power_add)
      then show ?thesis unfolding unat_drop_bit_eq unfolding drop_bit_eq_div by (rule less_mult_imp_div_less)
    qed
    then show ?thesis using True "1.IH" [OF True, of "i + 1" ?x] i b e
      by (simp add: WriteUvarint.simps [of v] r(1)) (simp add: r(2))
  next
    case False
    then have "unat v < 256" by (simp add: word_le_nat_alt)
    then have v: "ucast (ucast v :: uint8) = v" "unat (ucast v :: uint8) = unat v"
      by (rule ucast_small, simp add: unsigned_ucast_eq unsigned_take_bit_eq take_bit_nat_eq_self)
    have "i = 9 \<Longrightarrow> unat v < 2" using "1.prems"(1) by simp
    then have "\<not> (i = 9 \<and> 1 < unat v)" by auto
    then show ?thesis using False v by (simp add: WriteUvarint.simps [of v] r(1) word_less_nat_alt word_le_nat_alt)
  qed
qed

interpretation uvarint: codec WriteUvarint ReadUvarint "\<lambda>_. True"
proof
  fix x s rest
  show "ReadUvarint (s\<lparr>pending := WriteUvarint x @ rest\<rparr>) = Inr (x, s\<lparr>pending := rest\<rparr>)"
    using uvarintLoop_write [where v = x and i = 0 and x = 0] unsigned_less [of x, where ?'a = nat] by (simp add: ReadUvarint_def)
qed

interpretation bools: codec writeBool readBool "\<lambda>_. True"
  by unfold_locales (simp add: writeBool_def readBool_def bindRd_def ReadFull_def returnRd_def)

lemma readUint_append:
  "8 dvd LENGTH('a) \<Longrightarrow>
   readUint (s\<lparr>pending := beEncode (w :: 'a::len word) @ rest\<rparr>) = Inr (w, s\<lparr>pending := rest\<rparr>)"
  using ReadFull_append [where bs = "beEncode w"] by (simp add: readUint_def bindRd_def returnRd_def beDecode_beEncode)

interpretation byte: codec "beEncode :: uint8 \<Rightarrow> bytes" readUint "\<lambda>_. True"
  by unfold_locales (simp add: readUint_append)

interpretation uint64: codec "beEncode :: uint64 \<Rightarrow> bytes" readUint "\<lambda>_. True"
  by unfold_locales (simp add: readUint_append)

text \<open>Reading a slice does not depend on the capacities the runtime chooses.\<close>

lemma splitEvery_add: "splitEvery k (m + n) bs = splitEvery k m bs @ splitEvery k n (drop (m * k) bs)"
  by (induction k m bs rule: splitEvery.induct) (simp_all add: add.commute)

lemma splitEvery_take: "n * k \<le> m \<Longrightarrow> splitEvery k n (take m bs) = splitEvery k n bs"
proof (induction n arbitrary: m bs)
  case (Suc n)
  then have "n * k \<le> m - k" "min k m = k" by auto
  with Suc.IH [of "m - k" "drop k bs"] show ?case by (simp add: drop_take)
qed simp

lemma readChunks_enough:
  "\<lbrakk>(count - length result) * (LENGTH('a) div 8) \<le> length (pending s); length result \<le> count\<rbrakk> \<Longrightarrow>
   readChunks slack count (result :: 'a::len word list) s =
     Inr (result @ map beDecode (splitEvery (LENGTH('a) div 8) (count - length result) (pending s)),
          s\<lparr>pending := drop ((count - length result) * (LENGTH('a) div 8)) (pending s)\<rparr>)"
proof (induction slack count result s rule: readChunks.induct)
  case (1 slack count result s)
  let ?k = "LENGTH('a) div 8" and ?n = "min (count - length result) (1 + slack (length result))"
  show ?case
  proof (cases "length result < count")
    case True
    define n where "n = ?n"
    define m where "m = count - length result - n"
    have m: "count - length result = n + m" "length result + n \<le> count" "count - (length result + n) = m"
      using True by (simp_all add: m_def n_def)
    have l: "n * ?k + m * ?k \<le> length (pending s)" using "1.prems"(1) m(1) by (metis add_mult_distrib)
    let ?s = "s\<lparr>pending := drop (n * ?k) (pending s)\<rparr>"
    have r: "ReadFull (n * ?k) s = Inr (take (n * ?k) (pending s), ?s)" using l by (simp add: ReadFull_def)
    have "readChunks slack count result s =
        readChunks slack count (result @ map beDecode (splitEvery ?k n (pending s))) ?s"
      unfolding readChunks.simps [of slack count result s] Let_def if_P [OF True] n_def [symmetric] r bindR_Inr fst_conv snd_conv
      by (simp add: splitEvery_take)
    with "1.IH" [OF True refl r [unfolded n_def], folded n_def, unfolded fst_conv snd_conv] l m show ?thesis
      by (simp add: splitEvery_take splitEvery_add add_mult_distrib le_diff_conv2 drop_drop [of "m * ?k" "n * ?k", unfolded add.commute [of "m * ?k"]] del: drop_drop)
  qed (use "1.prems" in \<open>simp add: readChunks.simps\<close>)
qed

lemma readChunks_short:
  "\<lbrakk>length (pending s) < (count - length result) * (LENGTH('a) div 8)\<rbrakk> \<Longrightarrow>
   readChunks slack count (result :: 'a::len word list) s \<in> {Inl (ending s), Inl ErrUnexpectedEOF}"
proof (induction slack count result s rule: readChunks.induct)
  case (1 slack count result s)
  let ?k = "LENGTH('a) div 8" and ?n = "min (count - length result) (1 + slack (length result))"
  have True: "length result < count" using "1.prems" by (cases "length result < count") auto
  define n where "n = ?n"
  note eq = readChunks.simps [of slack count result s, unfolded Let_def if_P [OF True], folded n_def]
  show ?case
  proof (cases "n * ?k \<le> length (pending s)")
    case False
    then show ?thesis unfolding eq by (simp add: ReadFull_def)
  next
    case l: True
    define m where "m = count - length result - n"
    have m: "count - length result = n + m" "count - (length result + n) = m" using True by (simp_all add: m_def n_def)
    let ?s = "s\<lparr>pending := drop (n * ?k) (pending s)\<rparr>"
    have r: "ReadFull (n * ?k) s = Inr (take (n * ?k) (pending s), ?s)" using l by (simp add: ReadFull_def)
    have "length (pending s) < n * ?k + m * ?k" using "1.prems" m(1) by (metis add_mult_distrib)
    with "1.IH" [OF True refl r [unfolded n_def], folded n_def, unfolded fst_conv snd_conv] l m(2) show ?thesis
      unfolding eq r bindR_Inr fst_conv snd_conv by (simp add: less_diff_conv2 add.commute)
  qed
qed

lemma splitEvery_concat:
  "\<forall>x\<in>set xs. length (f x) = k \<Longrightarrow> splitEvery k (length xs) (concat (map f xs) @ rest) = map f xs"
  by (induction xs) auto

lemma length_concat_const: "\<forall>x\<in>set xs. length (f x) = k \<Longrightarrow> length (concat (map f xs)) = length xs * k"
  by (induction xs) auto

lemma ReadSlice_write:
  assumes "8 dvd LENGTH('a)" "length xs < 2 ^ 64"
  shows "ReadSlice slack (s\<lparr>pending := writeSlice (xs :: 'a::len word list) @ rest\<rparr>) = Inr (xs, s\<lparr>pending := rest\<rparr>)"
proof -
  let ?bs = "concat (map beEncode xs)" and ?k = "LENGTH('a) div 8"
  have n: "unat (of_nat (length xs) :: uint64) = length xs" using assms(2) by (simp add: unat_of_nat)
  have l: "length ?bs = length xs * ?k" by (rule length_concat_const) simp
  have "map (beDecode :: bytes \<Rightarrow> 'a word) (map beEncode xs) = xs" using assms(1) by (simp add: beDecode_beEncode map_idI)
  then show ?thesis
    using readChunks_enough [of "length xs" "[] :: 'a word list" "s\<lparr>pending := ?bs @ rest\<rparr>" slack] l
      splitEvery_concat [of xs "beEncode :: 'a word \<Rightarrow> bytes" ?k rest]
    by (simp add: ReadSlice_def writeSlice_def uvarint.then_read ReadSliceCount_def n)
qed

interpretation slice8: codec "writeSlice :: uint8 list \<Rightarrow> bytes" "ReadSlice slack" "\<lambda>xs. length xs < 2 ^ 64"
  by unfold_locales (simp add: ReadSlice_write)

interpretation slice16: codec "writeSlice :: uint16 list \<Rightarrow> bytes" "ReadSlice slack" "\<lambda>xs. length xs < 2 ^ 64"
  by unfold_locales (simp add: ReadSlice_write)

interpretation slice64: codec "writeSlice :: uint64 list \<Rightarrow> bytes" "ReadSlice slack" "\<lambda>xs. length xs < 2 ^ 64"
  by unfold_locales (simp add: ReadSlice_write)

lemma stringOf_bytesOf [simp]: "stringOf (bytesOf s) = s"
proof (induction s)
  case (Cons c s)
  have "unat (of_char c :: uint8) = of_char c"
    using unat_of_nat [of "of_char c", where ?'a = 8] nat_of_char_less_256 [of c] by (simp add: of_nat_of_char)
  then show ?case using Cons by (simp add: stringOf_def bytesOf_def)
qed (simp add: stringOf_def bytesOf_def)

lemma length_bytesOf [simp]: "length (bytesOf s) = length s"
  by (simp add: bytesOf_def)

text \<open>What a reader consumes: at least \<open>k\<close> bytes.\<close>

definition consumes :: "nat \<Rightarrow> 'a reader \<Rightarrow> bool" where
  "consumes k rd \<longleftrightarrow> (\<forall>s x s'. rd s = Inr (x, s') \<longrightarrow> length (pending s') + k \<le> length (pending s))"

lemma consumesD: "consumes k rd \<Longrightarrow> rd s = Inr (x, s') \<Longrightarrow> length (pending s') + k \<le> length (pending s)"
  by (simp add: consumes_def)

named_theorems consumes_intros \<open>how much the readers consume\<close>

lemma consumes_bind [consumes_intros]:
  assumes "consumes k rd" "\<And>x. consumes m (f x)"
  shows "consumes (k + m) (bindRd rd f)"
  unfolding consumes_def
proof (intro allI impI)
  fix s y s'
  assume "bindRd rd f s = Inr (y, s')"
  then obtain x t where "rd s = Inr (x, t)" "f x t = Inr (y, s')" by (auto simp: bindRd_def bindR_eq_Inr)
  with assms show "length (pending s') + (k + m) \<le> length (pending s)"
    using consumesD [of k rd s x t] consumesD [of m "f x" t y s'] by simp
qed

lemma consumes_return [consumes_intros]: "consumes 0 (returnRd x)"
  by (simp add: consumes_def returnRd_def)

lemma consumes_fail [consumes_intros]: "consumes 0 (failRd e)"
  by (simp add: consumes_def failRd_def)

lemma consumes_ReadByte [consumes_intros]: "consumes 1 ReadByte"
  by (auto simp: consumes_def ReadByte_def split: list.splits)

lemma consumes_ReadFull [consumes_intros]: "consumes n (ReadFull n)"
  by (auto simp: consumes_def ReadFull_def split: if_splits)

lemma consumes_mono: "consumes k rd \<Longrightarrow> m \<le> k \<Longrightarrow> consumes m rd"
  unfolding consumes_def by (meson add_le_cancel_left le_trans)

lemma consumes_uvarintLoop: "uvarintLoop rounds i x s = Inr (y, s') \<Longrightarrow> length (pending s') < length (pending s)"
proof (induction rounds i x s rule: uvarintLoop.induct)
  case (2 rounds i x s)
  then show ?case by (fastforce split: list.splits if_splits)
qed simp

lemma consumes_ReadUvarint [consumes_intros]: "consumes 1 ReadUvarint"
  unfolding consumes_def ReadUvarint_def using consumes_uvarintLoop by (simp add: Suc_le_eq)

lemma consumes_readMany [consumes_intros]: "consumes 0 rd \<Longrightarrow> consumes 0 (readMany n rd)"
proof (induction n)
  case (Suc n)
  then have "consumes (0 + (0 + 0)) (readMany (Suc n) rd)"
    unfolding readMany.simps by (intro consumes_intros) auto
  then show ?case by simp
qed (simp add: consumes_return)

lemma consumes_ReadSliceCount [consumes_intros]: "consumes 0 (ReadSliceCount slack n :: 'a::len word list reader)"
proof -
  have "length (pending s') \<le> length (pending s)" if "readChunks slack (unat n) ([] :: 'a word list) s = Inr (x, s')" for s x s'
    using that readChunks_enough [of "unat n" "[] :: 'a word list" s slack] readChunks_short [of s "unat n" "[] :: 'a word list" slack]
    by (cases "unat n * (LENGTH('a) div 8) \<le> length (pending s)") auto
  then show ?thesis by (simp add: consumes_def ReadSliceCount_def)
qed

lemma consumes_ReadSlice [consumes_intros]: "consumes 1 (ReadSlice slack :: 'a::len word list reader)"
  using consumes_bind [OF consumes_ReadUvarint consumes_ReadSliceCount] by (simp add: ReadSlice_def)

section \<open>Properties\<close>

lemma unat_shift7: "unat (drop_bit 7 v :: uint64) = unat v div 2 ^ 7"
  unfolding unat_drop_bit_eq by (simp add: drop_bit_eq_div)

lemma WriteUvarint_upper: "unat v < 2 ^ (7 * (k + 1)) \<Longrightarrow> length (WriteUvarint v) \<le> k + 1"
proof (induction k arbitrary: v)
  case 0
  then show ?case by (simp add: WriteUvarint.simps [of v] word_le_nat_alt)
next
  case (Suc k)
  have "(2 :: nat) ^ (7 * (Suc k + 1)) = 2 ^ (7 * (k + 1)) * 2 ^ 7" by (simp add: power_add)
  then have "unat (drop_bit 7 v) < 2 ^ (7 * (k + 1))"
    unfolding unat_shift7 using Suc.prems by (simp only: less_mult_imp_div_less)
  from Suc.IH [OF this] show ?case by (simp add: WriteUvarint.simps [of v])
qed

lemma WriteUvarint_lower: "2 ^ (7 * k) \<le> unat v \<Longrightarrow> k < length (WriteUvarint v)"
proof (induction k arbitrary: v)
  case 0
  then show ?case by (simp add: WriteUvarint.simps [of v])
next
  case (Suc k)
  have p: "(2 :: nat) ^ (7 * Suc k) = 2 ^ (7 * k) * 2 ^ 7" by (simp add: power_add)
  have "(2 :: nat) ^ 7 \<le> 2 ^ (7 * Suc k)" by (rule power_increasing) simp_all
  then have v: "0x80 \<le> v" using Suc.prems by (simp add: word_le_nat_alt)
  have "2 ^ (7 * k) \<le> unat (drop_bit 7 v)"
    unfolding unat_shift7 using Suc.prems unfolding p by (simp add: less_eq_div_iff_mult_less_eq)
  from Suc.IH [OF this] show ?case using v by (simp add: WriteUvarint.simps [of v])
qed

lemma WriteUvarint_length:
  "unat v < 2 ^ (7 * (k + 1)) \<Longrightarrow> k = 0 \<or> 2 ^ (7 * k) \<le> unat v \<Longrightarrow> length (WriteUvarint v) = k + 1"
  using WriteUvarint_upper [of v k] WriteUvarint_lower [of k v] WriteUvarint_lower [of 0 v]
  by (cases k) (auto simp: WriteUvarint.simps [of v])

lemma WriteUvarint_max: "length (WriteUvarint v) \<le> 10"
  using WriteUvarint_upper [of v 9] unsigned_less [of v, where ?'a = nat] by simp

text \<open>
  C17. Variable-length integers survive the round trip. Whatever follows in the source,
  \<open>ReadUvarint\<close> reads back the value \<open>WriteUvarint\<close> wrote, leaves exactly the rest, and the encoding has
  at most the ten bytes \<open>ReadUvarint\<close> accepts.
\<close>

theorem uvarint_roundtrip:
  "ReadUvarint (s\<lparr>pending := WriteUvarint v @ rest\<rparr>) = Inr (v, s\<lparr>pending := rest\<rparr>) \<and>
   length (WriteUvarint v) \<le> 10"
  using WriteUvarint_max by (simp add: uvarint.decodes)

text \<open>
  C18. \<open>ReadSliceCount\<close> reads a slice piece by piece, as the runtime grows it. Whatever capacities the
  runtime picks, it returns the same elements as one read of the whole slice when the source has
  enough bytes, and an error when the source ends early.
\<close>

theorem slice_growth_irrelevant:
  fixes count :: uint64
  defines "width \<equiv> LENGTH('a::len) div 8" and "n \<equiv> unat count"
  shows "if n * width \<le> length (pending s)
         then ReadSliceCount slack count s =
           Inr (map beDecode (splitEvery width n (pending s)) :: 'a word list, s\<lparr>pending := drop (n * width) (pending s)\<rparr>)
         else (ReadSliceCount slack count s :: ('a word list \<times> source) result) \<in> {Inl (ending s), Inl ErrUnexpectedEOF}"
  using readChunks_enough [of n "[] :: 'a word list" s slack] readChunks_short [of s n "[] :: 'a word list" slack]
  by (simp add: ReadSliceCount_def width_def n_def)

text \<open>
  C19. \<open>UvarintLen\<close>, which callers use to size the header in front of a message, is the length of the
  encoding exactly for the values below \<open>2 ^ 56\<close>; from there on it is too small.
\<close>

theorem uvarint_length: "UvarintLen v = length (WriteUvarint v) \<longleftrightarrow> v < 2 ^ 56"
proof (cases "v < 2 ^ 56")
  case True
  then show ?thesis
    using WriteUvarint_length [of v 0] WriteUvarint_length [of v 1] WriteUvarint_length [of v 2]
      WriteUvarint_length [of v 3] WriteUvarint_length [of v 4] WriteUvarint_length [of v 5]
      WriteUvarint_length [of v 6] WriteUvarint_length [of v 7]
    by (auto simp: UvarintLen_def word_less_nat_alt)
next
  case False
  then show ?thesis using WriteUvarint_lower [of 8 v] by (auto simp: UvarintLen_def word_less_nat_alt)
qed

end
