(* ===== verification/Trie_Format.thy ===== *)
theory Trie_Format
  imports Domain_Match Varbin
begin

text \<open>
  The binary form of the tries (\<open>readSuccinctSet\<close> and \<open>Write\<close> of
  \<open>replace/sing/common/domain/set.go\<close>), the enumeration of their keys, and the matchers read from a
  file and turned back into lists (\<open>ReadMatcher\<close>, \<open>Dump\<close> of \<open>matcher.go\<close> and \<open>adguard_matcher.go\<close>).
  A file may hold any bits, so the lemmas on lookups start from what \<open>readSuccinctSet\<close> checks and not
  from a trie built out of keys.
\<close>

unbundle bit_operations_syntax

section \<open>Reading and writing\<close>

definition succinctSet_Write :: "succinctSet \<Rightarrow> bytes" where
  "succinctSet_Write ss =
     0 # writeSlice (leaves ss) @ writeSlice (labelBitmap ss) @ writeSlice (bytesOf (labels ss))"

definition leadingZeros :: "uint64 \<Rightarrow> nat" where
  "leadingZeros w = length (takeWhile (\<lambda>i. \<not> bit w (63 - i)) [0..<64])"

text \<open>The number of ones, and the position of the last one (-1 when there is none).\<close>

fun scanWords :: "nat \<Rightarrow> nat \<Rightarrow> int \<Rightarrow> uint64 list \<Rightarrow> nat \<times> int" where
  "scanWords wordIndex count lastOne [] = (count, lastOne)"
| "scanWords wordIndex count lastOne (w # ws) =
     scanWords (wordIndex + 1) (count + onesCount w)
       (if w \<noteq> 0 then int (push_bit 6 wordIndex OR (63 - leadingZeros w)) else lastOne) ws"

definition checkSuccinctSet :: "uint64 list \<Rightarrow> uint64 list \<Rightarrow> string \<Rightarrow> succinctSet result" where
  "checkSuccinctSet ls bm lb =
     (let (count, lastOneIndex) = scanWords 0 0 (-1) bm;
          zerosCount = lastOneIndex + 1 - int count
      in if int count \<noteq> zerosCount + 1 \<or> int (length lb) \<noteq> zerosCount
         then Inl (ErrMsg ''domain: malformed succinct set'')
         else
           let leavesWordCount = drop_bit 6 (count + 63);
               ls' = ls @ replicate (leavesWordCount - length ls) 0
           in Inr (succinctSet_init \<lparr>leaves = ls', labelBitmap = bm, labels = lb, ranks = [], selects = []\<rparr>))"

definition liftR :: "'a result \<Rightarrow> 'a reader" where
  "liftR r = (\<lambda>s. map_sum id (\<lambda>x. (x, s)) r)"

definition readSuccinctSet :: "(nat \<Rightarrow> nat) \<Rightarrow> succinctSet reader" where
  "readSuccinctSet slack =
     bindRd ReadByte (\<lambda>_.
     bindRd (ReadSlice slack) (\<lambda>ls.
     bindRd (ReadSlice slack) (\<lambda>bm.
     bindRd (ReadSlice slack) (\<lambda>lb :: bytes.
       liftR (checkSuccinctSet ls bm (stringOf lb))))))"

definition ReadMatcher :: "(nat \<Rightarrow> nat) \<Rightarrow> Matcher reader" where
  "ReadMatcher slack = readSuccinctSet slack"

definition Matcher_Write :: "Matcher \<Rightarrow> bytes" where
  "Matcher_Write m = succinctSet_Write m"

definition ReadAdGuardMatcher :: "(nat \<Rightarrow> nat) \<Rightarrow> AdGuardMatcher reader" where
  "ReadAdGuardMatcher slack = readSuccinctSet slack"

definition AdGuardMatcher_Write :: "AdGuardMatcher \<Rightarrow> bytes" where
  "AdGuardMatcher_Write m = succinctSet_Write m"

section \<open>The keys of a trie\<close>

text \<open>
  The loop of \<open>keys\<close>: the stack of frames with the top first, the current key and the keys found. An
  index out of range is \<open>None\<close>, and so is a loop that does not end.
\<close>

partial_function (option) keysLoop ::
  "succinctSet \<Rightarrow> (nat \<times> nat) list \<Rightarrow> string \<Rightarrow> string list \<Rightarrow> string list option" where
  "keysLoop ss stack currentKey result =
     (case stack of
        [] \<Rightarrow> Some result
      | (nodeId, bmIdx) # rest \<Rightarrow>
          Option.bind (getBit (labelBitmap ss) bmIdx) (\<lambda>b.
            if b \<noteq> 0 then
              (case rest of
                 [] \<Rightarrow> keysLoop ss [] currentKey result
               | (n, i) # rest' \<Rightarrow>
                   if currentKey = [] then None
                   else keysLoop ss ((n, i + 1) # rest') (butlast currentKey) result)
            else
              Option.bind (index (labels ss) (bmIdx - nodeId)) (\<lambda>label.
              Option.bind (countZeros (labelBitmap ss) (ranks ss) (bmIdx + 1)) (\<lambda>nextNodeId.
              Option.bind (selectIthOne (labelBitmap ss) (ranks ss) (selects ss) (nextNodeId - 1)) (\<lambda>p.
              Option.bind (getBit (leaves ss) nextNodeId) (\<lambda>leaf.
                keysLoop ss ((nextNodeId, p + 1) # (nodeId, bmIdx) # rest) (currentKey @ [label])
                  (if leaf \<noteq> 0 then result @ [currentKey @ [label]] else result)))))))"

definition succinctSet_keys :: "succinctSet \<Rightarrow> string list option" where
  "succinctSet_keys ss =
     Option.bind (getBit (leaves ss) 0) (\<lambda>leaf.
       keysLoop ss [(0, 0)] [] (if leaf \<noteq> 0 then [[]] else []))"

text \<open>
  \<open>Dump\<close> of the domain matcher. The two maps are read as lists without repetitions: the order of
  their keys, which Go leaves open, is lost in the final sort, and the domains that are deleted while
  the prefixes are visited belong to different prefixes.
\<close>

definition Matcher_Dump :: "Matcher \<Rightarrow> (string list \<times> string list) option" where
  "Matcher_Dump m =
     Option.bind (succinctSet_keys m) (\<lambda>ks0.
     Option.bind (mapOption reverseDomain ks0) (\<lambda>ks.
       if [] \<in> set ks then None
       else
         let prefixMap = remdups (map tl (filter (\<lambda>k. hd k = prefixLabel) ks));
             roots = map tl (filter (\<lambda>k. hd k = rootLabel) ks);
             domainMap = remdups (filter (\<lambda>k. hd k \<noteq> prefixLabel \<and> hd k \<noteq> rootLabel) ks);
             whole = (\<lambda>p. hd p = CHR ''.'' \<and> tl p \<in> set domainMap)
         in if [] \<in> set prefixMap then None
            else Some
              (sort (filter (\<lambda>d. \<not> list_ex (\<lambda>p. whole p \<and> tl p = d) prefixMap) domainMap),
               sort (roots @ map (\<lambda>p. if whole p then tl p else p) prefixMap))))"

definition dumpRule :: "string \<Rightarrow> string option" where
  "dumpRule key =
     (if key = [] then None
      else
        let labelled = hd key = prefixLabel \<or> hd key = rootLabel;
            isSuffix = hd key = rootLabel;
            key1 = (if labelled then tl key else key)
        in if key1 = [] then None
           else
             let hasEnd = last key1 \<noteq> suffixLabel;
                 key2 = (if hasEnd then key1 else butlast key1);
                 key3 = (if isSuffix then ''||'' @ key2 else if \<not> labelled then ''|'' @ key2 else key2)
             in Some (if hasEnd then key3 @ ''^'' else key3))"

definition AdGuardMatcher_Dump :: "AdGuardMatcher \<Rightarrow> string list option" where
  "AdGuardMatcher_Dump m =
     Option.bind (succinctSet_keys m) (mapOption (\<lambda>key0. Option.bind (reverseDomain key0) dumpRule))"

section \<open>Tries a file can hold\<close>

text \<open>
  What the check of \<open>readSuccinctSet\<close> leaves: as many nodes as ones, a label for every node but the
  root, a leaf bit for every node, and the indexes of the bitmap.
\<close>

definition nodes :: "succinctSet \<Rightarrow> nat" where
  "nodes m = ones (testBit (labelBitmap m)) (length (labelBitmap m) * 64)"

definition wfTrie :: "succinctSet \<Rightarrow> bool" where
  "wfTrie m \<longleftrightarrow> 0 < nodes m \<and> isSelect (testBit (labelBitmap m)) (2 * nodes m - 2) (nodes m - 1) \<and>
     length (labels m) = nodes m - 1 \<and> nodes m \<le> length (leaves m) * 64 \<and>
     ranks m = indexRank64 (labelBitmap m) \<and> selects m = fst (indexSelect32R64 (labelBitmap m))"

lemma leadingZeros_last:
  assumes "w \<noteq> 0"
  shows "bit w (63 - leadingZeros w)" "leadingZeros w < 64" "\<And>j. 63 - leadingZeros w < j \<Longrightarrow> \<not> bit w j"
proof -
  let ?P = "\<lambda>i. \<not> bit w (63 - i)" and ?t = "takeWhile (\<lambda>i. \<not> bit w (63 - i)) [0..<64]"
  obtain k where k: "bit w k" using assms by (auto simp: bit_eq_iff)
  then have k64: "k < 64" using bit_imp_le_length [of w k] by simp
  show len: "leadingZeros w < 64"
  proof (rule ccontr)
    assume "\<not> leadingZeros w < 64"
    then have "?t = [0..<64]" using takeWhile_eq_take [of ?P "[0..<64]"] by (simp add: leadingZeros_def)
    then have "\<forall>x\<in>{0..<64}. ?P x" by simp
    then have "?P (63 - k)" by (rule bspec) simp
    then show False using k k64 by simp
  qed
  show "bit w (63 - leadingZeros w)"
    using nth_length_takeWhile [of ?P "[0..<64]"] len by (simp add: leadingZeros_def)
  show "\<not> bit w j" if "63 - leadingZeros w < j" for j
  proof (cases "j < 64")
    case True
    then have "63 - j < length ?t" using that by (simp add: leadingZeros_def)
    then have "?P (63 - j)" using nth_mem [of "63 - j" ?t] set_takeWhileD [of _ ?P "[0..<64]"] takeWhile_nth [of "63 - j" ?P "[0..<64]"] by force
    then show ?thesis using True by simp
  next
    case False
    then show ?thesis using bit_imp_le_length [of w j] by auto
  qed
qed

lemma testBit_Cons: "testBit (w # ws) j \<longleftrightarrow> (if j < 64 then bit w j else testBit ws (j - 64))"
proof (cases "j < 64")
  case False
  then have "j = (j - 64) + 64" by simp
  then have "j div 64 = Suc ((j - 64) div 64)" "j mod 64 = (j - 64) mod 64"
    by (metis add_diff_cancel_right' div_add_self2 Suc_eq_plus1 zero_neq_numeral, metis mod_add_self2)
  then show ?thesis using False by (simp add: testBit_def)
qed (simp add: testBit_def)

lemma ones_Cons: "ones (testBit (w # ws)) (64 + n) = onesCount w + ones (testBit ws) n"
proof -
  have "ones (testBit (w # ws)) 64 = ones (bit w) 64" by (rule ones_cong) (simp add: testBit_Cons)
  moreover have "ones (\<lambda>j. testBit (w # ws) (64 + j)) n = ones (testBit ws) n" by (rule ones_cong) (simp add: testBit_Cons)
  ultimately show ?thesis by (simp add: ones_add onesCount_ones)
qed

lemma isSelect_last:
  assumes "w \<noteq> 0"
  shows "isSelect (bit w) (63 - leadingZeros w) (onesCount w - 1)"
proof -
  let ?p = "63 - leadingZeros w"
  note lz = leadingZeros_last [OF assms]
  have "ones (bit w) 64 = ones (bit w) (Suc ?p + leadingZeros w)" using lz(2) by simp
  also have "\<dots> = ones (bit w) (Suc ?p)"
    unfolding ones_add using ones_cong [of "leadingZeros w" "\<lambda>j. bit w (Suc ?p + j)" "\<lambda>_. False"] lz(3) by (simp add: ones_def)
  finally show ?thesis using lz(1) by (simp add: isSelect_def onesCount_ones)
qed

lemma or_word_index: "n < 64 \<Longrightarrow> push_bit 6 i OR n = i * 64 + (n :: nat)"
proof -
  assume n: "n < 64"
  have "push_bit 6 i OR n = push_bit 6 i + n"
  proof (rule disjunctive_add [symmetric])
    fix k
    have "\<not> bit n k" if "6 \<le> k"
    proof -
      have "(2 :: nat) ^ 6 \<le> 2 ^ k" using that by (intro power_increasing) simp_all
      then show ?thesis using n by (simp add: bit_iff_odd)
    qed
    then show "\<not> bit (push_bit 6 i) k \<or> \<not> bit n k" by (auto simp: bit_push_bit_iff not_le)
  qed
  then show ?thesis by (simp add: push_bit_eq_mult)
qed

lemma onesCount_0: "onesCount (w :: uint64) = 0 \<longleftrightarrow> w = 0"
proof
  assume "onesCount w = 0"
  then have "\<not> bit w k" if "k < 64" for k using that by (simp add: onesCount_def filter_empty_conv)
  then show "w = 0" by (intro bit_word_eqI) simp
qed (simp add: onesCount_def)

lemma scanWords_spec:
  "fst (scanWords i n l ws) = n + ones (testBit ws) (length ws * 64)"
  "ones (testBit ws) (length ws * 64) = 0 \<Longrightarrow> snd (scanWords i n l ws) = l"
  "0 < ones (testBit ws) (length ws * 64) \<Longrightarrow>
   \<exists>p. snd (scanWords i n l ws) = int (i * 64 + p) \<and> isSelect (testBit ws) p (ones (testBit ws) (length ws * 64) - 1)"
proof (induction ws arbitrary: i n l)
  case (Cons w ws)
  have t: "ones (testBit (w # ws)) (length (w # ws) * 64) = onesCount w + ones (testBit ws) (length ws * 64)"
    using ones_Cons [of w ws "length ws * 64"] by simp
  {
    case 1
    show ?case using Cons.IH(1) unfolding t by simp
  next
    case 2
    then have "w = 0" "ones (testBit ws) (length ws * 64) = 0" unfolding t by (simp_all add: onesCount_0)
    then show ?case using Cons.IH(2) by simp
  next
    case 3
    let ?l = "if w \<noteq> 0 then int (push_bit 6 i OR (63 - leadingZeros w)) else l"
    show ?case
    proof (cases "ones (testBit ws) (length ws * 64) = 0")
      case True
      then have w: "w \<noteq> 0" using 3 onesCount_0 [of w] unfolding t by simp
      have "ones (testBit (w # ws)) (63 - leadingZeros w) = ones (bit w) (63 - leadingZeros w)"
        by (rule ones_cong) (auto simp: testBit_Cons)
      then have "isSelect (testBit (w # ws)) (63 - leadingZeros w) (onesCount w - 1)"
        using isSelect_last [OF w] by (auto simp: isSelect_def testBit_Cons)
      then show ?thesis unfolding t using True w Cons.IH(2) [OF True] by (intro exI [of _ "63 - leadingZeros w"]) (simp add: or_word_index)
    next
      case False
      then obtain p where p: "snd (scanWords (i + 1) (n + onesCount w) ?l ws) = int ((i + 1) * 64 + p)"
        "isSelect (testBit ws) p (ones (testBit ws) (length ws * 64) - 1)" using Cons.IH(3) by blast
      have "isSelect (\<lambda>j. testBit (w # ws) (64 + j)) p (onesCount w + ones (testBit ws) (length ws * 64) - 1 - ones (testBit (w # ws)) 64)"
        using p(2) ones_Cons [of w ws 0] by (simp add: testBit_Cons)
      then have "isSelect (testBit (w # ws)) (64 + p) (onesCount w + ones (testBit ws) (length ws * 64) - 1)"
        using ones_Cons [of w ws 0] False by (intro isSelect_shift) simp_all
      then show ?thesis unfolding t using p(1) by (intro exI [of _ "64 + p"]) simp
    qed
  }
qed simp_all

lemma isSelect_unique: "isSelect P p f \<Longrightarrow> isSelect P q f \<Longrightarrow> p = q"
  unfolding isSelect_def using ones_unique by blast

lemma select_last:
  assumes "0 < nodes m"
  obtains p where "snd (scanWords 0 0 (-1) (labelBitmap m)) = int p" "isSelect (testBit (labelBitmap m)) p (nodes m - 1)"
  using scanWords_spec(3) [of "labelBitmap m" 0 0 "-1"] assms by (auto simp: nodes_def)

lemma succinctSet_init_fields [simp]:
  "leaves (succinctSet_init ss) = leaves ss" "labelBitmap (succinctSet_init ss) = labelBitmap ss"
  "labels (succinctSet_init ss) = labels ss" "ranks (succinctSet_init ss) = indexRank64 (labelBitmap ss)"
  "selects (succinctSet_init ss) = fst (indexSelect32R64 (labelBitmap ss))"
  by (simp_all add: succinctSet_init_def case_prod_unfold)

lemma words_for: "drop_bit 6 (n + 63) * 64 \<ge> (n :: nat)" "drop_bit 6 (n + 63) \<le> k \<longleftrightarrow> n \<le> k * 64"
  by (simp_all add: drop_bit_eq_div) linarith+

lemma check_wfTrie:
  assumes "checkSuccinctSet ls bm lb = Inr m"
  shows "wfTrie m"
proof -
  let ?n = "fst (scanWords 0 0 (-1) bm)" and ?l = "snd (scanWords 0 0 (-1) bm)"
  have m: "m = succinctSet_init \<lparr>leaves = ls @ replicate (drop_bit 6 (?n + 63) - length ls) 0, labelBitmap = bm, labels = lb, ranks = [], selects = []\<rparr>"
    and c: "int ?n = ?l + 1 - int ?n + 1" "int (length lb) = ?l + 1 - int ?n"
    using assms by (simp_all add: checkSuccinctSet_def Let_def case_prod_unfold split: if_splits)
  have n: "nodes m = ?n" using scanWords_spec(1) [of 0 0 "-1" bm] by (simp add: m nodes_def)
  have pos: "0 < nodes m"
  proof (rule ccontr)
    assume "\<not> 0 < nodes m"
    then have "?l = -1" using scanWords_spec(2) [of bm 0 0 "-1"] by (simp add: m nodes_def)
    then show False using c(1) n \<open>\<not> 0 < nodes m\<close> by simp
  qed
  obtain p where p: "?l = int p" "isSelect (testBit bm) p (nodes m - 1)"
    using select_last [OF pos] by (auto simp: m)
  have "p = 2 * nodes m - 2" "length lb = nodes m - 1" using c p(1) n pos by linarith+
  moreover have "nodes m \<le> length (leaves m) * 64" using words_for(1) [of ?n] n by (auto simp: m)
  ultimately show ?thesis using p(2) pos by (simp add: wfTrie_def m)
qed

lemma wfTrie_check:
  assumes "wfTrie m"
  shows "checkSuccinctSet (leaves m) (labelBitmap m) (labels m) = Inr m"
proof -
  let ?n = "fst (scanWords 0 0 (-1) (labelBitmap m))" and ?l = "snd (scanWords 0 0 (-1) (labelBitmap m))"
  have wf: "0 < nodes m" "isSelect (testBit (labelBitmap m)) (2 * nodes m - 2) (nodes m - 1)" "length (labels m) = nodes m - 1"
    "nodes m \<le> length (leaves m) * 64" "ranks m = indexRank64 (labelBitmap m)" "selects m = fst (indexSelect32R64 (labelBitmap m))"
    using assms by (simp_all add: wfTrie_def)
  have n: "?n = nodes m" using scanWords_spec(1) [of 0 0 "-1" "labelBitmap m"] by (simp add: nodes_def)
  obtain p where p: "?l = int p" "isSelect (testBit (labelBitmap m)) p (nodes m - 1)" using select_last [OF wf(1)] .
  then have "p = 2 * nodes m - 2" using isSelect_unique wf(2) by blast
  then have l: "?l = int (2 * nodes m - 2)" using p(1) by simp
  have "drop_bit 6 (nodes m + 63) - length (leaves m) = 0" using wf(4) words_for(2) by simp
  moreover have "succinctSet_init \<lparr>leaves = leaves m, labelBitmap = labelBitmap m, labels = labels m, ranks = [], selects = []\<rparr> = m"
    using wf(5,6) by (simp add: succinctSet_init_def case_prod_unfold)
  ultimately show ?thesis
    using wf(1,3) by (simp add: checkSuccinctSet_def Let_def case_prod_unfold n l of_nat_diff)
qed

section \<open>Cursors\<close>

text \<open>
  A cursor is a node with a bit of its block: the ones before the bit are as many as the node's number.
  The lookups only move between cursors.
\<close>

definition cursor :: "succinctSet \<Rightarrow> nat \<Rightarrow> nat \<Rightarrow> bool" where
  "cursor m i p \<longleftrightarrow> wfTrie m \<and> i < nodes m \<and> ones (testBit (labelBitmap m)) p = i"

lemma cursor_root: "wfTrie m \<Longrightarrow> cursor m 0 0"
  by (simp add: cursor_def wfTrie_def)

lemma cursor_inside:
  assumes "cursor m i p"
  shows "p \<le> 2 * nodes m - 2" "p < length (labelBitmap m) * 64"
proof -
  let ?P = "testBit (labelBitmap m)" and ?L = "2 * nodes m - 2"
  have wf: "?P ?L" "ones ?P ?L = nodes m - 1" "0 < nodes m" and c: "i < nodes m" "ones ?P p = i"
    using assms by (simp_all add: cursor_def wfTrie_def isSelect_def)
  show "p \<le> ?L"
  proof (rule ccontr)
    assume "\<not> p \<le> ?L"
    then have "ones ?P ?L < ones ?P p" using wf(1) by (intro ones_less) simp_all
    then show False using wf c by simp
  qed
  moreover have "?L < length (labelBitmap m) * 64" using wf(1) by (simp add: testBit_def div_less_iff_less_mult)
  ultimately show "p < length (labelBitmap m) * 64" by simp
qed

lemma cursor_bit:
  assumes "cursor m i p"
  obtains b where "getBit (labelBitmap m) p = Some b" "b \<noteq> 0 \<longleftrightarrow> testBit (labelBitmap m) p"
  using cursor_inside(2) [OF assms] getBit_eq [of p "labelBitmap m"] by (auto simp: div_less_iff_less_mult)

lemma cursor_leaf:
  assumes "cursor m i p"
  obtains b where "getBit (leaves m) i = Some b"
  using assms getBit_eq [of i "leaves m"] by (auto simp: cursor_def wfTrie_def div_less_iff_less_mult)

lemma cursor_next:
  assumes "cursor m i p" "\<not> testBit (labelBitmap m) p"
  shows "cursor m i (p + 1)"
  using assms by (simp add: cursor_def)

lemma cursor_child:
  assumes "cursor m i p" "\<not> testBit (labelBitmap m) p"
  shows "\<exists>c. index (labels m) (p - i) = Some c"
    and "countZeros (labelBitmap m) (ranks m) (p + 1) = Some (p + 1 - i)"
    and "\<exists>q. selectIthOne (labelBitmap m) (ranks m) (selects m) (p + 1 - i - 1) = Some q \<and> cursor m (p + 1 - i) (q + 1)"
    and "\<And>q. selectIthOne (labelBitmap m) (ranks m) (selects m) (p + 1 - i - 1) = Some q \<Longrightarrow> isSelect (testBit (labelBitmap m)) q (p - i)"
proof -
  let ?P = "testBit (labelBitmap m)" and ?bm = "labelBitmap m"
  have wf: "length (labels m) = nodes m - 1" "ranks m = indexRank64 ?bm" "selects m = fst (indexSelect32R64 ?bm)" "wfTrie m"
    "?P (2 * nodes m - 2)" "ones ?P (2 * nodes m - 2) = nodes m - 1" "i < nodes m" "ones ?P p = i"
    using assms(1) by (simp_all add: cursor_def wfTrie_def isSelect_def)
  note next_cursor = cursor_next [OF assms] 
  have ip: "i \<le> p" using ones_le [of ?P p] wf(8) by simp
  have le: "p + 1 \<le> 2 * nodes m - 2" using cursor_inside(1) [OF next_cursor] .
  from le obtain d where d: "2 * nodes m - 2 = p + 1 + d" by (metis le_iff_add)
  have "nodes m - 1 = i + ones (\<lambda>j. ?P (p + 1 + j)) d"
    using ones_add [of ?P "p + 1" d] wf(6,8) assms(2) unfolding d by simp
  then have lt: "p - i < nodes m - 1" using ones_le [of "\<lambda>j. ?P (p + 1 + j)" d] d wf(7) ip by linarith
  then show "\<exists>c. index (labels m) (p - i) = Some c" by (simp add: index_def wf(1))
  show "countZeros ?bm (ranks m) (p + 1) = Some (p + 1 - i)"
    using countZeros_eq [of "p + 1" ?bm] cursor_inside(2) [OF next_cursor] wf(2,8) assms(2) by (simp add: mult.commute)
  have "p - i < ones ?P (length ?bm * 64)" using lt by (simp add: nodes_def)
  from selectIthOne_eq [OF this] obtain q where q: "selectIthOne ?bm (ranks m) (selects m) (p + 1 - i - 1) = Some q" "isSelect ?P q (p - i)"
    using wf(2,3) ip by (auto simp: Suc_diff_le)
  then have "cursor m (p + 1 - i) (q + 1)" using lt ip wf(4) by (simp add: cursor_def isSelect_def Suc_diff_le)
  then show "\<exists>q. selectIthOne ?bm (ranks m) (selects m) (p + 1 - i - 1) = Some q \<and> cursor m (p + 1 - i) (q + 1)" using q by blast
  show "selectIthOne ?bm (ranks m) (selects m) (p + 1 - i - 1) = Some q' \<Longrightarrow> isSelect ?P q' (p - i)" for q' using q by simp
qed

section \<open>Lookups never leave the trie\<close>

lemma hasLabel_total:
  "cursor m i p \<Longrightarrow> length (labelBitmap m) * 64 - p < fuel \<Longrightarrow>
   \<exists>r. hasLabel fuel m c i p = Some r \<and> (\<forall>q. r = Inr q \<longrightarrow> cursor m i q \<and> \<not> testBit (labelBitmap m) q)"
proof (induction fuel arbitrary: p)
  case (Suc fuel)
  obtain b where b: "getBit (labelBitmap m) p = Some b" "b \<noteq> 0 \<longleftrightarrow> testBit (labelBitmap m) p"
    using cursor_bit [OF Suc.prems(1)] .
  show ?case
  proof (cases "testBit (labelBitmap m) p")
    case True
    then show ?thesis using b by simp
  next
    case False
    note child = cursor_child [OF Suc.prems(1) False]
    obtain l where l: "index (labels m) (p - i) = Some l" using child(1) by blast
    obtain q where q: "cursor m (p + 1 - i) (q + 1)" using child(3) by blast
    obtain h where h: "getBit (leaves m) (p + 1 - i) = Some h" using cursor_leaf [OF q] .
    have "length (labelBitmap m) * 64 - (p + 1) < fuel" using Suc.prems(2) cursor_inside(2) [OF Suc.prems(1)] by simp
    from Suc.IH [OF cursor_next [OF Suc.prems(1) False] this] obtain r where
      r: "hasLabel fuel m c i (p + 1) = Some r" "\<forall>q. r = Inr q \<longrightarrow> cursor m i q \<and> \<not> testBit (labelBitmap m) q" by blast
    show ?thesis using b False l child(2) h r Suc.prems(1) by (auto simp: Let_def)
  qed
qed simp

lemma hasTail_total:
  "cursor m i p \<Longrightarrow> length (labelBitmap m) * 64 - p < fuel \<Longrightarrow> hasTail fuel m i p \<noteq> None"
proof (induction fuel arbitrary: p)
  case (Suc fuel)
  obtain b where b: "getBit (labelBitmap m) p = Some b" "b \<noteq> 0 \<longleftrightarrow> testBit (labelBitmap m) p"
    using cursor_bit [OF Suc.prems(1)] .
  show ?case
  proof (cases "testBit (labelBitmap m) p")
    case False
    obtain l where l: "index (labels m) (p - i) = Some l" using cursor_child(1) [OF Suc.prems(1) False] by blast
    have "length (labelBitmap m) * 64 - (p + 1) < fuel" using Suc.prems(2) cursor_inside(2) [OF Suc.prems(1)] by simp
    from Suc.IH [OF cursor_next [OF Suc.prems(1) False] this] show ?thesis using b False l by auto
  qed (use b in auto)
qed simp

lemma bitmapFuel_enough: "length (labelBitmap m) * 64 - p < bitmapFuel m"
  by (simp add: bitmapFuel_def)

lemma has_total: "cursor m i p \<Longrightarrow> matcher_has_from m key i p \<noteq> None"
proof (induction key arbitrary: i p)
  case Nil
  obtain b where "getBit (leaves m) i = Some b" using cursor_leaf [OF Nil] .
  then show ?case using hasTail_total [OF Nil bitmapFuel_enough] by (simp del: not_None_eq)
next
  case (Cons c key)
  from hasLabel_total [OF Cons.prems bitmapFuel_enough] obtain r where
    r: "hasLabel (bitmapFuel m) m c i p = Some r" "\<forall>q. r = Inr q \<longrightarrow> cursor m i q \<and> \<not> testBit (labelBitmap m) q" by blast
  show ?case
  proof (cases r)
    case (Inr q)
    then have q: "cursor m i q" "\<not> testBit (labelBitmap m) q" using r(2) by simp_all
    note child = cursor_child [OF q]
    then show ?thesis using r(1) Inr child(2) child(3) Cons.IH by auto
  qed (use r in simp)
qed

lemma tryDrops_total: "(\<And>k. rec k \<noteq> None) \<Longrightarrow> tryDrops rec key \<noteq> None"
proof (induction key)
  case (Cons c key)
  then show ?case using Cons.prems [of "c # key"] by (auto split: option.splits bool.splits)
qed simp

lemma childNode_total:
  assumes "cursor m i p" "\<not> testBit (labelBitmap m) p"
  obtains q where "childNode m p = Some (p + 1 - i, q)" "cursor m (p + 1 - i) q"
  using cursor_child(2,3) [OF assms] by (auto simp: childNode_def)

lemma adguardLabel_total:
  assumes rec: "\<And>k i p. cursor m i p \<Longrightarrow> rec k i p \<noteq> None"
  shows "cursor m i p \<Longrightarrow> length (labelBitmap m) * 64 - p < fuel \<Longrightarrow>
   \<exists>r. adguardLabel fuel rec m key i p = Some r \<and> (\<forall>q. r = Inr q \<longrightarrow> cursor m i q \<and> \<not> testBit (labelBitmap m) q)"
proof (induction fuel arbitrary: p)
  case (Suc fuel)
  obtain b where b: "getBit (labelBitmap m) p = Some b" "b \<noteq> 0 \<longleftrightarrow> testBit (labelBitmap m) p"
    using cursor_bit [OF Suc.prems(1)] .
  show ?case
  proof (cases "testBit (labelBitmap m) p")
    case True
    then show ?thesis using b by simp
  next
    case False
    note child = cursor_child [OF Suc.prems(1) False]
    obtain l where l: "index (labels m) (p - i) = Some l" using child(1) by blast
    obtain q where q: "childNode m p = Some (p + 1 - i, q)" "cursor m (p + 1 - i) q"
      using childNode_total [OF Suc.prems(1) False] .
    obtain h where h: "getBit (leaves m) (p + 1 - i) = Some h" using cursor_leaf [OF q(2)] .
    have d: "tryDrops (\<lambda>k. rec k (p + 1 - i) q) key \<noteq> None" by (rule tryDrops_total) (rule rec [OF q(2)])
    have "length (labelBitmap m) * 64 - (p + 1) < fuel" using Suc.prems(2) cursor_inside(2) [OF Suc.prems(1)] by simp
    from Suc.IH [OF cursor_next [OF Suc.prems(1) False] this] obtain r where
      r: "adguardLabel fuel rec m key i (p + 1) = Some r" "\<forall>q. r = Inr q \<longrightarrow> cursor m i q \<and> \<not> testBit (labelBitmap m) q" by blast
    show ?thesis using b False l child(2) h r q d Suc.prems(1)
      by (auto simp: Let_def split: option.splits bool.splits)
  qed
qed simp

lemma adguardTail_total:
  assumes rec: "\<And>k i p. cursor m i p \<Longrightarrow> rec k i p \<noteq> None"
  shows "cursor m i p \<Longrightarrow> length (labelBitmap m) * 64 - p < fuel \<Longrightarrow> adguardTail fuel rec m i p \<noteq> None"
proof (induction fuel arbitrary: p)
  case (Suc fuel)
  obtain b where b: "getBit (labelBitmap m) p = Some b" "b \<noteq> 0 \<longleftrightarrow> testBit (labelBitmap m) p"
    using cursor_bit [OF Suc.prems(1)] .
  show ?case
  proof (cases "testBit (labelBitmap m) p")
    case False
    obtain l where l: "index (labels m) (p - i) = Some l" using cursor_child(1) [OF Suc.prems(1) False] by blast
    obtain q where q: "childNode m p = Some (p + 1 - i, q)" "cursor m (p + 1 - i) q"
      using childNode_total [OF Suc.prems(1) False] .
    have "length (labelBitmap m) * 64 - (p + 1) < fuel" using Suc.prems(2) cursor_inside(2) [OF Suc.prems(1)] by simp
    from Suc.IH [OF cursor_next [OF Suc.prems(1) False] this] show ?thesis using b False l q rec [OF q(2)] by auto
  qed (use b in auto)
qed simp

lemma adguardFrom_total:
  assumes rec: "\<And>k i p. cursor m i p \<Longrightarrow> rec k i p \<noteq> None"
  shows "cursor m i p \<Longrightarrow> adguardFrom rec m key i p \<noteq> None"
proof (induction key arbitrary: i p)
  case Nil
  obtain b where "getBit (leaves m) i = Some b" using cursor_leaf [OF Nil] .
  moreover have "adguardTail (bitmapFuel m) rec m i p \<noteq> None" using rec Nil bitmapFuel_enough by (rule adguardTail_total)
  ultimately show ?case by (simp del: not_None_eq)
next
  case (Cons c key)
  have "\<exists>r. adguardLabel (bitmapFuel m) rec m (c # key) i p = Some r \<and>
      (\<forall>q. r = Inr q \<longrightarrow> cursor m i q \<and> \<not> testBit (labelBitmap m) q)"
    using rec Cons.prems bitmapFuel_enough by (rule adguardLabel_total)
  then obtain r where r: "adguardLabel (bitmapFuel m) rec m (c # key) i p = Some r"
    "\<forall>q. r = Inr q \<longrightarrow> cursor m i q \<and> \<not> testBit (labelBitmap m) q" by blast
  show ?case
  proof (cases r)
    case (Inr q)
    then have q: "cursor m i q" "\<not> testBit (labelBitmap m) q" using r(2) by simp_all
    obtain q' where "childNode m q = Some (q + 1 - i, q')" "cursor m (q + 1 - i) q'" using childNode_total [OF q] .
    then show ?thesis using r(1) Inr Cons.IH by simp
  qed (use r in simp)
qed

lemma hasWithDepth_total: "cursor m i p \<Longrightarrow> hasWithDepth levels m key i p \<noteq> None"
proof (induction levels arbitrary: key i p)
  case (Suc levels)
  have "adguardFrom (hasWithDepth levels m) m key i p \<noteq> None" by (rule adguardFrom_total) (use Suc in blast)+
  then show ?case by simp
qed simp

lemma adguardMatchLoop_total:
  "wfTrie m \<Longrightarrow> length key < rounds \<Longrightarrow> adguardMatchLoop rounds m key \<noteq> None"
proof (induction rounds arbitrary: key)
  case (Suc rounds)
  have h: "adguard_has m (suffixLabel # key) \<noteq> None"
    using hasWithDepth_total [OF cursor_root [OF Suc.prems(1)]] by (simp add: adguard_has_def)
  have "adguardMatchLoop rounds m (drop (idx + 1) key) \<noteq> None" if "strings_Index key (CHR ''.'') = Some idx" for idx
    using Suc.prems strings_Index_Some [OF that] by (intro Suc.IH) auto
  with h show ?case by (auto split: option.splits bool.splits)
qed simp

section \<open>The enumeration of the keys\<close>

text \<open>
  Below the root a node's block starts after at least as many labels as its number, so children have
  larger numbers and the enumeration ends.
\<close>

definition deepCursor :: "succinctSet \<Rightarrow> nat \<Rightarrow> nat \<Rightarrow> bool" where
  "deepCursor m i p \<longleftrightarrow> cursor m i p \<and> 2 * i \<le> p"

lemma deepCursor_child:
  assumes "deepCursor m i p" "\<not> testBit (labelBitmap m) p"
    and "selectIthOne (labelBitmap m) (ranks m) (selects m) (p + 1 - i - 1) = Some q"
  shows "deepCursor m (p + 1 - i) (q + 1)" "i < p + 1 - i"
proof -
  let ?P = "testBit (labelBitmap m)"
  have c: "cursor m i p" "2 * i \<le> p" "ones ?P p = i" using assms(1) by (simp_all add: deepCursor_def cursor_def)
  note child = cursor_child [OF c(1) assms(2)]
  have q: "?P q" "ones ?P q = p - i" using child(4) [OF assms(3)] by (simp_all add: isSelect_def)
  have cur: "cursor m (p + 1 - i) (q + 1)" using child(3) assms(3) by auto
  have "p < q"
  proof (rule ccontr)
    assume "\<not> p < q"
    then have "q < p" using q(1) assms(2) by (metis linorder_neqE_nat)
    then have "ones ?P q < ones ?P p" using q(1) by (rule ones_less [rotated])
    then show False using q(2) c by simp
  qed
  then obtain d where d: "q = p + 1 + d" using less_iff_Suc_add [of p q] by auto
  have "ones ?P q = i + ones (\<lambda>j. ?P (p + 1 + j)) d" using ones_add [of ?P "p + 1" d] c(3) assms(2) by (simp add: d)
  then have "p - i \<le> i + d" using q(2) ones_le [of "\<lambda>j. ?P (p + 1 + j)" d] by simp
  then have "2 * (p + 1 - i) \<le> q + 1" using d c(2) by simp
  with cur show "deepCursor m (p + 1 - i) (q + 1)" by (simp add: deepCursor_def)
  show "i < p + 1 - i" using c(2) by simp
qed

lemma keysLoop_Nil: "keysLoop m [] cur res = Some res"
  by (subst keysLoop.simps) simp

lemma keysLoop_stop:
  "getBit (labelBitmap m) p = Some b \<Longrightarrow> b \<noteq> 0 \<Longrightarrow>
   keysLoop m ((i, p) # (n, k) # st) (cur @ [c]) res = keysLoop m ((n, k + 1) # st) cur res"
  by (subst keysLoop.simps) simp

lemma keysLoop_last: "getBit (labelBitmap m) p = Some b \<Longrightarrow> b \<noteq> 0 \<Longrightarrow> keysLoop m [(i, p)] cur res = Some res"
  by (subst keysLoop.simps) (simp add: keysLoop_Nil)

lemma keysLoop_child:
  "\<lbrakk>getBit (labelBitmap m) p = Some 0; index (labels m) (p - i) = Some c;
    countZeros (labelBitmap m) (ranks m) (p + 1) = Some i';
    selectIthOne (labelBitmap m) (ranks m) (selects m) (i' - 1) = Some q; getBit (leaves m) i' = Some l\<rbrakk> \<Longrightarrow>
   keysLoop m ((i, p) # st) cur res =
     keysLoop m ((i', q + 1) # (i, p) # st) (cur @ [c]) (if l \<noteq> 0 then res @ [cur @ [c]] else res)"
  by (subst keysLoop.simps) simp

text \<open>The loop with the frame of a node on top ends up at the bit that closes the node.\<close>

definition nodeYields :: "succinctSet \<Rightarrow> nat \<Rightarrow> nat \<Rightarrow> nat \<Rightarrow> string list \<Rightarrow> bool" where
  "nodeYields m i p e ks \<longleftrightarrow> (\<exists>b. getBit (labelBitmap m) e = Some b \<and> b \<noteq> 0) \<and>
     (\<forall>st cur res. keysLoop m ((i, p) # st) cur res = keysLoop m ((i, e) # st) cur (res @ map ((@) cur) ks))"

lemma nodeYields_end: "getBit (labelBitmap m) p = Some b \<Longrightarrow> b \<noteq> 0 \<Longrightarrow> nodeYields m i p p []"
  by (simp add: nodeYields_def)

lemma nodeYields_child:
  assumes "getBit (labelBitmap m) p = Some 0" "index (labels m) (p - i) = Some c"
    and "countZeros (labelBitmap m) (ranks m) (p + 1) = Some i'"
    and "selectIthOne (labelBitmap m) (ranks m) (selects m) (i' - 1) = Some q" "getBit (leaves m) i' = Some l"
    and child: "nodeYields m i' (q + 1) e' ks'" and rest: "nodeYields m i (p + 1) e ks"
  shows "nodeYields m i p e (map ((#) c) ((if l \<noteq> 0 then [[]] else []) @ ks') @ ks)"
proof -
  obtain b where b: "getBit (labelBitmap m) e' = Some b" "b \<noteq> 0" using child by (auto simp: nodeYields_def)
  have "keysLoop m ((i, p) # st) cur res =
      keysLoop m ((i, e) # st) cur (res @ map ((@) cur) (map ((#) c) ((if l \<noteq> 0 then [[]] else []) @ ks') @ ks))" for st cur res
  proof -
    let ?res = "if l \<noteq> 0 then res @ [cur @ [c]] else res"
    have "keysLoop m ((i, p) # st) cur res = keysLoop m ((i', q + 1) # (i, p) # st) (cur @ [c]) ?res"
      using assms(1-5) by (rule keysLoop_child)
    also have "\<dots> = keysLoop m ((i', e') # (i, p) # st) (cur @ [c]) (?res @ map ((@) (cur @ [c])) ks')"
      using child by (simp add: nodeYields_def)
    also have "\<dots> = keysLoop m ((i, p + 1) # st) cur (?res @ map ((@) (cur @ [c])) ks')"
      using b by (rule keysLoop_stop)
    also have "\<dots> = keysLoop m ((i, e) # st) cur ((?res @ map ((@) (cur @ [c])) ks') @ map ((@) cur) ks)"
      using rest by (simp add: nodeYields_def)
    moreover have "map ((@) (cur @ [c])) ks' = map ((@) cur) (map ((#) c) ks')" by (induction ks') simp_all
    ultimately show ?thesis by (simp del: map_map)
  qed
  then show ?thesis using rest unfolding nodeYields_def by blast
qed

lemma deepCursor_yields: "deepCursor m (fst ip) (snd ip) \<Longrightarrow> \<exists>e ks. nodeYields m (fst ip) (snd ip) e ks"
proof (induction ip rule: wf_induct_rule [OF wf_measures [of "[\<lambda>ip. nodes m - fst ip, \<lambda>ip. length (labelBitmap m) * 64 - snd ip]"]])
  case (1 ip)
  obtain i p where ip: "ip = (i, p)" by (cases ip)
  have d: "deepCursor m i p" and c: "cursor m i p" using "1.prems" by (simp_all add: ip deepCursor_def)
  obtain b where b: "getBit (labelBitmap m) p = Some b" "b \<noteq> 0 \<longleftrightarrow> testBit (labelBitmap m) p" using cursor_bit [OF c] .
  show ?case
  proof (cases "testBit (labelBitmap m) p")
    case True
    then show ?thesis using b nodeYields_end unfolding ip by fastforce
  next
    case False
    define j where "j = p + 1 - i"
    note child = cursor_child [OF c False, folded j_def]
    obtain l where l: "index (labels m) (p - i) = Some l" using child(1) by blast
    obtain q where q: "selectIthOne (labelBitmap m) (ranks m) (selects m) (j - 1) = Some q" "cursor m j (q + 1)" using child(3) by blast
    note deep = deepCursor_child [OF d False q(1) [unfolded j_def], folded j_def]
    obtain h where h: "getBit (leaves m) j = Some h" using cursor_leaf [OF q(2)] .
    have "nodes m - j < nodes m - i" using deep(2) q(2) by (simp add: cursor_def diff_less_mono2)
    then obtain e' ks' where e': "nodeYields m j (q + 1) e' ks'"
      using "1.IH" [of "(j, q + 1)"] deep(1) by (auto simp: ip)
    have "length (labelBitmap m) * 64 - (p + 1) < length (labelBitmap m) * 64 - p" using cursor_inside(2) [OF c] by simp
    moreover have "deepCursor m i (p + 1)" using d cursor_next [OF c False] by (simp add: deepCursor_def)
    ultimately obtain e ks where e: "nodeYields m i (p + 1) e ks" using "1.IH" [of "(i, p + 1)"] by (auto simp: ip)
    have "getBit (labelBitmap m) p = Some 0" using b False by simp
    from nodeYields_child [OF this l child(2) q(1) h e' e] show ?thesis unfolding ip by auto
  qed
qed

lemma keys_of_yields:
  assumes "nodeYields m 0 0 e ks" "getBit (leaves m) 0 = Some l"
  shows "succinctSet_keys m = Some ((if l \<noteq> 0 then [[]] else []) @ ks)"
proof -
  obtain b where "getBit (labelBitmap m) e = Some b" "b \<noteq> 0" using assms(1) by (auto simp: nodeYields_def)
  then have "keysLoop m [(0, e)] [] res = Some res" for res by (rule keysLoop_last)
  moreover have "keysLoop m [(0, 0)] [] res = keysLoop m [(0, e)] [] (res @ map ((@) []) ks)" for res
    using assms(1) unfolding nodeYields_def by blast
  ultimately show ?thesis by (simp add: succinctSet_keys_def assms(2) map_idI)
qed

lemma keys_total: "wfTrie m \<Longrightarrow> succinctSet_keys m \<noteq> None"
proof -
  assume wf: "wfTrie m"
  then have "deepCursor m 0 0" by (simp add: deepCursor_def cursor_root)
  then obtain e ks where "nodeYields m 0 0 e ks" using deepCursor_yields [of m "(0, 0)"] by auto
  then show ?thesis using keys_of_yields cursor_leaf [OF cursor_root [OF wf]] by (metis option.distinct(1))
qed

section \<open>Tries built from keys\<close>

lemma nodeBits_last: "P \<noteq> [] \<Longrightarrow> \<exists>bs. nodeBits keys P = bs @ [True]"
proof -
  assume "P \<noteq> []"
  then have "P = butlast P @ [last P]" by simp
  then have "nodeBits keys P = nodeBits keys (butlast P) @ replicate (length (kids keys (last P))) False @ [True]"
    by (metis node_append(3) node_Cons(3) node_Nil(3))
  then show ?thesis by (metis append.assoc)
qed

lemma represents_wfTrie:
  assumes "represents keys P m"
  shows "wfTrie m" "nodes m = length P"
proof -
  let ?bits = "nodeBits keys P" and ?bm = "labelBitmap m" and ?n = "length P"
  have P: "P = (0, length keys, 0) # nodeKids keys P" and lb: "labels m = nodeLabels keys P"
    and bits: "testBit ?bm = bitAt ?bits 0" and ix: "ranks m = indexRank64 ?bm" "selects m = fst (indexSelect32R64 ?bm)"
    using assms by (simp_all add: represents_def fun_eq_iff)
  have ne: "P \<noteq> []" using P by (metis list.distinct(1))
  have kids: "length (nodeKids keys P) = ?n - 1" using arg_cong [OF P, of length] by simp
  have pos: "0 < ?n" using ne by simp
  have len: "length ?bits = Suc (2 * ?n - 2)" using node_lengths(2) [of keys P] kids pos by linarith
  obtain bs where bs: "?bits = bs @ [True]" using nodeBits_last [OF ne] by blast
  then have bl: "length bs = 2 * ?n - 2" using len by simp
  have sel: "isSelect (testBit ?bm) (2 * ?n - 2) (?n - 1)"
    unfolding isSelect_def bits ones_bitAt using node_lengths(3) [of keys P] bs bl by (simp add: bitAt_def nth_append)
  then have "2 * ?n - 2 < length ?bm * 64" by (simp add: isSelect_def testBit_def div_less_iff_less_mult)
  then have "take (length ?bm * 64) ?bits = ?bits" using len by simp
  then have n: "nodes m = ?n" unfolding nodes_def bits ones_bitAt using node_lengths(3) by simp
  have "testBit (leaves m) (?n - 1)"
    using last_leaf [OF assms] ne assms by (simp add: represents_def bitAt_def last_conv_nth)
  then have "?n - 1 < length (leaves m) * 64" by (simp add: testBit_def div_less_iff_less_mult)
  then show "wfTrie m" using sel ix lb kids pos unfolding wfTrie_def n by (simp add: node_lengths)
  show "nodes m = ?n" by (rule n)
qed

lemma newSuccinctSet_wf:
  assumes "keysOK keys"
  obtains m where "newSuccinctSet keys = Some m" "wfTrie m" "trieNode m 0 0 (set keys)"
proof -
  obtain m where m: "newSuccinctSet keys = Some m" "trieNode m 0 0 (set keys)" using trieNode_root [OF assms] by blast
  obtain m' P where "newSuccinctSet keys = Some m'" "represents keys P m'" using newSuccinctSet_represents [OF assms] by blast
  with m(1) have "wfTrie m" using represents_wfTrie(1) by auto
  then show thesis using m by (intro that)
qed

lemma addChild_bounds:
  "length (labelBitmap ss) \<le> l \<Longrightarrow> foldl addChild (ss, l) cs = (ss', l') \<Longrightarrow>
   leaves ss' = leaves ss \<and> length (labelBitmap ss') \<le> l' \<and> l' = l + length cs \<and> length (labels ss') = length (labels ss) + length cs"
proof (induction cs arbitrary: ss l)
  case (Cons c cs)
  then show ?case
    using Cons.IH [of "ss\<lparr>labels := labels ss @ [c], labelBitmap := setBit (labelBitmap ss) l 0\<rparr>" "l + 1"]
    by (auto simp: addChild_step)
qed simp

text \<open>A trie has at most as many words and labels as there are nodes.\<close>

lemma build_bounds:
  "\<lbrakk>buildLoop fuel keys queue i ss lIdx = Some ss'; length (leaves ss) \<le> i; length (labelBitmap ss) \<le> lIdx;
    lIdx = i + length (labels ss)\<rbrakk> \<Longrightarrow>
   length (leaves ss') \<le> i + fuel \<and> length (labels ss') + length queue \<le> length (labels ss) + fuel \<and>
   length (labelBitmap ss') \<le> i + fuel + length (labels ss')"
proof (induction fuel keys queue i ss lIdx rule: buildLoop.induct)
  case (3 fuel keys s e col queue i ss lIdx)
  obtain k where k: "index keys s = Some k" using "3.prems"(1) by (auto split: option.splits)
  obtain s' ss1 where s1: "(if col = length k then (s + 1, ss\<lparr>leaves := setBit (leaves ss) i 1\<rparr>) else (s, ss)) = (s', ss1)"
    by (metis surj_pair)
  have b1: "length (leaves ss1) \<le> i + 1" "labelBitmap ss1 = labelBitmap ss" "labels ss1 = labels ss"
    using s1 "3.prems"(2) by (auto split: if_splits)
  obtain ch where ch: "childLoop keys col e (e - s') s' = Some ch"
    using "3.prems"(1) k s1 by (auto simp: Let_def split: option.splits)
  obtain ss2 l2 where s2: "foldl addChild (ss1, lIdx) (map snd ch) = (ss2, l2)" by (metis surj_pair)
  have b2: "leaves ss2 = leaves ss1" "length (labelBitmap ss2) \<le> l2" "l2 = lIdx + length ch" "length (labels ss2) = length (labels ss) + length ch"
    using addChild_bounds [OF _ s2] b1 "3.prems"(3) by simp_all
  let ?ss3 = "ss2\<lparr>labelBitmap := setBit (labelBitmap ss2) l2 1\<rparr>"
  have r: "buildLoop fuel keys (queue @ map fst ch) (i + 1) ?ss3 (l2 + 1) = Some ss'"
    using "3.prems"(1) k s1 ch s2 by (simp add: Let_def)
  have "length (setBit (labelBitmap ss2) l2 1) \<le> l2 + 1" using b2(2) by simp
  then have "length (leaves ss') \<le> i + 1 + fuel \<and>
      length (labels ss') + length (queue @ map fst ch) \<le> length (labels ?ss3) + fuel \<and>
      length (labelBitmap ss') \<le> i + 1 + fuel + length (labels ss')"
    using "3.IH" [OF k _ s1 [symmetric] ch refl s2 [symmetric] refl r] b1 b2 "3.prems"(4) by simp
  then show ?case using b2 "3.prems"(4) by simp
qed auto

lemma newSuccinctSet_bounds:
  assumes "newSuccinctSet keys = Some m"
  shows "length (leaves m) \<le> 1 + sum_list (map length keys)" "length (labels m) \<le> sum_list (map length keys)"
    and "length (labelBitmap m) \<le> 1 + 2 * sum_list (map length keys)"
proof -
  obtain ss where ss: "buildLoop (1 + sum_list (map length keys)) keys [(0, length keys, 0)] 0 emptySuccinctSet 0 = Some ss"
    "m = succinctSet_init ss" using assms by (auto simp: newSuccinctSet_def)
  show "length (leaves m) \<le> 1 + sum_list (map length keys)" "length (labels m) \<le> sum_list (map length keys)"
    "length (labelBitmap m) \<le> 1 + 2 * sum_list (map length keys)"
    using build_bounds [OF ss(1)] by (auto simp: emptySuccinctSet_def ss(2))
qed

text \<open>The strings below a node in order: the empty one, then those of the children.\<close>

lemma sorted_below:
  assumes "finite (L :: string set)"
  shows "sorted_list_of_set L = (if [] \<in> L then [[]] else []) @
    concat (map (\<lambda>c. map ((#) c) (sorted_list_of_set (tails c L))) (sorted_list_of_set (heads L)))"
    (is "_ = ?e @ concat (map ?f ?cs)")
proof -
  have fh: "finite (heads L)" by (rule finite)
  have ft: "finite (tails c L)" for c
    by (rule finite_subset [OF _ finite_imageI [OF assms, of tl]]) (auto simp: tails_def image_iff, metis list.sel(3))
  have sorted: "sorted_wrt (<) (map ((#) c) (sorted_list_of_set (tails c L)))" for c
    using strict_sorted_list_of_set [of "tails c L"] by (simp add: sorted_wrt_map)
  have "sorted_wrt (<) (concat (map ?f cs))" if "sorted_wrt (<) cs" for cs
    using that by (induction cs) (auto simp: sorted_wrt_append sorted)
  then have "sorted_wrt (<) (concat (map ?f ?cs))" by simp
  then have "sorted_wrt (<) (?e @ concat (map ?f ?cs))" by (auto simp: sorted_wrt_append)
  then have "sorted (?e @ concat (map ?f ?cs)) \<and> distinct (?e @ concat (map ?f ?cs))" by (simp only: strict_sorted_iff)
  then have "sorted_list_of_set (set (?e @ concat (map ?f ?cs))) = ?e @ concat (map ?f ?cs)"
    by (intro sorted_list_of_set.idem_if_sorted_distinct) blast+
  moreover have "set (?e @ concat (map ?f ?cs)) = L"
  proof (rule set_eqI)
    fix w
    show "w \<in> set (?e @ concat (map ?f ?cs)) \<longleftrightarrow> w \<in> L"
      using fh ft by (cases w) (auto simp: heads_def tails_def)
  qed
  ultimately show ?thesis by simp
qed

lemma trieNode_finite: "trieNode m i p L \<Longrightarrow> finite L"
proof -
  assume "trieNode m i p L"
  then obtain keys q where "L = lang keys q" unfolding trieNode_def by blast
  moreover have "finite (lang keys (s, e, col))" for s e col
    using finite_surj [of "{j. j < e}" "lang keys (s, e, col)" "\<lambda>j. drop col (keys ! j)"] by auto
  ultimately show ?thesis by (cases q) auto
qed

lemma trieNode_yields:
  assumes "\<And>w. w \<in> L \<Longrightarrow> length w \<le> d" "trieNode m i p L" "t \<le> card (heads L)"
  shows "\<exists>e. nodeYields m i (p + t) e
    (concat (map (\<lambda>c. map ((#) c) (sorted_list_of_set (tails c L))) (drop t (sorted_list_of_set (heads L)))))"
  using assms
proof (induction d arbitrary: i p L t)
  case 0
  then have "heads L = {}" by (force simp: heads_def)
  moreover obtain b where "getBit (labelBitmap m) (p + card (heads L)) = Some b" "b \<noteq> 0" using st.stop [OF "0.prems"(2)] by blast
  ultimately show ?case using nodeYields_end "0.prems"(3) by fastforce
next
  case (Suc d)
  note node = Suc.prems(2) and IH = Suc.IH
  have len: "length w \<le> d" if "w \<in> tails c L" for w c using Suc.prems(1) [of "c # w"] that by (simp add: tails_def)
  from Suc.prems(3) show ?case
  proof (induction "card (heads L) - t" arbitrary: t)
    case 0
    then have "t = card (heads L)" by simp
    moreover obtain b where "getBit (labelBitmap m) (p + card (heads L)) = Some b" "b \<noteq> 0" using st.stop [OF node] by blast
    ultimately show ?case using nodeYields_end by fastforce
  next
    case (Suc n)
    then have t: "t < card (heads L)" "n = card (heads L) - Suc t" "Suc t \<le> card (heads L)" by auto
    let ?c = "sorted_list_of_set (heads L) ! t" and ?ts = "\<lambda>c. sorted_list_of_set (tails c L)"
    obtain i' q where child: "countZeros (labelBitmap m) (ranks m) (p + t + 1) = Some i'"
      "selectIthOne (labelBitmap m) (ranks m) (selects m) (i' - 1) = Some q" "trieNode m i' (q + 1) (tails ?c L)"
      using st.child_node [OF node t(1)] by blast
    obtain l where l: "getBit (leaves m) i' = Some l" "l \<noteq> 0 \<longleftrightarrow> [] \<in> tails ?c L" using st.leaf [OF child(3)] by blast
    obtain e' where e': "nodeYields m i' (q + 1) e'
        (concat (map (\<lambda>c. map ((#) c) (sorted_list_of_set (tails c (tails ?c L)))) (sorted_list_of_set (heads (tails ?c L)))))"
      using IH [of "tails ?c L" i' "q + 1" 0] len child(3) by auto
    obtain e where e: "nodeYields m i (p + t + 1) e (concat (map (\<lambda>c. map ((#) c) (?ts c)) (drop (Suc t) (sorted_list_of_set (heads L)))))"
      using Suc.hyps(1) [OF t(2,3)] by auto
    from nodeYields_child [OF st.child_bit [OF node t(1)] st.child_label [OF node t(1)] child(1,2) l(1) e' e]
    have "nodeYields m i (p + t) e (map ((#) ?c) (?ts ?c) @ concat (map (\<lambda>c. map ((#) c) (?ts c)) (drop (Suc t) (sorted_list_of_set (heads L)))))"
      unfolding l(2) sorted_below [OF trieNode_finite [OF child(3)], symmetric] .
    moreover have "drop t (sorted_list_of_set (heads L)) = ?c # drop (Suc t) (sorted_list_of_set (heads L))"
      using t(1) by (intro Cons_nth_drop_Suc [symmetric]) simp
    ultimately show ?case by auto
  qed
qed

lemma keys_exact: "trieNode m 0 0 L \<Longrightarrow> succinctSet_keys m = Some (sorted_list_of_set L)"
proof -
  assume n: "trieNode m 0 0 L"
  note fin = trieNode_finite [OF n]
  obtain l where l: "getBit (leaves m) 0 = Some l" "l \<noteq> 0 \<longleftrightarrow> [] \<in> L" using st.leaf [OF n] by blast
  have "length w \<le> Max (length ` L)" if "w \<in> L" for w using fin that by simp
  from trieNode_yields [OF this n, of 0] obtain e where
    "nodeYields m 0 0 e (concat (map (\<lambda>c. map ((#) c) (sorted_list_of_set (tails c L))) (sorted_list_of_set (heads L))))" by auto
  from keys_of_yields [OF this l(1)] show ?thesis using sorted_below [OF fin] l(2) by simp
qed

section \<open>Round trips\<close>

lemma readSuccinctSet_write:
  assumes "wfTrie m" "length (leaves m) < 2 ^ 64" "length (labelBitmap m) < 2 ^ 64" "length (labels m) < 2 ^ 64"
  shows "readSuccinctSet slack (s\<lparr>pending := succinctSet_Write m @ rest\<rparr>) = Inr (m, s\<lparr>pending := rest\<rparr>)"
  using assms
  by (simp add: readSuccinctSet_def succinctSet_Write_def ReadByte_then slice64.then_read slice8.then_read liftR_def wfTrie_check)

lemma liftR_Inr: "liftR r s = Inr (x, s') \<longleftrightarrow> r = Inr x \<and> s' = s"
  by (cases r) (auto simp: liftR_def)

lemma readSuccinctSet_wf: "readSuccinctSet slack s = Inr (m, s') \<Longrightarrow> wfTrie m"
  by (auto simp: readSuccinctSet_def bindRd_def bindR_eq_Inr liftR_Inr intro: check_wfTrie)

section \<open>Lists recovered from a matcher\<close>

lemma suffix_dot: "hd p = CHR ''.'' \<Longrightarrow> p \<noteq> [] \<Longrightarrow> CHR ''.'' # tl p = p"
  by (cases p) auto

definition wholePrefix :: "string set \<Rightarrow> string \<Rightarrow> bool" where
  "wholePrefix K p \<longleftrightarrow> hd p = CHR ''.'' \<and> tl p \<in> K \<and> hd (tl p) \<noteq> prefixLabel \<and> hd (tl p) \<noteq> rootLabel"

lemma dump_sets:
  assumes "succinctSet_keys m = Some ks0" "mapOption reverseDomain ks0 = Some ks" "\<forall>k\<in>set ks. keyShape k"
  shows "\<exists>ds ss. Matcher_Dump m = Some (ds, ss) \<and>
    set ds = {k \<in> set ks. hd k \<noteq> prefixLabel \<and> hd k \<noteq> rootLabel \<and>
      \<not> (\<exists>p. prefixLabel # p \<in> set ks \<and> wholePrefix (set ks) p \<and> tl p = k)} \<and>
    set ss = {s. rootLabel # s \<in> set ks} \<union>
      {if wholePrefix (set ks) p then tl p else p |p. prefixLabel # p \<in> set ks}"
proof -
  have nil: "[] \<notin> set ks" using assms(3) by (auto simp: keyShape_def)
  have pre: "p \<in> tl ` {k \<in> set ks. hd k = l} \<longleftrightarrow> l # p \<in> set ks" for p l
  proof
    assume "p \<in> tl ` {k \<in> set ks. hd k = l}"
    then obtain k where "k \<in> set ks" "hd k = l" "p = tl k" by auto
    then show "l # p \<in> set ks" using nil by (metis list.collapse)
  qed force
  then have pres: "tl ` {k \<in> set ks. hd k = l} = {p. l # p \<in> set ks}" for l by blast
  define pm where "pm = remdups (map tl (filter (\<lambda>k. hd k = prefixLabel) ks))"
  define rt where "rt = map tl (filter (\<lambda>k. hd k = rootLabel) ks)"
  have sets: "set pm = {p. prefixLabel # p \<in> set ks}" "set rt = {s. rootLabel # s \<in> set ks}"
    unfolding pm_def rt_def by (simp_all add: pres)
  have nilp: "[] \<notin> set pm" unfolding sets using assms(3) by (force simp: keyShape_def)
  let ?dom = "remdups (filter (\<lambda>k. hd k \<noteq> prefixLabel \<and> hd k \<noteq> rootLabel) ks)"
  have whole: "hd p = CHR ''.'' \<and> tl p \<in> set ?dom \<longleftrightarrow> wholePrefix (set ks) p" for p by (auto simp: wholePrefix_def)
  have a: "Matcher_Dump m = Some
      (sort (filter (\<lambda>d. \<not> list_ex (\<lambda>p. wholePrefix (set ks) p \<and> tl p = d) pm) ?dom),
       sort (rt @ map (\<lambda>p. if wholePrefix (set ks) p then tl p else p) pm))"
    unfolding Matcher_Dump_def assms(1,2) Option.bind.simps Let_def whole if_not_P [OF nil]
      pm_def [symmetric] rt_def [symmetric] if_not_P [OF nilp] ..
  have b: "set (filter (\<lambda>d. \<not> list_ex (\<lambda>p. wholePrefix (set ks) p \<and> tl p = d) pm) ?dom) =
      {k \<in> set ks. hd k \<noteq> prefixLabel \<and> hd k \<noteq> rootLabel \<and>
        \<not> (\<exists>p. prefixLabel # p \<in> set ks \<and> wholePrefix (set ks) p \<and> tl p = k)}"
    by (auto simp: list_ex_iff sets)
  have c: "set (rt @ map (\<lambda>p. if wholePrefix (set ks) p then tl p else p) pm) =
      {s. rootLabel # s \<in> set ks} \<union> {if wholePrefix (set ks) p then tl p else p |p. prefixLabel # p \<in> set ks}"
    by (auto simp: sets image_iff)
  show ?thesis by (intro exI conjI, rule a, simp only: set_sort b, simp only: set_sort c)
qed

lemma dump_accepts:
  assumes shape: "\<forall>k\<in>K. keyShape k" and form: "\<forall>k\<in>K. keyForm k"
    and ds: "set ds = {k \<in> K. hd k \<noteq> prefixLabel \<and> hd k \<noteq> rootLabel \<and>
      \<not> (\<exists>p. prefixLabel # p \<in> K \<and> wholePrefix K p \<and> tl p = k)}"
    and ss: "set ss = {s. rootLabel # s \<in> K} \<union> {if wholePrefix K p then tl p else p |p. prefixLabel # p \<in> K}"
  shows "q \<in> set ds \<or> (\<exists>s\<in>set ss. covers s q) \<longleftrightarrow> (\<exists>k\<in>K. keyAccepts k q)"
proof -
  have root: "covers s q \<longleftrightarrow> keyAccepts (rootLabel # s) q" if "rootLabel # s \<in> K" for s
    using bspec [OF shape that] label_order by (auto simp: keyShape_def covers_def)
  have pre: "hd p = CHR ''.'' \<and> p \<noteq> []" "keyAccepts (prefixLabel # p) q \<longleftrightarrow> suffix p q" if "prefixLabel # p \<in> K" for p
    using bspec [OF shape that] label_order by (simp_all add: keyShape_def)
  have name: "keyAccepts k q \<longleftrightarrow> q = k" "hd k \<noteq> CHR ''.''" if "k \<in> K" "hd k \<noteq> prefixLabel" "hd k \<noteq> rootLabel" for k
    using bspec [OF shape that(1)] that(2,3) by (cases k; simp add: keyShape_def)+
  have whole: "covers (tl p) q \<longleftrightarrow> q = tl p \<or> suffix p q" if "prefixLabel # p \<in> K" "wholePrefix K p" for p
    using that name(2) [of "tl p"] pre(1) suffix_dot by (auto simp: wholePrefix_def covers_def)
  have part: "covers p q \<longleftrightarrow> suffix p q" if "prefixLabel # p \<in> K" for p using pre(1) [OF that] by (simp add: covers_def)
  show ?thesis
  proof
    assume "q \<in> set ds \<or> (\<exists>s\<in>set ss. covers s q)"
    then consider "q \<in> set ds" | s where "rootLabel # s \<in> K" "covers s q"
      | p where "prefixLabel # p \<in> K" "covers (if wholePrefix K p then tl p else p) q" using ss by blast
    then show "\<exists>k\<in>K. keyAccepts k q"
    proof cases
      case 1
      then show ?thesis using ds name(1) by blast
    next
      case 2
      then show ?thesis using root by blast
    next
      case 3
      then have "suffix p q \<or> (wholePrefix K p \<and> q = tl p)" using whole part by (auto split: if_splits)
      then show ?thesis
      proof
        assume "suffix p q"
        then have "keyAccepts (prefixLabel # p) q" using pre(2) 3(1) by blast
        then show ?thesis using 3(1) by blast
      qed (use name(1) [of "tl p"] in \<open>auto simp: wholePrefix_def\<close>)
    qed
  next
    assume "\<exists>k\<in>K. keyAccepts k q"
    then obtain k where k: "k \<in> K" "keyAccepts k q" by blast
    consider s where "k = rootLabel # s" | p where "k = prefixLabel # p" | "hd k \<noteq> prefixLabel" "hd k \<noteq> rootLabel"
      using bspec [OF shape k(1)] by (cases k) (auto simp: keyShape_def)
    then show "q \<in> set ds \<or> (\<exists>s\<in>set ss. covers s q)"
    proof cases
      case 1
      then show ?thesis using k root ss by blast
    next
      case 2
      then have p: "prefixLabel # p \<in> K" "suffix p q" using k pre(2) by auto
      then have "covers (if wholePrefix K p then tl p else p) q" using whole part by simp
      then show ?thesis using p(1) ss by blast
    next
      case 3
      then have q: "q = k" using name(1) k by blast
      show ?thesis
      proof (cases "\<exists>p. prefixLabel # p \<in> K \<and> wholePrefix K p \<and> tl p = k")
        case True
        then obtain p where p: "prefixLabel # p \<in> K" "wholePrefix K p" "tl p = k" by blast
        then have "k \<in> set ss" using ss by force
        then show ?thesis using q covers_refl by blast
      qed (use 3 q k ds in blast)
    qed
  qed
qed

lemma map_rev_ascii: "\<forall>k\<in>set ks. ascii k \<Longrightarrow> mapOption reverseDomain ks = Some (map rev ks)"
  by (intro mapOption_Some) (simp add: reverseDomain_ascii)

lemma dump_correct:
  assumes "\<forall>d\<in>set domains. hostName d" "\<forall>d\<in>set domainSuffix. hostName d \<and> d \<noteq> []"
    and "domains \<noteq> [] \<or> domainSuffix \<noteq> []" "dumpable domains"
  obtains m ds ss where "NewMatcher domains domainSuffix generateLegacy = Some m" "Matcher_Dump m = Some (ds, ss)"
    "\<forall>q. q \<in> set ds \<or> (\<exists>s\<in>set ss. covers s q) \<longleftrightarrow> q \<in> set domains \<or> (\<exists>s\<in>set domainSuffix. covers s q)"
proof -
  obtain keys where k: "NewMatcher domains domainSuffix generateLegacy =
       Option.bind (mapOption reverseDomain keys) (\<lambda>l. newSuccinctSet (sort l))"
    "\<forall>k\<in>set keys. keyForm k \<and> ascii k" "distinct keys" "keys \<noteq> []"
    "\<forall>q. (\<exists>k\<in>set keys. keyAccepts k q) \<longleftrightarrow> q \<in> set domains \<or> (\<exists>s\<in>set domainSuffix. covers s q)"
    "dumpable domains \<longrightarrow> (\<forall>k\<in>set keys. keyShape k)"
    using matcher_keys [OF assms(1-3), of generateLegacy] .
  have "sort (map rev keys) \<noteq> []" using k(4) by (metis length_0_conv length_map length_sort)
  then have "keysOK (sort (map rev keys))" using k(3) by (simp add: keysOK_def distinct_map inj_on_def)
  then obtain m where m: "newSuccinctSet (sort (map rev keys)) = Some m" "trieNode m 0 0 (rev ` set keys)"
    using trieNode_root by fastforce
  define ks0 where "ks0 = sorted_list_of_set (rev ` set keys)"
  have ks0: "set ks0 = rev ` set keys" by (simp add: ks0_def)
  then have ks: "set (map rev ks0) = set keys" by (simp add: image_image)
  have "mapOption reverseDomain ks0 = Some (map rev ks0)"
    using k(2) ks0 by (intro map_rev_ascii) (auto simp: ascii_def)
  from dump_sets [OF keys_exact [OF m(2), folded ks0_def] this] k(6) assms(4) obtain ds ss where
    d: "Matcher_Dump m = Some (ds, ss)"
    "set ds = {k \<in> set keys. hd k \<noteq> prefixLabel \<and> hd k \<noteq> rootLabel \<and>
      \<not> (\<exists>p. prefixLabel # p \<in> set keys \<and> wholePrefix (set keys) p \<and> tl p = k)}"
    "set ss = {s. rootLabel # s \<in> set keys} \<union> {if wholePrefix (set keys) p then tl p else p |p. prefixLabel # p \<in> set keys}"
    unfolding ks by blast
  have "NewMatcher domains domainSuffix generateLegacy = Some m"
    using k(1,2) m(1) map_rev_ascii [of keys] by simp
  then show thesis
    using that d(1) dump_accepts [OF _ _ d(2,3)] k(2,5,6) assms(4) by simp
qed

lemma dumpRule_ruleKey:
  assumes "adguardName (snd r)"
  shows "dumpRule (ruleKey r) = Some (ruleLine r)"
proof -
  have d: "snd r \<noteq> []" "plain (snd r)" using assms by (simp_all add: adguardName_def hostName_def)
  have "prefixLabel < last (snd r)" using d last_in_set [of "snd r"] by (auto simp: plain_def)
  then have "last (snd r) \<noteq> suffixLabel" by (auto simp: less_char_def)
  moreover have "hd (snd r) \<noteq> prefixLabel" "hd (snd r) \<noteq> rootLabel" using d label_order by (cases "snd r"; auto)+
  ultimately show ?thesis
    using d(1) label_order by (induction r rule: ruleKey.induct) (auto simp: dumpRule_def Let_def)
qed

lemma adguard_dump:
  assumes "\<forall>r\<in>set rules. adguardName (snd r)" "rules \<noteq> []"
  obtains m ls where "NewAdGuardMatcher (map ruleLine rules) = Some m" "AdGuardMatcher_Dump m = Some ls"
    "set ls = set (map ruleLine rules)" "distinct ls"
proof -
  let ?K = "ruleKey ` set rules"
  have "reverseDomain (adguardKey (ruleLine r)) = Some (rev (ruleKey r))" if "r \<in> set rules" for r
    using assms(1) that by (simp add: adguardKey_ruleLine reverseDomain_ascii ruleKey_facts(2))
  then have keys: "mapOption (\<lambda>l. reverseDomain (adguardKey l)) (map ruleLine rules) = Some (map (rev \<circ> ruleKey) rules)"
    by (induction rules) auto
  define l where "l = sort (common_Uniq [] (map (rev \<circ> ruleKey) rules))"
  have l: "set l = rev ` ?K" "distinct l" using common_Uniq_spec [of "[]" "map (rev \<circ> ruleKey) rules"] by (auto simp: l_def)
  then have "l \<noteq> []" using assms(2) by auto
  then have "keysOK l" using l(2) by (simp add: keysOK_def l_def)
  then obtain m where m: "newSuccinctSet l = Some m" "trieNode m 0 0 (rev ` ?K)" using trieNode_root l(1) by metis
  define ks where "ks = sorted_list_of_set (rev ` ?K)"
  have ks: "set ks = rev ` ?K" "distinct ks" by (simp_all add: ks_def)
  define line where "line k = the (dumpRule (rev k))" for k
  have line: "Option.bind (reverseDomain k) dumpRule = Some (line k)" "line k \<in> ruleLine ` set rules" if k: "k \<in> set ks" for k
  proof -
    obtain r where r: "r \<in> set rules" "k = rev (ruleKey r)" using k unfolding ks(1) by blast
    then have n: "adguardName (snd r)" using assms(1) by blast
    have "ascii k" using ruleKey_facts(2) [OF n] r(2) by (simp add: ascii_def)
    then show "Option.bind (reverseDomain k) dumpRule = Some (line k)" "line k \<in> ruleLine ` set rules"
      using r dumpRule_ruleKey [OF n] by (simp_all add: line_def reverseDomain_ascii)
  qed
  have "mapOption (\<lambda>k. Option.bind (reverseDomain k) dumpRule) ks = Some (map line ks)"
    using line(1) by (rule mapOption_Some)
  then have dump: "AdGuardMatcher_Dump m = Some (map line ks)"
    by (simp add: AdGuardMatcher_Dump_def keys_exact [OF m(2)] ks_def)
  have orig: "line (rev (ruleKey r)) = ruleLine r" if "r \<in> set rules" for r
    using that assms(1) dumpRule_ruleKey by (simp add: line_def)
  have inj: "inj_on line (set ks)"
  proof (rule inj_onI)
    fix x y
    assume "x \<in> set ks" "y \<in> set ks" "line x = line y"
    then obtain a b where "a \<in> set rules" "x = rev (ruleKey a)" "b \<in> set rules" "y = rev (ruleKey b)" "ruleLine a = ruleLine b"
      using ks(1) orig by (auto simp: image_iff)
    then show "x = y" using assms(1) adguardKey_ruleLine by metis
  qed
  have "set (map line ks) = set (map ruleLine rules)" using orig by (simp add: ks(1) image_image cong: image_cong)
  moreover have "NewAdGuardMatcher (map ruleLine rules) = Some m" using m(1) keys by (simp add: NewAdGuardMatcher_def l_def)
  ultimately show thesis using that dump inj ks(2) by (simp add: distinct_map)
qed

section \<open>Properties\<close>







text \<open>
  C23. \<open>Dump\<close> of an AdGuard matcher gives back exactly the rule lines it was built from, each once, for
  the rules that end in the separator and contain no wildcard.
\<close>

theorem dump_recovers_adguard_rules:
  assumes "\<forall>r\<in>set rules. adguardName (snd r)" "rules \<noteq> []"
  shows "\<exists>m ls. NewAdGuardMatcher (map ruleLine rules) = Some m \<and> AdGuardMatcher_Dump m = Some ls \<and>
    set ls = set (map ruleLine rules) \<and> distinct ls"
  using adguard_dump [OF assms] by metis

theorem dump_recovers_adguard_rules_witness:
  "\<exists>m ls. NewAdGuardMatcher [''||a.b^'', ''d^''] = Some m \<and> AdGuardMatcher_Dump m = Some ls \<and>
     set ls = {''||a.b^'', ''d^''} \<and> distinct ls"
proof -
  let ?rules = "[(SubdomainAnchor, ''a.b''), (NoAnchor, ''d'')]"
  have "\<forall>r\<in>set ?rules. adguardName (snd r)" by (simp add: adguardName_def hostName_def ascii_def less_char_def)
  then show ?thesis using dump_recovers_adguard_rules [of ?rules] by simp
qed

end
