(* ===== verification/Rule_Action.thy ===== *)
theory Rule_Action
  imports Rule_Items
begin

text \<open>
  The actions of route rules and DNS rules: the options of \<open>option/rule_action.go\<close>, their
  construction by \<open>NewRuleAction\<close> and \<open>NewDNSRuleAction\<close> and the operations of
  \<open>route/rule/rule_action.go\<close>. Durations are nanoseconds. The dialer of a direct action and the
  records of the DNS library are type parameters, and what the code calls on them is an argument.
\<close>

type_synonym duration = int

section \<open>Durations\<close>

text \<open>\<open>fmtFrac\<close> of the \<open>time\<close> package: the low digits of a number without trailing zeros.\<close>

fun dropZeros :: "string \<Rightarrow> string" where
  "dropZeros [] = []"
| "dropZeros (c # s) = (if c = CHR ''0'' then dropZeros s else c # s)"

definition fmtFrac :: "nat \<Rightarrow> nat \<Rightarrow> string" where
  "fmtFrac v prec =
     (let ds = itoa (v mod 10 ^ prec);
          padded = replicate (prec - length ds) (CHR ''0'') @ ds;
          kept = rev (dropZeros (rev padded))
      in if kept = [] then [] else CHR ''.'' # kept)"

definition Duration_String :: "duration \<Rightarrow> string" where
  "Duration_String d =
     (let u = nat \<bar>d\<bar>; sign = (if d < 0 then ''-'' else [])
      in if u = 0 then ''0s''
         else if u < 1000 then sign @ itoa u @ ''ns''
         else if u < 1000000 then sign @ itoa (u div 1000) @ fmtFrac u 3 @ [CHR 0xC2, CHR 0xB5] @ ''s''
         else if u < 1000000000 then sign @ itoa (u div 1000000) @ fmtFrac u 6 @ ''ms''
         else
           let secs = u div 1000000000; tail = itoa (secs mod 60) @ fmtFrac u 9 @ ''s''; mins = secs div 60
           in sign @
              (if mins = 0 then tail
               else if mins div 60 = 0 then itoa mins @ ''m'' @ tail
               else itoa (mins div 60) @ ''h'' @ itoa (mins mod 60) @ ''m'' @ tail))"

section \<open>Options\<close>

record RawRouteOptionsActionOptions =
  o_OverrideAddress :: string
  o_OverridePort :: uint16
  o_OverrideTunnelDestination :: string
  o_NetworkStrategy :: "uint8 option"
  o_FallbackDelay :: uint32
  o_UDPDisableDomainUnmapping :: bool
  o_UDPConnect :: bool
  o_UDPTimeout :: duration
  o_TLSFragment :: bool
  o_TLSFragmentFallbackDelay :: duration
  o_TLSRecordFragment :: bool

record RouteActionOptions = RawRouteOptionsActionOptions +
  o_Outbound :: string

record DNSRouteOptionsActionOptions =
  o_Strategy :: uint8
  o_DisableCache :: bool
  o_RewriteTTL :: "uint32 option"
  o_ClientSubnet :: Prefixable

record RouteActionResolve = DNSRouteOptionsActionOptions +
  o_Server :: string

record DNSRouteActionOptions = RouteActionResolve +
  o_BypassIfFailed :: bool

record RejectActionOptions =
  o_Method :: string
  o_NoDrop :: bool

record RouteActionSniff =
  o_Sniffer :: "string list"
  o_Timeout :: duration

record DialerOptions =
  o_Detour :: string
  o_BindInterface :: string
  o_Inet4BindAddress :: "addr option"
  o_Inet6BindAddress :: "addr option"
  o_BindAddressNoPort :: bool
  o_ProtectPath :: string
  o_RoutingMark :: uint32
  o_ReuseAddr :: bool
  o_NetNs :: string
  o_ConnectTimeout :: duration
  o_TCPFastOpen :: bool
  o_TCPMultiPath :: bool
  o_DisableTCPKeepAlive :: bool
  o_TCPKeepAlive :: duration
  o_TCPKeepAliveInterval :: duration
  o_UDPFragment :: "bool option"
  o_UDPFragmentDefault :: bool
  o_DomainResolver :: "RouteActionResolve option"
  o_DialNetworkStrategy :: "uint8 option"
  o_DialNetworkType :: "InterfaceType list"
  o_DialFallbackNetworkType :: "InterfaceType list"
  o_DialFallbackDelay :: duration
  o_DomainStrategy :: uint8

record 'rr DNSRouteActionPredefined =
  o_Rcode :: "int option"
  o_Answer :: "'rr list"
  o_Ns :: "'rr list"
  o_Extra :: "'rr list"

record RuleActionOptions =
  o_Action :: string
  o_RouteOptions :: RouteActionOptions
  o_RouteOptionsOptions :: RawRouteOptionsActionOptions
  o_DirectOptions :: DialerOptions
  o_BypassOptions :: RouteActionOptions
  o_RejectOptions :: RejectActionOptions
  o_SniffOptions :: RouteActionSniff
  o_ResolveOptions :: RouteActionResolve

record 'rr DNSRuleActionOptions =
  od_Action :: string
  od_RouteOptions :: DNSRouteActionOptions
  od_RouteOptionsOptions :: DNSRouteOptionsActionOptions
  od_RejectOptions :: RejectActionOptions
  od_PredefinedOptions :: "'rr DNSRouteActionPredefined"

definition DomainStrategy_String :: "uint8 \<Rightarrow> string result" where
  "DomainStrategy_String s =
     (if s = 0 then Inr '''' else if s = 1 then Inr ''prefer_ipv4'' else if s = 2 then Inr ''prefer_ipv6''
      else if s = 3 then Inr ''ipv4_only'' else if s = 4 then Inr ''ipv6_only''
      else Inl (Panic (''unknown domain strategy: '' @ itoa (unat s))))"

definition NetworkStrategy_String :: "uint8 \<Rightarrow> string" where
  "NetworkStrategy_String s =
     (if s = 0 then ''default'' else if s = 1 then ''fallback'' else if s = 2 then ''hybrid''
      else itoa (unat s))"

definition boolString :: "bool \<Rightarrow> string" where
  "boolString b = (if b then ''true'' else ''false'')"

text \<open>\<open>cond\<close> keeps a description when its option is set, as the chains of \<open>append\<close> do.\<close>

definition cond :: "bool \<Rightarrow> string \<Rightarrow> string list" where
  "cond b s = (if b then [s] else [])"

definition DirectActionOptions_Descriptions :: "DialerOptions \<Rightarrow> string list result" where
  "DirectActionOptions_Descriptions d =
     bindR (if o_DomainStrategy d \<noteq> 0
            then bindR (DomainStrategy_String (o_DomainStrategy d)) (\<lambda>s. Inr [''domain_strategy='' @ s])
            else Inr []) (\<lambda>strategy. Inr (
       cond (o_BindInterface d \<noteq> []) (''bind_interface='' @ o_BindInterface d)
       @ (case o_Inet4BindAddress d of None \<Rightarrow> [] | Some a \<Rightarrow> [''inet4_bind_address='' @ addr_String a])
       @ (case o_Inet6BindAddress d of None \<Rightarrow> [] | Some a \<Rightarrow> [''inet6_bind_address='' @ addr_String a])
       @ cond (o_RoutingMark d \<noteq> 0) (''routing_mark=0x'' @ hexString (unat (o_RoutingMark d)))
       @ cond (o_ReuseAddr d) ''reuse_addr''
       @ cond (o_ConnectTimeout d \<noteq> 0) (''connect_timeout='' @ Duration_String (o_ConnectTimeout d))
       @ cond (o_TCPFastOpen d) ''tcp_fast_open''
       @ cond (o_TCPMultiPath d) ''tcp_multi_path''
       @ (case o_UDPFragment d of None \<Rightarrow> [] | Some b \<Rightarrow> [''udp_fragment='' @ boolString b])
       @ strategy
       @ cond (o_DialFallbackDelay d \<noteq> 0) (''fallback_delay='' @ Duration_String (o_DialFallbackDelay d))))"

section \<open>Actions\<close>

record RuleActionRouteOptions =
  OverrideAddress :: Socksaddr
  OverridePort :: uint16
  OverrideTunnelDestination :: string
  NetworkStrategy :: "uint8 option"
  NetworkType :: "InterfaceType list option"
  FallbackNetworkType :: "InterfaceType list option"
  FallbackDelay :: duration
  UDPDisableDomainUnmapping :: bool
  UDPConnect :: bool
  UDPTimeout :: duration
  TLSFragment :: bool
  TLSFragmentFallbackDelay :: duration
  TLSRecordFragment :: bool
  BypassIfFailed :: bool

record RuleActionDNSRouteOptions =
  dns_Strategy :: uint8
  dns_DisableCache :: bool
  dns_RewriteTTL :: "uint32 option"
  dns_ClientSubnet :: prefix
  dns_BypassIfFailed :: bool

datatype StreamSniffer = TLSClientHello | HTTPHost | StreamDomainNameQuery | BitTorrent | SSH | RDP

datatype PacketSniffer = QUICClientHello | DomainNameQuery | STUNMessage | UTP | UDPTracker | DTLSRecord | NTP

record SniffAction =
  SnifferNames :: "string list"
  StreamSniffers :: "StreamSniffer list"
  PacketSniffers :: "PacketSniffer list"
  Timeout :: duration
  OverrideDestination :: bool

record ResolveAction =
  res_Server :: string
  res_Strategy :: uint8
  res_DisableCache :: bool
  res_RewriteTTL :: "uint32 option"
  res_ClientSubnet :: prefix

record RejectAction =
  Method :: string
  NoDrop :: bool
  dropCounter :: "int list"

text \<open>A nil slice is \<open>None\<close> where the code distinguishes it from an empty one.\<close>

datatype ('d, 'rr) RuleAction =
    RuleActionRoute string RuleActionRouteOptions
  | RuleActionRouteOptions RuleActionRouteOptions
  | RuleActionDirect 'd string
  | RuleActionBypass string RuleActionRouteOptions
  | RuleActionReject RejectAction
  | RuleActionHijackDNS
  | RuleActionSniff SniffAction
  | RuleActionResolve ResolveAction
  | RuleActionDNSRoute string RuleActionDNSRouteOptions
  | RuleActionDNSRouteOptions RuleActionDNSRouteOptions
  | RuleActionPredefined int "'rr list" "'rr list" "'rr list"

fun RuleAction_Type :: "('d, 'rr) RuleAction \<Rightarrow> string" where
  "RuleAction_Type (RuleActionRoute outbound options) = ''route''"
| "RuleAction_Type (RuleActionRouteOptions options) = ''route-options''"
| "RuleAction_Type (RuleActionDirect dialer description) = ''direct''"
| "RuleAction_Type (RuleActionBypass outbound options) = ''bypass''"
| "RuleAction_Type (RuleActionReject r) = ''reject''"
| "RuleAction_Type RuleActionHijackDNS = ''hijack-dns''"
| "RuleAction_Type (RuleActionSniff s) = ''sniff''"
| "RuleAction_Type (RuleActionResolve r) = ''resolve''"
| "RuleAction_Type (RuleActionDNSRoute server options) = ''route''"
| "RuleAction_Type (RuleActionDNSRouteOptions options) = ''route-options''"
| "RuleAction_Type (RuleActionPredefined rcode answer ns extra) = ''predefined''"

fun buildSniffers :: "string list \<Rightarrow> (StreamSniffer list \<times> PacketSniffer list) result" where
  "buildSniffers [] = Inr ([], [])"
| "buildSniffers (name # rest) =
     bindR
       (if name = ''tls'' then Inr ([TLSClientHello], [])
        else if name = ''http'' then Inr ([HTTPHost], [])
        else if name = ''quic'' then Inr ([], [QUICClientHello])
        else if name = ''dns'' then Inr ([StreamDomainNameQuery], [DomainNameQuery])
        else if name = ''stun'' then Inr ([], [STUNMessage])
        else if name = ''bittorrent'' then Inr ([BitTorrent], [UTP, UDPTracker])
        else if name = ''dtls'' then Inr ([], [DTLSRecord])
        else if name = ''ssh'' then Inr ([SSH], [])
        else if name = ''rdp'' then Inr ([RDP], [])
        else if name = ''ntp'' then Inr ([], [NTP])
        else Inl (ErrMsg (''unknown sniffer: '' @ name)))
       (\<lambda>(streams, packets). bindR (buildSniffers rest) (\<lambda>(streams', packets').
          Inr (streams @ streams', packets @ packets')))"

definition RuleActionSniff_build :: "SniffAction \<Rightarrow> SniffAction result" where
  "RuleActionSniff_build r =
     bindR (buildSniffers (SnifferNames r)) (\<lambda>(streams, packets).
       Inr (r\<lparr>StreamSniffers := StreamSniffers r @ streams, PacketSniffers := PacketSniffers r @ packets\<rparr>))"

definition routeOptionsFrom ::
  "'a RawRouteOptionsActionOptions_scheme \<Rightarrow> string \<Rightarrow> duration \<Rightarrow> RuleActionRouteOptions" where
  "routeOptionsFrom opts tunnelDestination udpTimeout =
     \<lparr>OverrideAddress = ParseSocksaddrHostPort (o_OverrideAddress opts) 0,
      OverridePort = o_OverridePort opts, OverrideTunnelDestination = tunnelDestination,
      NetworkStrategy = o_NetworkStrategy opts, NetworkType = None, FallbackNetworkType = None,
      FallbackDelay = uint (o_FallbackDelay opts),
      UDPDisableDomainUnmapping = o_UDPDisableDomainUnmapping opts, UDPConnect = o_UDPConnect opts,
      UDPTimeout = udpTimeout, TLSFragment = o_TLSFragment opts,
      TLSFragmentFallbackDelay = o_TLSFragmentFallbackDelay opts,
      TLSRecordFragment = o_TLSRecordFragment opts, BypassIfFailed = False\<rparr>"

definition directDescription :: "string list \<Rightarrow> string" where
  "directDescription descriptions =
     (case descriptions of
        [] \<Rightarrow> []
      | [a] \<Rightarrow> ''('' @ a @ '')''
      | [a, b] \<Rightarrow> ''('' @ a @ '','' @ b @ '')''
      | a # b # _ \<Rightarrow> ''('' @ a @ '','' @ b @ '',...)'')"

text \<open>\<open>None\<close> is the nil action of an empty action name.\<close>

definition NewRuleAction ::
  "(DialerOptions \<Rightarrow> 'd result) \<Rightarrow> RuleActionOptions \<Rightarrow> ('d, 'rr) RuleAction option result" where
  "NewRuleAction newDialer action =
     (let name = o_Action action
      in if name = [] then Inr None
         else if name = ''route'' then
           let opts = o_RouteOptions action
           in Inr (Some (RuleActionRoute (o_Outbound opts)
                (routeOptionsFrom opts (o_OverrideTunnelDestination opts) 0)))
         else if name = ''route-options'' then
           let opts = o_RouteOptionsOptions action
           in Inr (Some (RuleActionRouteOptions (routeOptionsFrom opts [] (o_UDPTimeout opts))))
         else if name = ''bypass'' then
           let opts = o_BypassOptions action
           in Inr (Some (RuleActionBypass (o_Outbound opts) (routeOptionsFrom opts [] 0)))
         else if name = ''direct'' then
           bindR (newDialer (o_DirectOptions action)) (\<lambda>directDialer.
           bindR (DirectActionOptions_Descriptions (o_DirectOptions action)) (\<lambda>descriptions.
             Inr (Some (RuleActionDirect directDialer (directDescription descriptions)))))
         else if name = ''reject'' then
           Inr (Some (RuleActionReject
             \<lparr>Method = o_Method (o_RejectOptions action), NoDrop = o_NoDrop (o_RejectOptions action),
              dropCounter = []\<rparr>))
         else if name = ''hijack-dns'' then Inr (Some RuleActionHijackDNS)
         else if name = ''sniff'' then
           bindR (RuleActionSniff_build
                    \<lparr>SnifferNames = o_Sniffer (o_SniffOptions action), StreamSniffers = [],
                     PacketSniffers = [], Timeout = o_Timeout (o_SniffOptions action),
                     OverrideDestination = False\<rparr>) (\<lambda>s. Inr (Some (RuleActionSniff s)))
         else if name = ''resolve'' then
           let opts = o_ResolveOptions action
           in Inr (Some (RuleActionResolve
                \<lparr>res_Server = o_Server opts, res_Strategy = o_Strategy opts,
                 res_DisableCache = o_DisableCache opts, res_RewriteTTL = o_RewriteTTL opts,
                 res_ClientSubnet = Prefixable_Build (o_ClientSubnet opts) prefixZero\<rparr>))
         else Inl (Panic (''unknown rule action: '' @ name)))"

definition dnsOptionsFrom :: "'a DNSRouteOptionsActionOptions_scheme \<Rightarrow> bool \<Rightarrow> RuleActionDNSRouteOptions" where
  "dnsOptionsFrom opts bypassIfFailed =
     \<lparr>dns_Strategy = o_Strategy opts, dns_DisableCache = o_DisableCache opts,
      dns_RewriteTTL = o_RewriteTTL opts,
      dns_ClientSubnet = (case o_ClientSubnet opts of None \<Rightarrow> prefixZero | Some p \<Rightarrow> p),
      dns_BypassIfFailed = bypassIfFailed\<rparr>"

definition DNSRCode_Build :: "int option \<Rightarrow> int" where
  "DNSRCode_Build r = (case r of None \<Rightarrow> 0 | Some rcode \<Rightarrow> rcode)"

definition NewDNSRuleAction :: "'rr DNSRuleActionOptions \<Rightarrow> ('d, 'rr) RuleAction option result" where
  "NewDNSRuleAction action =
     (let name = od_Action action
      in if name = [] then Inr None
         else if name = ''route'' then
           let opts = od_RouteOptions action
           in Inr (Some (RuleActionDNSRoute (o_Server opts) (dnsOptionsFrom opts (o_BypassIfFailed opts))))
         else if name = ''route-options'' then
           Inr (Some (RuleActionDNSRouteOptions (dnsOptionsFrom (od_RouteOptionsOptions action) False)))
         else if name = ''reject'' then
           Inr (Some (RuleActionReject
             \<lparr>Method = o_Method (od_RejectOptions action), NoDrop = o_NoDrop (od_RejectOptions action),
              dropCounter = []\<rparr>))
         else if name = ''predefined'' then
           let opts = od_PredefinedOptions action
           in Inr (Some (RuleActionPredefined (DNSRCode_Build (o_Rcode opts))
                (o_Answer opts) (o_Ns opts) (o_Extra opts)))
         else Inl (Panic (''unknown rule action: '' @ name)))"

section \<open>Descriptions\<close>

definition RuleActionRouteOptions_Descriptions :: "RuleActionRouteOptions \<Rightarrow> string list" where
  "RuleActionRouteOptions_Descriptions r =
     cond (sa_IsValid (OverrideAddress r)) (''override-address='' @ sa_AddrString (OverrideAddress r))
     @ cond (OverridePort r > 0) (''override-port='' @ itoa (unat (OverridePort r)))
     @ cond (OverrideTunnelDestination r \<noteq> []) (''override-tunnel-destination='' @ OverrideTunnelDestination r)
     @ (case NetworkStrategy r of None \<Rightarrow> [] | Some s \<Rightarrow> [''network-strategy='' @ NetworkStrategy_String s])
     @ (case NetworkType r of None \<Rightarrow> []
        | Some ts \<Rightarrow> [''network-type='' @ strings_Join (map InterfaceType_String ts) '',''])
     @ (case FallbackNetworkType r of None \<Rightarrow> []
        | Some _ \<Rightarrow> [''fallback-network-type='' @
            strings_Join (map InterfaceType_String (case NetworkType r of None \<Rightarrow> [] | Some ts \<Rightarrow> ts)) '',''])
     @ cond (FallbackDelay r > 0) (''fallback-delay='' @ Duration_String (FallbackDelay r))
     @ cond (UDPDisableDomainUnmapping r) ''udp-disable-domain-unmapping''
     @ cond (UDPConnect r) ''udp-connect''
     @ cond (UDPTimeout r > 0) ''udp-timeout''
     @ cond (TLSFragment r) ''tls-fragment''
     @ cond (TLSFragmentFallbackDelay r > 0)
         (''tls-fragment-fallback-delay='' @ Duration_String (TLSFragmentFallbackDelay r))
     @ cond (TLSRecordFragment r) ''tls-record-fragment''"

definition dnsDescriptions :: "bool \<Rightarrow> uint32 option \<Rightarrow> prefix \<Rightarrow> string list" where
  "dnsDescriptions disableCache rewriteTTL clientSubnet =
     cond disableCache ''disable-cache''
     @ (case rewriteTTL of None \<Rightarrow> [] | Some ttl \<Rightarrow> [''rewrite-ttl='' @ itoa (unat ttl)])
     @ cond (prefix_IsValid clientSubnet) (''client-subnet='' @ prefix_String clientSubnet)"

definition RuleActionSniff_String :: "SniffAction \<Rightarrow> string" where
  "RuleActionSniff_String r =
     (if SnifferNames r = [] \<and> Timeout r = 0 then ''sniff''
      else if SnifferNames r \<noteq> [] \<and> Timeout r = 0 then ''sniff('' @ strings_Join (SnifferNames r) '','' @ '')''
      else if SnifferNames r = [] \<and> Timeout r > 0 then ''sniff('' @ Duration_String (Timeout r) @ '')''
      else ''sniff('' @ strings_Join (SnifferNames r) '','' @ '','' @ Duration_String (Timeout r) @ '')'')"

definition RuleActionResolve_String :: "ResolveAction \<Rightarrow> string result" where
  "RuleActionResolve_String r =
     bindR (if res_Strategy r \<noteq> 0
            then bindR (DomainStrategy_String (res_Strategy r)) (\<lambda>s. Inr [s]) else Inr []) (\<lambda>strategy.
       let options =
         cond (res_Server r \<noteq> []) (res_Server r) @ strategy
         @ cond (res_DisableCache r) ''disable_cache''
         @ (case res_RewriteTTL r of None \<Rightarrow> [] | Some ttl \<Rightarrow> [''rewrite_ttl='' @ itoa (unat ttl)])
         @ cond (prefix_IsValid (res_ClientSubnet r)) (''client_subnet='' @ prefix_String (res_ClientSubnet r))
       in Inr (if options = [] then ''resolve'' else ''resolve('' @ strings_Join options '','' @ '')''))"

text \<open>The calls into the DNS library: the names of response codes and the accessors of a record.\<close>

record 'rr dnsLibrary =
  RcodeToString :: "int \<Rightarrow> string"
  RR_String :: "'rr \<Rightarrow> string"
  RR_Name :: "'rr \<Rightarrow> string"
  RR_CopyWithName :: "'rr \<Rightarrow> string \<Rightarrow> 'rr"

fun RuleAction_String :: "'rr dnsLibrary \<Rightarrow> ('d, 'rr) RuleAction \<Rightarrow> string result" where
  "RuleAction_String lib (RuleActionRoute outbound options) =
     Inr (''route('' @ strings_Join (outbound # RuleActionRouteOptions_Descriptions options) '','' @ '')'')"
| "RuleAction_String lib (RuleActionRouteOptions options) =
     Inr (''route-options('' @ strings_Join (RuleActionRouteOptions_Descriptions options) '','' @ '')'')"
| "RuleAction_String lib (RuleActionDirect dialer description) = Inr (''direct'' @ description)"
| "RuleAction_String lib (RuleActionBypass outbound options) =
     Inr (if outbound = [] then ''bypass()''
          else ''bypass('' @ strings_Join (outbound # RuleActionRouteOptions_Descriptions options) '','' @ '')'')"
| "RuleAction_String lib (RuleActionReject r) =
     Inr (if Method r = ''default'' then ''reject'' else ''reject('' @ Method r @ '')'')"
| "RuleAction_String lib RuleActionHijackDNS = Inr ''hijack-dns''"
| "RuleAction_String lib (RuleActionSniff s) = Inr (RuleActionSniff_String s)"
| "RuleAction_String lib (RuleActionResolve r) = RuleActionResolve_String r"
| "RuleAction_String lib (RuleActionDNSRoute server options) =
     Inr (''route('' @ strings_Join (server # dnsDescriptions (dns_DisableCache options)
            (dns_RewriteTTL options) (dns_ClientSubnet options)) '','' @ '')'')"
| "RuleAction_String lib (RuleActionDNSRouteOptions options) =
     Inr (''route-options('' @ strings_Join (dnsDescriptions (dns_DisableCache options)
            (dns_RewriteTTL options) (dns_ClientSubnet options)) '','' @ '')'')"
| "RuleAction_String lib (RuleActionPredefined rcode answer ns extra) =
     Inr (''predefined('' @ strings_Join (RcodeToString lib rcode # map (RR_String lib) answer
            @ map (RR_String lib) ns @ map (RR_String lib) extra) '','' @ '')'')"

section \<open>Predefined responses\<close>

record Question =
  q_Name :: string
  q_Qtype :: uint16
  q_Qclass :: uint16

record 'rr Msg =
  msg_Id :: uint16
  msg_Response :: bool
  msg_Authoritative :: bool
  msg_RecursionDesired :: bool
  msg_RecursionAvailable :: bool
  msg_Rcode :: int
  msg_Question :: "Question list"
  msg_Answer :: "'rr list"
  msg_Ns :: "'rr list"
  msg_Extra :: "'rr list"

definition rewriteRecords :: "'rr dnsLibrary \<Rightarrow> 'rr list \<Rightarrow> Question \<Rightarrow> 'rr list" where
  "rewriteRecords lib records question =
     map (\<lambda>it.
       if hasPrefix (RR_Name lib it) ''*'' then
         if hasSuffix (q_Name question) (drop 1 (RR_Name lib it)) then RR_CopyWithName lib it (q_Name question)
         else it
       else it) records"

definition RuleActionPredefined_Response ::
  "'rr dnsLibrary \<Rightarrow> int \<Rightarrow> 'rr list \<Rightarrow> 'rr list \<Rightarrow> 'rr list \<Rightarrow> 'rr Msg \<Rightarrow> 'rr Msg result" where
  "RuleActionPredefined_Response lib rcode answer ns extra request =
     (case msg_Question request of
        [] \<Rightarrow> Inl (Panic ''index out of range'')
      | question # _ \<Rightarrow>
          Inr \<lparr>msg_Id = msg_Id request, msg_Response = True, msg_Authoritative = True,
               msg_RecursionDesired = True, msg_RecursionAvailable = True, msg_Rcode = rcode,
               msg_Question = msg_Question request, msg_Answer = rewriteRecords lib answer question,
               msg_Ns = rewriteRecords lib ns question, msg_Extra = rewriteRecords lib extra question\<rparr>)"

section \<open>Rejection\<close>

fun IsRejected :: "error \<Rightarrow> bool" where
  "IsRejected (RejectedError e) = True"
| "IsRejected (BypassedError e) = IsRejected e"
| "IsRejected (Cause e msg) = IsRejected e"
| "IsRejected (Extend e msg) = IsRejected e"
| "IsRejected _ = False"

fun IsBypassed :: "error \<Rightarrow> bool" where
  "IsBypassed (BypassedError e) = True"
| "IsBypassed (RejectedError e) = IsBypassed e"
| "IsBypassed (Cause e msg) = IsBypassed e"
| "IsBypassed (Extend e msg) = IsBypassed e"
| "IsBypassed _ = False"

abbreviation (input) ErrReset :: error where "ErrReset \<equiv> Sentinel ''tun.ErrReset''"
abbreviation (input) ErrDrop :: error where "ErrDrop \<equiv> Sentinel ''tun.ErrDrop''"
abbreviation (input) ErrBypass :: error where "ErrBypass \<equiv> Sentinel ''tun.ErrBypass''"

definition dropWindow :: int where
  "dropWindow = 30 * 1000000000"

text \<open>\<open>RuleActionReject.Error\<close> at a time; the result is the error returned, if any, and the action after.\<close>

definition RuleActionReject_Error :: "int \<Rightarrow> RejectAction \<Rightarrow> (error option \<times> RejectAction) result" where
  "RuleActionReject_Error timeNow r =
     (if Method r = ''drop'' then Inr (Some (RejectedError ErrDrop), r)
      else if Method r = ''reply'' then Inr (None, r)
      else if Method r \<noteq> ''default'' then Inl (Panic (''unknown reject method: '' @ Method r))
      else if NoDrop r then Inr (Some (RejectedError ErrReset), r)
      else
        let counter = filter (\<lambda>t. timeNow - t \<le> dropWindow) (dropCounter r) @ [timeNow];
            r' = r\<lparr>dropCounter := counter\<rparr>
        in Inr (Some (RejectedError (if length counter > 50 then ErrDrop else ErrReset)), r'))"

fun rejectRun :: "RejectAction \<Rightarrow> int list \<Rightarrow> error option list \<times> RejectAction" where
  "rejectRun r [] = ([], r)"
| "rejectRun r (t # ts) =
     (case RuleActionReject_Error t r of
        Inl _ \<Rightarrow> ([], r)
      | Inr (e, r') \<Rightarrow> (let (es, r'') = rejectRun r' ts in (e # es, r'')))"

lemma filter_window:
  "t \<le> t' \<Longrightarrow> filter (\<lambda>s. t' - s \<le> w) (filter (\<lambda>s. t - s \<le> w) xs) = filter (\<lambda>s. t' - s \<le> w) (xs :: int list)"
  by (simp add: filter_filter) (rule filter_cong; auto)

lemma rejectRun_counter:
  assumes "Method r = ''default''" "\<not> NoDrop r" "sorted (past @ ts)" "ts \<noteq> [] \<or> past \<noteq> []"
    and "past \<noteq> [] \<Longrightarrow> dropCounter r = filter (\<lambda>s. last past - s \<le> dropWindow) past" "past = [] \<Longrightarrow> dropCounter r = []"
  shows "fst (rejectRun r ts) = map (\<lambda>i. Some (RejectedError
      (if length (filter (\<lambda>s. ts ! i - s \<le> dropWindow) (past @ take (Suc i) ts)) > 50 then ErrDrop else ErrReset)))
      [0..<length ts] \<and>
    dropCounter (snd (rejectRun r ts)) = filter (\<lambda>s. last (past @ ts) - s \<le> dropWindow) (past @ ts)"
  using assms
proof (induction ts arbitrary: r past)
  case (Cons t ts)
  let ?c = "filter (\<lambda>s. t - s \<le> dropWindow) (dropCounter r) @ [t]" and ?past = "past @ [t]"
  have w: "0 \<le> dropWindow" by (simp add: dropWindow_def)
  have c: "?c = filter (\<lambda>s. t - s \<le> dropWindow) ?past"
  proof (cases "past = []")
    case False
    then have "last past \<le> t" using Cons.prems(3) last_in_set [of past] by (auto simp: sorted_append)
    then show ?thesis using Cons.prems(5) [OF False] filter_window [of "last past" t] w by simp
  qed (use Cons.prems(6) w in simp)
  have step: "RuleActionReject_Error t r = Inr (Some (RejectedError (if length ?c > 50 then ErrDrop else ErrReset)), r\<lparr>dropCounter := ?c\<rparr>)"
    using Cons.prems(1,2) by (simp add: RuleActionReject_Error_def Let_def)
  have IH: "fst (rejectRun (r\<lparr>dropCounter := ?c\<rparr>) ts) = map (\<lambda>i. Some (RejectedError
        (if length (filter (\<lambda>s. ts ! i - s \<le> dropWindow) (?past @ take (Suc i) ts)) > 50 then ErrDrop else ErrReset)))
        [0..<length ts]"
    "dropCounter (snd (rejectRun (r\<lparr>dropCounter := ?c\<rparr>) ts)) = filter (\<lambda>s. last (?past @ ts) - s \<le> dropWindow) (?past @ ts)"
    using Cons.IH [of "r\<lparr>dropCounter := ?c\<rparr>" ?past] Cons.prems(1-3) c by simp_all
  have "[0..<length (t # ts)] = 0 # map Suc [0..<length ts]" unfolding map_Suc_upt by (simp add: upt_conv_Cons del: upt_Suc)
  then show ?case using IH step c by (simp add: Let_def split_def)
qed simp

text \<open>
  C15. A reject action with the default method answers every trigger with a reset, except that a
  trigger is dropped when it is more than the 50th within the last 30 seconds, itself included. Old
  triggers are forgotten without changing any later answer.
\<close>

theorem reject_drops_floods:
  assumes "Method r = ''default''" "\<not> NoDrop r" "dropCounter r = []" "sorted ts"
  shows "fst (rejectRun r ts) = map (\<lambda>i. Some (RejectedError
    (if length (filter (\<lambda>t. ts ! i - t \<le> 30 * 1000000000) (take (Suc i) ts)) > 50 then ErrDrop else ErrReset)))
    [0..<length ts]"
proof (cases "ts = []")
  case False
  then show ?thesis using rejectRun_counter [of r "[]" ts] assms by (simp add: dropWindow_def)
qed simp

theorem reject_drops_floods_witness:
  "let r = \<lparr>Method = ''default'', NoDrop = False, dropCounter = []\<rparr>; answers = fst (rejectRun r (replicate 51 0))
   in answers ! 49 = Some (RejectedError ErrReset) \<and> answers ! 50 = Some (RejectedError ErrDrop)"
proof -
  let ?r = "\<lparr>Method = ''default'', NoDrop = False, dropCounter = []\<rparr>"
  have "fst (rejectRun ?r (replicate 51 0)) = map (\<lambda>i. Some (RejectedError
    (if length (filter (\<lambda>t. replicate 51 0 ! i - t \<le> 30 * 1000000000) (take (Suc i) (replicate 51 (0 :: int)))) > 50 then ErrDrop else ErrReset)))
    [0..<length (replicate 51 (0 :: int))]"
    by (rule reject_drops_floods) simp_all
  then show ?thesis by (simp add: Let_def del: upt_Suc)
qed

end
