(* ===== verification/Rule_Options.thy ===== *)
theory Rule_Options
  imports Rule_Action
begin

text \<open>
  The options rules are built from: \<open>option/rule.go\<close>, \<open>option/rule_dns.go\<close> and the rules of
  \<open>option/rule_set.go\<close>, with their validity checks. The three structs of a default rule share most of
  their fields, so they are record extensions of the shared ones. A list option is empty when it
  is absent. \<open>reflect.DeepEqual\<close> with the zero value is equality of records.
\<close>

section \<open>Fields\<close>

record commonRule =
  Network :: "string list"
  Domain :: "string list"
  DomainSuffix :: "string list"
  DomainKeyword :: "string list"
  DomainRegex :: "string list"
  SourceIPCIDR :: "string list"
  IPCIDR :: "string list"
  opt_SourcePort :: "uint16 list"
  SourcePortRange :: "string list"
  Port :: "uint16 list"
  PortRange :: "string list"
  ProcessName :: "string list"
  ProcessPath :: "string list"
  ProcessPathRegex :: "string list"
  PackageName :: "string list"
  opt_NetworkType :: "InterfaceType list"
  NetworkIsExpensive :: bool
  NetworkIsConstrained :: bool
  WIFISSID :: "string list"
  WIFIBSSID :: "string list"
  TunnelSource :: "string list"
  TunnelDestination :: "string list"
  NetworkInterfaceAddress :: "(InterfaceType \<times> Prefixable list) list option"
  DefaultInterfaceAddress :: "Prefixable list"
  Invert :: bool

record routeRule = commonRule +
  Inbound :: "string list"
  IPVersion :: int
  AuthUser :: "string list"
  Protocol :: "string list"
  Geosite :: "string list"
  SourceGeoIP :: "string list"
  GeoIP :: "string list"
  SourceIPIsPrivate :: bool
  IPIsPrivate :: bool
  User :: "string list"
  UserID :: "int list"
  ClashMode :: string
  RuleSetTags :: "string list"
  RuleSetIPCIDRMatchSource :: bool
  Deprecated_RulesetIPCIDRMatchSource :: bool
  InterfaceAddress :: "(string \<times> Prefixable list) list option"

record RawDefaultRule = routeRule +
  Client :: "string list"
  PreferredBy :: "string list"

record RawDefaultDNSRule = routeRule +
  dr_QueryType :: "uint16 list"
  IPAcceptAny :: bool
  dr_Outbound :: "string list"
  RuleSetIPCIDRAcceptEmpty :: bool

record DefaultHeadlessRule = commonRule +
  hr_QueryType :: "uint16 list"
  DomainMatcher :: "Matcher option"
  SourceIPSet :: "ipset option"
  IPSet :: "ipset option"
  AdGuardDomain :: "string list"
  AdGuardDomainMatcher :: "AdGuardMatcher option"

section \<open>Zero values\<close>

definition commonRuleZero :: commonRule where
  "commonRuleZero =
     \<lparr>Network = [], Domain = [], DomainSuffix = [], DomainKeyword = [], DomainRegex = [],
      SourceIPCIDR = [], IPCIDR = [], opt_SourcePort = [], SourcePortRange = [], Port = [], PortRange = [],
      ProcessName = [], ProcessPath = [], ProcessPathRegex = [], PackageName = [], opt_NetworkType = [],
      NetworkIsExpensive = False, NetworkIsConstrained = False, WIFISSID = [], WIFIBSSID = [],
      TunnelSource = [], TunnelDestination = [], NetworkInterfaceAddress = None,
      DefaultInterfaceAddress = [], Invert = False\<rparr>"

definition routeRuleZero :: routeRule where
  "routeRuleZero =
     commonRule.extend commonRuleZero
       (routeRule.fields [] 0 [] [] [] [] [] False False [] [] [] [] False False None)"

definition rawDefaultRuleZero :: RawDefaultRule where
  "rawDefaultRuleZero = routeRule.extend routeRuleZero (RawDefaultRule.fields [] [])"

definition rawDefaultDNSRuleZero :: RawDefaultDNSRule where
  "rawDefaultDNSRuleZero = routeRule.extend routeRuleZero (RawDefaultDNSRule.fields [] False [] False)"

definition defaultHeadlessRuleZero :: DefaultHeadlessRule where
  "defaultHeadlessRuleZero =
     commonRule.extend commonRuleZero (DefaultHeadlessRule.fields [] None None None [] None)"

definition routeOptionsZero :: RawRouteOptionsActionOptions where
  "routeOptionsZero =
     \<lparr>o_OverrideAddress = [], o_OverridePort = 0, o_OverrideTunnelDestination = [],
      o_NetworkStrategy = None, o_FallbackDelay = 0, o_UDPDisableDomainUnmapping = False,
      o_UDPConnect = False, o_UDPTimeout = 0, o_TLSFragment = False, o_TLSFragmentFallbackDelay = 0,
      o_TLSRecordFragment = False\<rparr>"

definition routeActionZero :: RouteActionOptions where
  "routeActionZero = RawRouteOptionsActionOptions.extend routeOptionsZero (RouteActionOptions.fields [])"

definition dialerOptionsZero :: DialerOptions where
  "dialerOptionsZero =
     \<lparr>o_Detour = [], o_BindInterface = [], o_Inet4BindAddress = None, o_Inet6BindAddress = None,
      o_BindAddressNoPort = False, o_ProtectPath = [], o_RoutingMark = 0, o_ReuseAddr = False,
      o_NetNs = [], o_ConnectTimeout = 0, o_TCPFastOpen = False, o_TCPMultiPath = False,
      o_DisableTCPKeepAlive = False, o_TCPKeepAlive = 0, o_TCPKeepAliveInterval = 0,
      o_UDPFragment = None, o_UDPFragmentDefault = False, o_DomainResolver = None,
      o_DialNetworkStrategy = None, o_DialNetworkType = [], o_DialFallbackNetworkType = [],
      o_DialFallbackDelay = 0, o_DomainStrategy = 0\<rparr>"

definition dnsRouteOptionsZero :: DNSRouteOptionsActionOptions where
  "dnsRouteOptionsZero =
     \<lparr>o_Strategy = 0, o_DisableCache = False, o_RewriteTTL = None, o_ClientSubnet = None\<rparr>"

definition ruleActionZero :: RuleActionOptions where
  "ruleActionZero =
     \<lparr>o_Action = [], o_RouteOptions = routeActionZero, o_RouteOptionsOptions = routeOptionsZero,
      o_DirectOptions = dialerOptionsZero, o_BypassOptions = routeActionZero,
      o_RejectOptions = \<lparr>o_Method = [], o_NoDrop = False\<rparr>,
      o_SniffOptions = \<lparr>o_Sniffer = [], o_Timeout = 0\<rparr>,
      o_ResolveOptions = DNSRouteOptionsActionOptions.extend dnsRouteOptionsZero (RouteActionResolve.fields [])\<rparr>"

definition dnsRuleActionZero :: "'rr DNSRuleActionOptions" where
  "dnsRuleActionZero =
     \<lparr>od_Action = [],
      od_RouteOptions =
        \<lparr>o_Strategy = 0, o_DisableCache = False, o_RewriteTTL = None, o_ClientSubnet = None,
         o_Server = [], o_BypassIfFailed = False\<rparr>,
      od_RouteOptionsOptions = dnsRouteOptionsZero,
      od_RejectOptions = \<lparr>o_Method = [], o_NoDrop = False\<rparr>,
      od_PredefinedOptions = \<lparr>o_Rcode = None, o_Answer = [], o_Ns = [], o_Extra = []\<rparr>\<rparr>"

section \<open>Rules\<close>

text \<open>
  A rule has a type, the options of a default rule and those of a logical rule, of which the type
  selects one. The default options are a parameter, since route rules, DNS rules and headless rules
  differ in them, and so is the action of a logical rule.
\<close>

datatype ('d, 'a) RuleOptions =
    RuleOptions (rule_type: string) (DefaultOptions: 'd) (LogicalOptions: "('d, 'a) LogicalRuleOptions")
and ('d, 'a) LogicalRuleOptions =
    LogicalRuleOptions (rule_mode: string) (subRules: "('d, 'a) RuleOptions list") (logical_invert: bool) (logical_action: 'a)

type_synonym DefaultRuleOptions = "RawDefaultRule \<times> RuleActionOptions"
type_synonym RouteRuleOptions = "(DefaultRuleOptions, RuleActionOptions) RuleOptions"
type_synonym 'rr DefaultDNSRuleOptions = "RawDefaultDNSRule \<times> 'rr DNSRuleActionOptions"
type_synonym 'rr DNSRuleOptions = "('rr DefaultDNSRuleOptions, 'rr DNSRuleActionOptions) RuleOptions"
type_synonym HeadlessRuleOptions = "(DefaultHeadlessRule, unit) RuleOptions"

definition DefaultRule_IsValid :: "DefaultRuleOptions \<Rightarrow> bool" where
  "DefaultRule_IsValid r \<longleftrightarrow> r \<noteq> (rawDefaultRuleZero\<lparr>Invert := Invert (fst r)\<rparr>, ruleActionZero)"

definition DefaultDNSRule_IsValid :: "'rr DefaultDNSRuleOptions \<Rightarrow> bool" where
  "DefaultDNSRule_IsValid r \<longleftrightarrow> r \<noteq> (rawDefaultDNSRuleZero\<lparr>Invert := Invert (fst r)\<rparr>, dnsRuleActionZero)"

definition DefaultHeadlessRule_IsValid :: "DefaultHeadlessRule \<Rightarrow> bool" where
  "DefaultHeadlessRule_IsValid r \<longleftrightarrow> r \<noteq> defaultHeadlessRuleZero\<lparr>Invert := Invert r\<rparr>"

text \<open>
  \<open>IsValid\<close> of a rule and of a logical rule. The headless variant also knows the empty type, the
  others panic on it.
\<close>

fun RuleOptions_IsValid :: "bool \<Rightarrow> ('d \<Rightarrow> bool) \<Rightarrow> ('d, 'a) RuleOptions \<Rightarrow> bool result"
and LogicalRule_IsValid :: "bool \<Rightarrow> ('d \<Rightarrow> bool) \<Rightarrow> ('d, 'a) LogicalRuleOptions \<Rightarrow> bool result"
and allValid :: "bool \<Rightarrow> ('d \<Rightarrow> bool) \<Rightarrow> ('d, 'a) RuleOptions list \<Rightarrow> bool result" where
  "RuleOptions_IsValid headless valid (RuleOptions ty d l) =
     (if ty = ''default'' \<or> headless \<and> ty = [] then Inr (valid d)
      else if ty = ''logical'' then LogicalRule_IsValid headless valid l
      else Inl (Panic (''unknown rule type: '' @ ty)))"
| "LogicalRule_IsValid headless valid (LogicalRuleOptions mode rules inverted action) =
     (if rules = [] then Inr False else allValid headless valid rules)"
| "allValid headless valid [] = Inr True"
| "allValid headless valid (r # rs) =
     bindR (RuleOptions_IsValid headless valid r) (\<lambda>b. if b then allValid headless valid rs else Inr False)"

end
