(* ===== verification/Rule_Construct.thy ===== *)
theory Rule_Construct
  imports Rule_Options Rule_Semantics
begin

text \<open>
  The construction of rules from options: \<open>NewRule\<close>, \<open>NewDNSRule\<close> and \<open>NewHeadlessRule\<close> with their
  default and logical variants (\<open>rule_default.go\<close>, \<open>rule_dns.go\<close>, \<open>rule_headless.go\<close>). The chain of
  conditionals in each constructor is a list of steps in the order of the code: a step adds an item
  to a group of the rule, or fails when the item cannot be built.
\<close>

section \<open>Steps\<close>

datatype itemGroup =
    Items | SourceAddressItems | SourcePortItems | DestinationAddressItems | DestinationIPCIDRItems
  | DestinationPortItems

datatype step = Add itemGroup "RuleItem result" | Fail error

definition onlyIf :: "bool \<Rightarrow> step \<Rightarrow> step list" where
  "onlyIf b s = (if b then [s] else [])"

definition appendItem :: "itemGroup \<Rightarrow> RuleItem \<Rightarrow> abstractDefaultRule \<Rightarrow> abstractDefaultRule" where
  "appendItem g item r =
     (case g of
        Items \<Rightarrow> r\<lparr>items := items r @ [item], allItems := allItems r @ [Inl item]\<rparr>
      | SourceAddressItems \<Rightarrow>
          r\<lparr>sourceAddressItems := sourceAddressItems r @ [item], allItems := allItems r @ [Inl item]\<rparr>
      | SourcePortItems \<Rightarrow>
          r\<lparr>sourcePortItems := sourcePortItems r @ [item], allItems := allItems r @ [Inl item]\<rparr>
      | DestinationAddressItems \<Rightarrow>
          r\<lparr>destinationAddressItems := destinationAddressItems r @ [item],
            allItems := allItems r @ [Inl item]\<rparr>
      | DestinationIPCIDRItems \<Rightarrow>
          r\<lparr>destinationIPCIDRItems := destinationIPCIDRItems r @ [item],
            allItems := allItems r @ [Inl item]\<rparr>
      | DestinationPortItems \<Rightarrow>
          r\<lparr>destinationPortItems := destinationPortItems r @ [item],
            allItems := allItems r @ [Inl item]\<rparr>)"

fun runSteps :: "step list \<Rightarrow> abstractDefaultRule \<Rightarrow> abstractDefaultRule result" where
  "runSteps [] r = Inr r"
| "runSteps (Add g res # ss) r = bindR res (\<lambda>item. runSteps ss (appendItem g item r))"
| "runSteps (Fail e # ss) r = Inl e"

definition emptyRule :: "bool \<Rightarrow> abstractDefaultRule" where
  "emptyRule inverted =
     \<lparr>items = [], sourceAddressItems = [], sourcePortItems = [], destinationAddressItems = [],
      destinationIPCIDRItems = [], destinationPortItems = [], allItems = [], invert = inverted\<rparr>"

text \<open>Steps that occur in more than one constructor.\<close>

definition ipVersionStep :: "int \<Rightarrow> step list" where
  "ipVersionStep v =
     (if v > 0 then
        if v = 4 \<or> v = 6 then [Add Items (Inr (IPVersionItem (v = 6)))]
        else [Fail (ErrMsg (''invalid ip version: '' @ itoaInt v))]
      else [])"

definition mapSize :: "('k \<times> 'v) list option \<Rightarrow> bool" where
  "mapSize m = (case m of None \<Rightarrow> False | Some es \<Rightarrow> es \<noteq> [])"

definition geoSteps :: "'a routeRule_scheme \<Rightarrow> step list" where
  "geoSteps opts =
     onlyIf (Geosite opts \<noteq> []) (Fail (ErrMsg
       ''geosite database is deprecated in sing-box 1.8.0 and removed in sing-box 1.12.0''))
     @ onlyIf (SourceGeoIP opts \<noteq> []) (Fail (ErrMsg
       ''geoip database is deprecated in sing-box 1.8.0 and removed in sing-box 1.12.0''))
     @ onlyIf (GeoIP opts \<noteq> []) (Fail (ErrMsg
       ''geoip database is deprecated in sing-box 1.8.0 and removed in sing-box 1.12.0''))"

definition portSteps :: "'a commonRule_scheme \<Rightarrow> step list" where
  "portSteps opts =
     onlyIf (opt_SourcePort opts \<noteq> []) (Add SourcePortItems (Inr (NewPortItem True (opt_SourcePort opts))))
     @ onlyIf (SourcePortRange opts \<noteq> []) (Add SourcePortItems
         (causeR (NewPortRangeItem True (SourcePortRange opts)) ''source_port_range''))
     @ onlyIf (Port opts \<noteq> []) (Add DestinationPortItems (Inr (NewPortItem False (Port opts))))
     @ onlyIf (PortRange opts \<noteq> []) (Add DestinationPortItems
         (causeR (NewPortRangeItem False (PortRange opts)) ''port_range''))"

definition processSteps :: "env \<Rightarrow> 'a commonRule_scheme \<Rightarrow> step list" where
  "processSteps env opts =
     onlyIf (TunnelSource opts \<noteq> []) (Add Items (Inr (NewTunnelSourceItem (TunnelSource opts))))
     @ onlyIf (TunnelDestination opts \<noteq> []) (Add Items (Inr (NewTunnelDestinationItem (TunnelDestination opts))))
     @ onlyIf (ProcessName opts \<noteq> []) (Add Items (Inr (NewProcessItem (ProcessName opts))))
     @ onlyIf (ProcessPath opts \<noteq> []) (Add Items (Inr (NewProcessPathItem (ProcessPath opts))))
     @ onlyIf (ProcessPathRegex opts \<noteq> []) (Add Items
         (causeR (NewProcessPathRegexItem env (ProcessPathRegex opts)) ''process_path_regex''))
     @ onlyIf (PackageName opts \<noteq> []) (Add Items (Inr (NewPackageNameItem (PackageName opts))))"

definition networkSteps :: "env \<Rightarrow> 'a commonRule_scheme \<Rightarrow> step list" where
  "networkSteps env opts =
     onlyIf (opt_NetworkType opts \<noteq> []) (Add Items (Inr (NetworkTypeItem (opt_NetworkType opts))))
     @ onlyIf (NetworkIsExpensive opts) (Add Items (Inr NetworkIsExpensiveItem))
     @ onlyIf (NetworkIsConstrained opts) (Add Items (Inr NetworkIsConstrainedItem))
     @ onlyIf (WIFISSID opts \<noteq> []) (Add Items (Inr (NewWIFISSIDItem (WIFISSID opts))))
     @ onlyIf (WIFIBSSID opts \<noteq> []) (Add Items (Inr (NewWIFIBSSIDItem env (WIFIBSSID opts))))"

definition interfaceSteps :: "'a commonRule_scheme \<Rightarrow> step list" where
  "interfaceSteps opts =
     onlyIf (mapSize (NetworkInterfaceAddress opts))
       (Add Items (Inr (NewNetworkInterfaceAddressItem (the (NetworkInterfaceAddress opts)))))
     @ onlyIf (DefaultInterfaceAddress opts \<noteq> [])
         (Add Items (Inr (NewDefaultInterfaceAddressItem (DefaultInterfaceAddress opts))))"

definition namedInterfaceSteps :: "'a routeRule_scheme \<Rightarrow> step list" where
  "namedInterfaceSteps opts =
     onlyIf (mapSize (InterfaceAddress opts))
       (Add Items (Inr (NewInterfaceAddressItem (the (InterfaceAddress opts)))))"

section \<open>Route rules\<close>

definition defaultRuleSteps :: "env \<Rightarrow> RawDefaultRule \<Rightarrow> step list" where
  "defaultRuleSteps env opts =
     onlyIf (Inbound opts \<noteq> []) (Add Items (Inr (NewInboundRule (Inbound opts))))
     @ ipVersionStep (IPVersion opts)
     @ onlyIf (Network opts \<noteq> []) (Add Items (Inr (NewNetworkItem (Network opts))))
     @ onlyIf (AuthUser opts \<noteq> []) (Add Items (Inr (NewAuthUserItem (AuthUser opts))))
     @ onlyIf (Protocol opts \<noteq> []) (Add Items (Inr (NewProtocolItem (Protocol opts))))
     @ onlyIf (Client opts \<noteq> []) (Add Items (Inr (NewClientItem (Client opts))))
     @ onlyIf (Domain opts \<noteq> [] \<or> DomainSuffix opts \<noteq> []) (Add DestinationAddressItems
         (NewDomainItem (Domain opts) (DomainSuffix opts)))
     @ onlyIf (DomainKeyword opts \<noteq> []) (Add DestinationAddressItems (Inr (DomainKeywordItem (DomainKeyword opts))))
     @ onlyIf (DomainRegex opts \<noteq> []) (Add DestinationAddressItems (NewDomainRegexItem env (DomainRegex opts)))
     @ geoSteps opts
     @ onlyIf (SourceIPCIDR opts \<noteq> []) (Add SourceAddressItems
         (causeR (NewIPCIDRItem env True (SourceIPCIDR opts)) ''source_ip_cidr''))
     @ onlyIf (SourceIPIsPrivate opts) (Add SourceAddressItems (Inr (IPIsPrivateItem True)))
     @ onlyIf (IPCIDR opts \<noteq> []) (Add DestinationIPCIDRItems
         (causeR (NewIPCIDRItem env False (IPCIDR opts)) ''ipcidr''))
     @ onlyIf (IPIsPrivate opts) (Add DestinationIPCIDRItems (Inr (IPIsPrivateItem False)))
     @ portSteps opts
     @ processSteps env opts
     @ onlyIf (User opts \<noteq> []) (Add Items (Inr (NewUserItem (User opts))))
     @ onlyIf (UserID opts \<noteq> []) (Add Items (Inr (NewUserIDItem (UserID opts))))
     @ onlyIf (ClashMode opts \<noteq> []) (Add Items (Inr (ClashModeItem False (ClashMode opts))))
     @ networkSteps env opts
     @ namedInterfaceSteps opts
     @ interfaceSteps opts
     @ onlyIf (PreferredBy opts \<noteq> []) (Add Items (Inr (PreferredByItem (PreferredBy opts) [])))"

text \<open>The rule-set item of a rule; the item is last in \<open>allItems\<close>, and its sets are found at start.\<close>

definition withRuleSet ::
  "'o routeRule_scheme \<Rightarrow> bool \<Rightarrow> abstractDefaultRule \<Rightarrow> 'a option \<Rightarrow> 'a rule result" where
  "withRuleSet opts acceptEmpty r action =
     (if RuleSetTags opts \<noteq> [] then
        if Deprecated_RulesetIPCIDRMatchSource opts then
          Inl (ErrMsg
            ''rule_set_ipcidr_match_source is deprecated in sing-box 1.10.0 and removed in sing-box 1.11.0'')
        else
          Inr (DefaultRule (r\<lparr>allItems := allItems r @ [Inr ()]\<rparr>)
            (Some (RuleSetItem (RuleSetTags opts) [] (RuleSetIPCIDRMatchSource opts) acceptEmpty)) action)
      else Inr (DefaultRule r None action))"

definition NewDefaultRule ::
  "env \<Rightarrow> (DialerOptions \<Rightarrow> 'd result) \<Rightarrow> DefaultRuleOptions \<Rightarrow> ('d, 'rr) RuleAction rule result" where
  "NewDefaultRule env newDialer options =
     bindR (causeR (NewRuleAction newDialer (snd options)) ''action'') (\<lambda>action.
     bindR (runSteps (defaultRuleSteps env (fst options)) (emptyRule (Invert (fst options)))) (\<lambda>r.
       withRuleSet (fst options) False r action))"

definition logicalMode :: "string \<Rightarrow> string result" where
  "logicalMode mode =
     (if mode = LogicalTypeAnd \<or> mode = LogicalTypeOr then Inr mode
      else Inl (ErrMsg (''unknown logical mode: '' @ mode)))"

text \<open>The error of the \<open>i\<close>th rule of a logical rule.\<close>

definition subRule :: "nat \<Rightarrow> string" where
  "subRule i = ''sub rule['' @ itoa i @ '']''"

fun NewRule ::
  "env \<Rightarrow> (DialerOptions \<Rightarrow> 'd result) \<Rightarrow> bool \<Rightarrow> RouteRuleOptions \<Rightarrow> ('d, 'rr) RuleAction rule result"
and NewLogicalRule ::
  "env \<Rightarrow> (DialerOptions \<Rightarrow> 'd result) \<Rightarrow> (DefaultRuleOptions, RuleActionOptions) LogicalRuleOptions \<Rightarrow>
   ('d, 'rr) RuleAction rule result"
and NewSubRules ::
  "env \<Rightarrow> (DialerOptions \<Rightarrow> 'd result) \<Rightarrow> nat \<Rightarrow> RouteRuleOptions list \<Rightarrow> ('d, 'rr) RuleAction rule list result"
where
  "NewRule env newDialer checkOutbound (RuleOptions ty d l) =
     (if ty = [] \<or> ty = ''default'' then
        if \<not> DefaultRule_IsValid d then Inl (ErrMsg ''missing conditions'')
        else if (o_Action (snd d) = [] \<or> o_Action (snd d) = ''route'') \<and>
                o_Outbound (o_RouteOptions (snd d)) = [] \<and> checkOutbound then
          Inl (ErrMsg ''missing outbound field'')
        else NewDefaultRule env newDialer d
      else if ty = ''logical'' then
        bindR (LogicalRule_IsValid False DefaultRule_IsValid l) (\<lambda>valid.
          if \<not> valid then Inl (ErrMsg ''missing conditions'')
          else if (o_Action (logical_action l) = [] \<or> o_Action (logical_action l) = ''route'') \<and>
                  o_Outbound (o_RouteOptions (logical_action l)) = [] \<and> checkOutbound then
            Inl (ErrMsg ''missing outbound field'')
          else NewLogicalRule env newDialer l)
      else Inl (ErrMsg (''unknown rule type: '' @ ty)))"
| "NewLogicalRule env newDialer (LogicalRuleOptions mode rules inverted actionOptions) =
     bindR (causeR (NewRuleAction newDialer actionOptions) ''action'') (\<lambda>action.
     bindR (logicalMode mode) (\<lambda>m.
     bindR (NewSubRules env newDialer 0 rules) (\<lambda>rs.
       Inr (LogicalRule rs m inverted action))))"
| "NewSubRules env newDialer i [] = Inr []"
| "NewSubRules env newDialer i (subOptions # rest) =
     bindR (causeR (NewRule env newDialer False subOptions) (subRule i)) (\<lambda>r.
     bindR (NewSubRules env newDialer (i + 1) rest) (\<lambda>rs. Inr (r # rs)))"

section \<open>DNS rules\<close>

definition defaultDNSRuleSteps :: "env \<Rightarrow> RawDefaultDNSRule \<Rightarrow> step list" where
  "defaultDNSRuleSteps env opts =
     onlyIf (Inbound opts \<noteq> []) (Add Items (Inr (NewInboundRule (Inbound opts))))
     @ ipVersionStep (IPVersion opts)
     @ onlyIf (dr_QueryType opts \<noteq> []) (Add Items (Inr (NewQueryTypeItem (dr_QueryType opts))))
     @ onlyIf (Network opts \<noteq> []) (Add Items (Inr (NewNetworkItem (Network opts))))
     @ onlyIf (AuthUser opts \<noteq> []) (Add Items (Inr (NewAuthUserItem (AuthUser opts))))
     @ onlyIf (Protocol opts \<noteq> []) (Add Items (Inr (NewProtocolItem (Protocol opts))))
     @ onlyIf (Domain opts \<noteq> [] \<or> DomainSuffix opts \<noteq> []) (Add DestinationAddressItems
         (NewDomainItem (Domain opts) (DomainSuffix opts)))
     @ onlyIf (DomainKeyword opts \<noteq> []) (Add DestinationAddressItems
         (Inr (DomainKeywordItem (DomainKeyword opts))))
     @ onlyIf (DomainRegex opts \<noteq> []) (Add DestinationAddressItems
         (causeR (NewDomainRegexItem env (DomainRegex opts)) ''domain_regex''))
     @ geoSteps opts
     @ onlyIf (SourceIPCIDR opts \<noteq> []) (Add SourceAddressItems
         (causeR (NewIPCIDRItem env True (SourceIPCIDR opts)) ''source_ip_cidr''))
     @ onlyIf (IPCIDR opts \<noteq> []) (Add DestinationIPCIDRItems
         (causeR (NewIPCIDRItem env False (IPCIDR opts)) ''ip_cidr''))
     @ onlyIf (SourceIPIsPrivate opts) (Add SourceAddressItems (Inr (IPIsPrivateItem True)))
     @ onlyIf (IPIsPrivate opts) (Add DestinationIPCIDRItems (Inr (IPIsPrivateItem False)))
     @ onlyIf (IPAcceptAny opts) (Add DestinationIPCIDRItems (Inr IPAcceptAnyItem))
     @ portSteps opts
     @ processSteps env opts
     @ onlyIf (User opts \<noteq> []) (Add Items (Inr (NewUserItem (User opts))))
     @ onlyIf (UserID opts \<noteq> []) (Add Items (Inr (NewUserIDItem (UserID opts))))
     @ onlyIf (dr_Outbound opts \<noteq> []) (Add Items (Inr (NewOutboundRule (dr_Outbound opts))))
     @ onlyIf (ClashMode opts \<noteq> []) (Add Items (Inr (ClashModeItem False (ClashMode opts))))
     @ networkSteps env opts
     @ namedInterfaceSteps opts
     @ interfaceSteps opts"

definition NewDefaultDNSRule :: "env \<Rightarrow> 'rr DefaultDNSRuleOptions \<Rightarrow> ('d, 'rr) RuleAction rule result" where
  "NewDefaultDNSRule env options =
     bindR (NewDNSRuleAction (snd options)) (\<lambda>action.
     bindR (runSteps (defaultDNSRuleSteps env (fst options)) (emptyRule (Invert (fst options)))) (\<lambda>r.
       withRuleSet (fst options) (RuleSetIPCIDRAcceptEmpty (fst options)) r action))"

fun NewDNSRule :: "env \<Rightarrow> bool \<Rightarrow> 'rr DNSRuleOptions \<Rightarrow> ('d, 'rr) RuleAction rule result"
and NewLogicalDNSRule ::
  "env \<Rightarrow> ('rr DefaultDNSRuleOptions, 'rr DNSRuleActionOptions) LogicalRuleOptions \<Rightarrow>
   ('d, 'rr) RuleAction rule result"
and NewSubDNSRules :: "env \<Rightarrow> nat \<Rightarrow> 'rr DNSRuleOptions list \<Rightarrow> ('d, 'rr) RuleAction rule list result"
where
  "NewDNSRule env checkServer (RuleOptions ty d l) =
     (if ty = [] \<or> ty = ''default'' then
        if \<not> DefaultDNSRule_IsValid d then Inl (ErrMsg ''missing conditions'')
        else if (od_Action (snd d) = [] \<or> od_Action (snd d) = ''route'') \<and>
                o_Server (od_RouteOptions (snd d)) = [] \<and> checkServer then
          Inl (ErrMsg ''missing server field'')
        else NewDefaultDNSRule env d
      else if ty = ''logical'' then
        bindR (LogicalRule_IsValid False DefaultDNSRule_IsValid l) (\<lambda>valid.
          if \<not> valid then Inl (ErrMsg ''missing conditions'')
          else if (od_Action (logical_action l) = [] \<or> od_Action (logical_action l) = ''route'') \<and>
                  o_Server (od_RouteOptions (logical_action l)) = [] \<and> checkServer then
            Inl (ErrMsg ''missing server field'')
          else NewLogicalDNSRule env l)
      else Inl (ErrMsg (''unknown rule type: '' @ ty)))"
| "NewLogicalDNSRule env (LogicalRuleOptions mode rules inverted actionOptions) =
     bindR (NewDNSRuleAction actionOptions) (\<lambda>action.
     bindR (logicalMode mode) (\<lambda>m.
     bindR (NewSubDNSRules env 0 rules) (\<lambda>rs.
       Inr (LogicalRule rs m inverted action))))"
| "NewSubDNSRules env i [] = Inr []"
| "NewSubDNSRules env i (subOptions # rest) =
     bindR (causeR (NewDNSRule env False subOptions) (subRule i)) (\<lambda>r.
     bindR (NewSubDNSRules env (i + 1) rest) (\<lambda>rs. Inr (r # rs)))"

fun rule_BypassIfFailed :: "('d, 'rr) RuleAction rule \<Rightarrow> bool" where
  "rule_BypassIfFailed r =
     (case rule_Action r of
        Some (RuleActionDNSRoute server options) \<Rightarrow> dns_BypassIfFailed options
      | _ \<Rightarrow> False)"

section \<open>Headless rules\<close>

text \<open>\<open>networkManager\<close> tells whether the context has a network manager.\<close>

definition defaultHeadlessRuleSteps :: "env \<Rightarrow> bool \<Rightarrow> DefaultHeadlessRule \<Rightarrow> step list" where
  "defaultHeadlessRuleSteps env networkManager opts =
     onlyIf (hr_QueryType opts \<noteq> []) (Add Items (Inr (NewQueryTypeItem (hr_QueryType opts))))
     @ onlyIf (Network opts \<noteq> []) (Add Items (Inr (NewNetworkItem (Network opts))))
     @ (if Domain opts \<noteq> [] \<or> DomainSuffix opts \<noteq> [] then
          [Add DestinationAddressItems (NewDomainItem (Domain opts) (DomainSuffix opts))]
        else case DomainMatcher opts of
          Some m \<Rightarrow> [Add DestinationAddressItems (Inr (NewRawDomainItem m))]
        | None \<Rightarrow> [])
     @ onlyIf (DomainKeyword opts \<noteq> []) (Add DestinationAddressItems
         (Inr (DomainKeywordItem (DomainKeyword opts))))
     @ onlyIf (DomainRegex opts \<noteq> []) (Add DestinationAddressItems
         (causeR (NewDomainRegexItem env (DomainRegex opts)) ''domain_regex''))
     @ (if SourceIPCIDR opts \<noteq> [] then
          [Add SourceAddressItems (causeR (NewIPCIDRItem env True (SourceIPCIDR opts)) ''source_ip_cidr'')]
        else case SourceIPSet opts of
          Some s \<Rightarrow> [Add SourceAddressItems (Inr (NewRawIPCIDRItem True s))]
        | None \<Rightarrow> [])
     @ (if IPCIDR opts \<noteq> [] then
          [Add DestinationIPCIDRItems (causeR (NewIPCIDRItem env False (IPCIDR opts)) ''ipcidr'')]
        else case IPSet opts of
          Some s \<Rightarrow> [Add DestinationIPCIDRItems (Inr (NewRawIPCIDRItem False s))]
        | None \<Rightarrow> [])
     @ portSteps opts
     @ processSteps env opts
     @ (if networkManager then networkSteps env opts @ interfaceSteps opts else [])
     @ (if AdGuardDomain opts \<noteq> [] then
          [Add DestinationAddressItems (NewAdGuardDomainItem (AdGuardDomain opts))]
        else case AdGuardDomainMatcher opts of
          Some m \<Rightarrow> [Add DestinationAddressItems (Inr (NewRawAdGuardDomainItem m))]
        | None \<Rightarrow> [])"

definition NewDefaultHeadlessRule :: "env \<Rightarrow> bool \<Rightarrow> DefaultHeadlessRule \<Rightarrow> 'a rule result" where
  "NewDefaultHeadlessRule env networkManager options =
     bindR (runSteps (defaultHeadlessRuleSteps env networkManager options) (emptyRule (Invert options)))
       (\<lambda>r. Inr (DefaultRule r None None))"

fun NewHeadlessRule :: "env \<Rightarrow> bool \<Rightarrow> HeadlessRuleOptions \<Rightarrow> 'a rule result"
and NewLogicalHeadlessRule ::
  "env \<Rightarrow> bool \<Rightarrow> (DefaultHeadlessRule, unit) LogicalRuleOptions \<Rightarrow> 'a rule result"
and NewSubHeadlessRules :: "env \<Rightarrow> bool \<Rightarrow> nat \<Rightarrow> HeadlessRuleOptions list \<Rightarrow> 'a rule list result"
where
  "NewHeadlessRule env networkManager (RuleOptions ty d l) =
     (if ty = [] \<or> ty = ''default'' then
        if \<not> DefaultHeadlessRule_IsValid d then Inl (ErrMsg ''missing conditions'')
        else NewDefaultHeadlessRule env networkManager d
      else if ty = ''logical'' then
        bindR (LogicalRule_IsValid True DefaultHeadlessRule_IsValid l) (\<lambda>valid.
          if \<not> valid then Inl (ErrMsg ''missing conditions'')
          else NewLogicalHeadlessRule env networkManager l)
      else Inl (ErrMsg (''unknown rule type: '' @ ty)))"
| "NewLogicalHeadlessRule env networkManager (LogicalRuleOptions mode rules inverted action) =
     bindR (logicalMode mode) (\<lambda>m.
     bindR (NewSubHeadlessRules env networkManager 0 rules) (\<lambda>rs.
       Inr (LogicalRule rs m inverted None)))"
| "NewSubHeadlessRules env networkManager i [] = Inr []"
| "NewSubHeadlessRules env networkManager i (subOptions # rest) =
     bindR (causeR (NewHeadlessRule env networkManager subOptions) (subRule i)) (\<lambda>r.
     bindR (NewSubHeadlessRules env networkManager (i + 1) rest) (\<lambda>rs. Inr (r # rs)))"

section \<open>Start, close and description\<close>

text \<open>
  \<open>Start\<close> runs over all items in their order and stops at the first error. An item is shared by the
  list of its group, so the started item replaces it there too. \<open>sets\<close> is the router's lookup of
  rule-sets; the result lists the tags of the sets that gained a reference.
\<close>

fun startItems :: "env \<Rightarrow> (RuleItem + unit) list \<Rightarrow> (RuleItem + unit) list result" where
  "startItems env [] = Inr []"
| "startItems env (Inl item # rest) =
     bindR (RuleItem_Start env item) (\<lambda>item'.
     bindR (startItems env rest) (\<lambda>rest'. Inr (Inl item' # rest')))"
| "startItems env (Inr u # rest) = bindR (startItems env rest) (\<lambda>rest'. Inr (Inr u # rest'))"

definition started :: "env \<Rightarrow> RuleItem \<Rightarrow> RuleItem" where
  "started env item = (case RuleItem_Start env item of Inr item' \<Rightarrow> item' | Inl _ \<Rightarrow> item)"

definition abstractDefaultRule_Start :: "env \<Rightarrow> abstractDefaultRule \<Rightarrow> abstractDefaultRule result" where
  "abstractDefaultRule_Start env r =
     bindR (startItems env (allItems r)) (\<lambda>all.
       Inr \<lparr>items = map (started env) (items r),
            sourceAddressItems = map (started env) (sourceAddressItems r),
            sourcePortItems = map (started env) (sourcePortItems r),
            destinationAddressItems = map (started env) (destinationAddressItems r),
            destinationIPCIDRItems = map (started env) (destinationIPCIDRItems r),
            destinationPortItems = map (started env) (destinationPortItems r),
            allItems = all, invert = invert r\<rparr>)"

fun lookupSets :: "(string \<Rightarrow> 'a RuleSet option) \<Rightarrow> string list \<Rightarrow> 'a RuleSet list result" where
  "lookupSets sets [] = Inr []"
| "lookupSets sets (tag # tags) =
     (case sets tag of
        None \<Rightarrow> Inl (ErrMsg (''rule-set not found: '' @ tag))
      | Some s \<Rightarrow> bindR (lookupSets sets tags) (\<lambda>ss. Inr (s # ss)))"

fun RuleSetItem_Start :: "(string \<Rightarrow> 'a RuleSet option) \<Rightarrow> 'a RuleSetItem \<Rightarrow> 'a RuleSetItem result" where
  "RuleSetItem_Start sets (RuleSetItem tagList setList ms ae) =
     bindR (lookupSets sets tagList) (\<lambda>ss. Inr (RuleSetItem tagList (setList @ ss) ms ae))"

fun RuleSetItem_tagList :: "'a RuleSetItem \<Rightarrow> string list" where
  "RuleSetItem_tagList (RuleSetItem tagList setList ms ae) = tagList"

fun rule_Start :: "env \<Rightarrow> (string \<Rightarrow> 'a RuleSet option) \<Rightarrow> 'a rule \<Rightarrow> ('a rule \<times> string list) result"
and rules_Start :: "env \<Rightarrow> (string \<Rightarrow> 'a RuleSet option) \<Rightarrow> 'a rule list \<Rightarrow> ('a rule list \<times> string list) result"
where
  "rule_Start env sets (DefaultRule r None action) =
     bindR (abstractDefaultRule_Start env r) (\<lambda>r'. Inr (DefaultRule r' None action, []))"
| "rule_Start env sets (DefaultRule r (Some item) action) =
     bindR (abstractDefaultRule_Start env r) (\<lambda>r'.
     bindR (RuleSetItem_Start sets item) (\<lambda>item'.
       Inr (DefaultRule r' (Some item') action, RuleSetItem_tagList item)))"
| "rule_Start env sets (LogicalRule rules mode inverted action) =
     bindR (rules_Start env sets rules) (\<lambda>(rules', refs). Inr (LogicalRule rules' mode inverted action, refs))"
| "rules_Start env sets [] = Inr ([], [])"
| "rules_Start env sets (r # rs) =
     bindR (rule_Start env sets r) (\<lambda>(r', refs).
     bindR (rules_Start env sets rs) (\<lambda>(rs', refs'). Inr (r' # rs', refs @ refs')))"

text \<open>No item implements \<open>io.Closer\<close>, so closing a rule does nothing.\<close>

definition rule_Close :: "'a rule \<Rightarrow> 'a rule result" where
  "rule_Close r = Inr r"

fun RuleSetItem_String :: "'a RuleSetItem \<Rightarrow> string" where
  "RuleSetItem_String (RuleSetItem tagList setList ms ae) = listString ''rule_set='' tagList"

definition invertedString :: "bool \<Rightarrow> string \<Rightarrow> string" where
  "invertedString inverted s = (if \<not> inverted then s else ''!('' @ s @ '')'')"

definition itemsString :: "env \<Rightarrow> string \<Rightarrow> (RuleItem + unit) list \<Rightarrow> string list" where
  "itemsString env ruleSet = map (\<lambda>x. case x of Inl item \<Rightarrow> RuleItem_String env item | Inr _ \<Rightarrow> ruleSet)"

fun rule_String :: "env \<Rightarrow> 'a rule \<Rightarrow> string" where
  "rule_String env (DefaultRule r item action) =
     invertedString (invert r) (strings_Join
       (itemsString env (case item of None \<Rightarrow> [] | Some s \<Rightarrow> RuleSetItem_String s) (allItems r)) '' '')"
| "rule_String env (LogicalRule rules mode inverted action) =
     (let op = (if mode = LogicalTypeAnd then ''&&'' else if mode = LogicalTypeOr then ''||'' else [])
      in invertedString inverted (strings_Join (map (rule_String env) rules) ('' '' @ op @ '' '')))"

end
