(* ===== verification/Rule_Build.thy ===== *)
theory Rule_Build
  imports Rule_Construct Domain_Match
begin

text \<open>
  What a rule built from options matches. The steps of the constructors are related to the items of
  the built rule, the items to the options they come from, and the started rule to the formula that
  the documentation gives for the fields of a rule.
\<close>

section \<open>What the steps build\<close>

fun added :: "itemGroup \<Rightarrow> step list \<Rightarrow> RuleItem list" where
  "added g [] = []"
| "added g (Add g' (Inr item) # ss) = (if g' = g then item # added g ss else added g ss)"
| "added g (s # ss) = added g ss"

fun allAdded :: "step list \<Rightarrow> RuleItem list" where
  "allAdded [] = []"
| "allAdded (Add g (Inr item) # ss) = item # allAdded ss"
| "allAdded (s # ss) = allAdded ss"

fun succeeds :: "step list \<Rightarrow> bool" where
  "succeeds [] \<longleftrightarrow> True"
| "succeeds (Add g (Inr item) # ss) \<longleftrightarrow> succeeds ss"
| "succeeds (s # ss) \<longleftrightarrow> False"

lemma added_append [simp]: "added g (ss @ ts) = added g ss @ added g ts"
  by (induction g ss rule: added.induct) auto

lemma allAdded_append [simp]: "allAdded (ss @ ts) = allAdded ss @ allAdded ts"
  by (induction ss rule: allAdded.induct) auto

lemma succeeds_append [simp]: "succeeds (ss @ ts) \<longleftrightarrow> succeeds ss \<and> succeeds ts"
  by (induction ss rule: succeeds.induct) auto

lemma added_set: "set (added g ss) = {it. Add g (Inr it) \<in> set ss}"
  by (induction g ss rule: added.induct) auto

lemma onlyIf_simps [simp]: "onlyIf True s = [s]" "onlyIf False s = []" "set (onlyIf b s) = (if b then {s} else {})"
  by (simp_all add: onlyIf_def)

definition withAdded :: "step list \<Rightarrow> abstractDefaultRule \<Rightarrow> abstractDefaultRule" where
  "withAdded ss r =
     \<lparr>items = items r @ added Items ss,
      sourceAddressItems = sourceAddressItems r @ added SourceAddressItems ss,
      sourcePortItems = sourcePortItems r @ added SourcePortItems ss,
      destinationAddressItems = destinationAddressItems r @ added DestinationAddressItems ss,
      destinationIPCIDRItems = destinationIPCIDRItems r @ added DestinationIPCIDRItems ss,
      destinationPortItems = destinationPortItems r @ added DestinationPortItems ss,
      allItems = allItems r @ map Inl (allAdded ss), invert = invert r\<rparr>"

lemma runSteps_Inr: "runSteps ss r = Inr r' \<longleftrightarrow> succeeds ss \<and> r' = withAdded ss r"
proof (induction ss arbitrary: r rule: succeeds.induct)
  case (2 g item ss)
  have "withAdded ss (appendItem g item r) = withAdded (Add g (Inr item) # ss) r"
    by (cases g) (simp_all add: withAdded_def appendItem_def)
  then show ?case using 2 by simp
qed (auto simp: withAdded_def bindR_def)

lemma succeeds_iff: "succeeds ss \<longleftrightarrow> (\<forall>s\<in>set ss. \<exists>g it. s = Add g (Inr it))"
  by (induction ss rule: succeeds.induct) auto

lemma allAdded_empty: "succeeds ss \<Longrightarrow> allAdded ss = [] \<longleftrightarrow> ss = []"
  by (induction ss rule: succeeds.induct) auto

section \<open>What a started rule matches\<close>

lemma startItems_map: "startItems env xs = Inr ys \<Longrightarrow> length ys = length xs \<and>
    (\<forall>it. Inl it \<in> set xs \<longrightarrow> RuleItem_Start env it = Inr (started env it))"
  by (induction env xs arbitrary: ys rule: startItems.induct) (auto simp: bindR_eq_Inr started_def)

definition meets :: "env \<Rightarrow> InboundContext \<Rightarrow> RuleItem \<Rightarrow> bool" where
  "meets env md it \<longleftrightarrow> RuleItem_Match env (started env it) md"

text \<open>The group of items \<open>g\<close> has no item or one that matches.\<close>

definition groupMeets :: "env \<Rightarrow> InboundContext \<Rightarrow> RuleItem list \<Rightarrow> bool" where
  "groupMeets env md its \<longleftrightarrow> its = [] \<or> (\<exists>it\<in>set its. meets env md it)"

lemma started_match:
  assumes "abstractDefaultRule_Start env (withAdded ss (emptyRule inverted)) = Inr r" "succeeds ss" "ss \<noteq> []"
    and "\<not> md_IgnoreDestinationIPCIDRMatch md" "\<not> md_IPCIDRMatchSource md"
  shows "rule_Match env (DefaultRule r None action) md \<longleftrightarrow>
    inverted \<noteq> ((\<forall>it\<in>set (added Items ss). meets env md it) \<and>
      groupMeets env md (added SourceAddressItems ss) \<and> groupMeets env md (added SourcePortItems ss) \<and>
      groupMeets env md (added DestinationAddressItems ss @ added DestinationIPCIDRItems ss) \<and>
      groupMeets env md (added DestinationPortItems ss))"
proof -
  obtain all where all: "startItems env (map Inl (allAdded ss)) = Inr all"
    and r: "r = \<lparr>items = map (started env) (added Items ss),
            sourceAddressItems = map (started env) (added SourceAddressItems ss),
            sourcePortItems = map (started env) (added SourcePortItems ss),
            destinationAddressItems = map (started env) (added DestinationAddressItems ss),
            destinationIPCIDRItems = map (started env) (added DestinationIPCIDRItems ss),
            destinationPortItems = map (started env) (added DestinationPortItems ss),
            allItems = all, invert = inverted\<rparr>"
    using assms(1) by (auto simp: abstractDefaultRule_Start_def bindR_eq_Inr withAdded_def emptyRule_def)
  have "allItems r \<noteq> []" using startItems_map [OF all] allAdded_empty [OF assms(2)] assms(3) by (auto simp: r)
  then show ?thesis
    unfolding default_match [OF \<open>allItems r \<noteq> []\<close> assms(4)] required_top [OF assms(4,5)]
    by (simp add: r matchAnyItem_def list_all_iff list_ex_iff groupMeets_def meets_def bex_Un)
qed

section \<open>The documented fields\<close>

definition processField :: "InboundContext \<Rightarrow> (ConnectionOwner \<Rightarrow> bool) \<Rightarrow> bool" where
  "processField md P \<longleftrightarrow> (\<exists>info. md_ProcessInfo md = Some info \<and> P info)"

text \<open>The addresses of the destination: its own, or those its name was resolved to.\<close>

definition destinationAddresses :: "InboundContext \<Rightarrow> addr list" where
  "destinationAddresses md =
     (if addr_IsValid (sa_Addr (md_Destination md)) then [sa_Addr (md_Destination md)]
      else md_DestinationAddresses md)"

definition cidrCovers :: "string list \<Rightarrow> addr \<Rightarrow> bool" where
  "cidrCovers xs a \<longleftrightarrow> (\<exists>x\<in>set xs. case ParsePrefix x of
     Inr p \<Rightarrow> prefix_Contains p a
   | Inl _ \<Rightarrow> ParseAddr x = Inr a \<and> a \<noteq> AddrZero \<and> addr_Zone a = [])"

definition rangeCovers :: "string list \<Rightarrow> uint16 \<Rightarrow> bool" where
  "rangeCovers xs port \<longleftrightarrow> (\<exists>x\<in>set xs. \<exists>lo hi. parsePortRange x = Inr (lo, hi) \<and> lo \<le> port \<and> port \<le> hi)"

definition hostField :: "InboundContext \<Rightarrow> (string \<Rightarrow> bool) \<Rightarrow> bool" where
  "hostField md P \<longleftrightarrow> domainHost md \<noteq> [] \<and> P (map lowerChar (domainHost md))"

definition sourceFields :: "'a routeRule_scheme \<Rightarrow> InboundContext \<Rightarrow> bool list" where
  "sourceFields opts md =
     (if SourceIPCIDR opts \<noteq> [] then [cidrCovers (SourceIPCIDR opts) (sa_Addr (md_Source md))] else [])
     @ (if SourceIPIsPrivate opts
        then [addr_IsValid (sa_Addr (md_Source md)) \<and> \<not> IsPublicAddr (sa_Addr (md_Source md))] else [])"

definition sourcePortFields :: "'a commonRule_scheme \<Rightarrow> InboundContext \<Rightarrow> bool list" where
  "sourcePortFields opts md =
     (if opt_SourcePort opts \<noteq> [] then [sa_Port (md_Source md) \<in> set (opt_SourcePort opts)] else [])
     @ (if SourcePortRange opts \<noteq> [] then [rangeCovers (SourcePortRange opts) (sa_Port (md_Source md))] else [])"

definition portFields :: "'a commonRule_scheme \<Rightarrow> InboundContext \<Rightarrow> bool list" where
  "portFields opts md =
     (if Port opts \<noteq> [] then [sa_Port (md_Destination md) \<in> set (Port opts)] else [])
     @ (if PortRange opts \<noteq> [] then [rangeCovers (PortRange opts) (sa_Port (md_Destination md))] else [])"

definition destinationFields :: "env \<Rightarrow> 'a routeRule_scheme \<Rightarrow> InboundContext \<Rightarrow> bool list" where
  "destinationFields env opts md =
     (if Domain opts \<noteq> [] \<or> DomainSuffix opts \<noteq> []
      then [hostField md (\<lambda>host. host \<in> set (Domain opts) \<or> (\<exists>s\<in>set (DomainSuffix opts). covers s host))]
      else [])
     @ (if DomainKeyword opts \<noteq> []
        then [hostField md (\<lambda>host. \<exists>k\<in>set (DomainKeyword opts). strings_Contains host k)] else [])
     @ (if DomainRegex opts \<noteq> []
        then [hostField md (\<lambda>host. \<exists>e\<in>set (DomainRegex opts). regexp_MatchString env e host)] else [])
     @ (if IPCIDR opts \<noteq> []
        then [\<exists>a\<in>set (destinationAddresses md). cidrCovers (IPCIDR opts) a] else [])
     @ (if IPIsPrivate opts then [\<exists>a\<in>set (destinationAddresses md). \<not> IsPublicAddr a] else [])"

text \<open>The remaining fields, all of which have to match.\<close>

definition otherFields :: "env \<Rightarrow> RawDefaultRule \<Rightarrow> InboundContext \<Rightarrow> bool" where
  "otherFields env opts md \<longleftrightarrow>
     (Inbound opts = [] \<or> md_Inbound md \<in> set (Inbound opts)) \<and>
     (IPVersion opts \<le> 0 \<or> IPVersionItem_Match (IPVersion opts = 6) md) \<and>
     (Network opts = [] \<or> md_Network md \<in> set (Network opts)) \<and>
     (AuthUser opts = [] \<or> md_User md \<in> set (AuthUser opts)) \<and>
     (Protocol opts = [] \<or> md_Protocol md \<in> set (Protocol opts)) \<and>
     (Client opts = [] \<or> md_Client md \<in> set (Client opts)) \<and>
     (TunnelSource opts = [] \<or> md_TunnelSource md \<in> set (TunnelSource opts)) \<and>
     (TunnelDestination opts = [] \<or> md_TunnelDestination md \<in> set (TunnelDestination opts)) \<and>
     (ProcessName opts = [] \<or> processField md (\<lambda>i. ConnectionOwner.ProcessPath i \<noteq> [] \<and>
        filepath_Base (ConnectionOwner.ProcessPath i) \<in> set (ProcessName opts))) \<and>
     (ProcessPath opts = [] \<or> processField md (\<lambda>i.
        ConnectionOwner.ProcessPath i \<noteq> [] \<and> ConnectionOwner.ProcessPath i \<in> set (ProcessPath opts) \<or>
        IsAndroid env \<and> (\<exists>p\<in>set (AndroidPackageNames i). p \<in> set (ProcessPath opts)))) \<and>
     (ProcessPathRegex opts = [] \<or> processField md (\<lambda>i. ConnectionOwner.ProcessPath i \<noteq> [] \<and>
        (\<exists>e\<in>set (ProcessPathRegex opts). regexp_MatchString env e (ConnectionOwner.ProcessPath i)))) \<and>
     (PackageName opts = [] \<or> processField md (\<lambda>i. \<exists>p\<in>set (AndroidPackageNames i). p \<in> set (PackageName opts))) \<and>
     (User opts = [] \<or> processField md (\<lambda>i. UserName i \<noteq> [] \<and> UserName i \<in> set (User opts))) \<and>
     (UserID opts = [] \<or> processField md (\<lambda>i. UserId i \<noteq> - 1 \<and> UserId i \<in> set (UserID opts))) \<and>
     (ClashMode opts = [] \<or> (\<exists>m. clashMode env = Some m \<and> strings_EqualFold env m (ClashMode opts))) \<and>
     (opt_NetworkType opts = [] \<or>
        (\<exists>i. DefaultNetworkInterface env = Some i \<and> ni_Type i \<in> set (opt_NetworkType opts))) \<and>
     (NetworkIsExpensive opts \<longrightarrow> (\<exists>i. DefaultNetworkInterface env = Some i \<and> ni_Expensive i)) \<and>
     (NetworkIsConstrained opts \<longrightarrow> (\<exists>i. DefaultNetworkInterface env = Some i \<and> ni_Constrained i)) \<and>
     (WIFISSID opts = [] \<or> wifi_SSID (WIFI env) \<in> set (WIFISSID opts)) \<and>
     (WIFIBSSID opts = [] \<or> wifi_BSSID (WIFI env) \<in> NormalizeWIFIBSSID env ` set (WIFIBSSID opts)) \<and>
     (mapSize (InterfaceAddress opts) \<longrightarrow> meets env md (NewInterfaceAddressItem (the (InterfaceAddress opts)))) \<and>
     (mapSize (NetworkInterfaceAddress opts) \<longrightarrow>
        meets env md (NewNetworkInterfaceAddressItem (the (NetworkInterfaceAddress opts)))) \<and>
     (DefaultInterfaceAddress opts = [] \<or> meets env md (NewDefaultInterfaceAddressItem (DefaultInterfaceAddress opts))) \<and>
     (PreferredBy opts = [] \<or> PreferredByItem_Match env (PreferredBy opts) md)"

text \<open>A group of fields holds when none of them is given or one of the given ones matches.\<close>

definition anyField :: "bool list \<Rightarrow> bool" where
  "anyField fs \<longleftrightarrow> fs = [] \<or> True \<in> set fs"

section \<open>Items and fields\<close>

lemma added_onlyIf [simp]: "added g (onlyIf b s) = (if b then added g [s] else [])"
  by simp

lemma succeeds_onlyIf [simp]: "succeeds (onlyIf b s) \<longleftrightarrow> (b \<longrightarrow> succeeds [s])"
  by (cases b) simp_all

lemma succeeds_Add [simp]: "succeeds [Add g res] \<longleftrightarrow> (\<exists>it. res = Inr it)"
  by (cases res) simp_all

lemma added_Add [simp]: "added g [Add g' res] = (case res of Inr it \<Rightarrow> if g' = g then [it] else [] | Inl _ \<Rightarrow> [])"
  by (cases res) simp_all

lemma succeeds_Fail [simp]: "\<not> succeeds [Fail e]" "added g [Fail e] = []"
  by simp_all

lemma meets_items [simp]:
  "meets env md (NewInboundRule xs) \<longleftrightarrow> md_Inbound md \<in> set xs"
  "meets env md (NewNetworkItem xs) \<longleftrightarrow> md_Network md \<in> set xs"
  "meets env md (NewAuthUserItem xs) \<longleftrightarrow> md_User md \<in> set xs"
  "meets env md (NewProtocolItem xs) \<longleftrightarrow> md_Protocol md \<in> set xs"
  "meets env md (NewClientItem xs) \<longleftrightarrow> md_Client md \<in> set xs"
  "meets env md (NewTunnelSourceItem xs) \<longleftrightarrow> md_TunnelSource md \<in> set xs"
  "meets env md (NewTunnelDestinationItem xs) \<longleftrightarrow> md_TunnelDestination md \<in> set xs"
  "meets env md (IPVersionItem v6) \<longleftrightarrow> IPVersionItem_Match v6 md"
  "meets env md (NewWIFISSIDItem xs) \<longleftrightarrow> wifi_SSID (WIFI env) \<in> set xs"
  "meets env md (NewWIFIBSSIDItem env xs) \<longleftrightarrow> wifi_BSSID (WIFI env) \<in> NormalizeWIFIBSSID env ` set xs"
  by (simp_all add: meets_def started_def RuleItem_Start_def RuleItem_Match_def NewInboundRule_def InboundItem_Match_def
      NewNetworkItem_def NetworkItem_Match_def NewAuthUserItem_def AuthUserItem_Match_def NewProtocolItem_def
      ProtocolItem_Match_def NewClientItem_def ClientItem_Match_def NewTunnelSourceItem_def TunnelSourceItem_Match_def
      NewTunnelDestinationItem_def TunnelDestinationItem_Match_def NewWIFISSIDItem_def WIFISSIDItem_Match_def
      NewWIFIBSSIDItem_def WIFIBSSIDItem_Match_def)

lemma meets_process [simp]:
  "meets env md (NewProcessItem xs) \<longleftrightarrow> processField md (\<lambda>i. ConnectionOwner.ProcessPath i \<noteq> [] \<and>
     filepath_Base (ConnectionOwner.ProcessPath i) \<in> set xs)"
  "meets env md (NewProcessPathItem xs) \<longleftrightarrow> processField md (\<lambda>i.
     ConnectionOwner.ProcessPath i \<noteq> [] \<and> ConnectionOwner.ProcessPath i \<in> set xs \<or>
     IsAndroid env \<and> (\<exists>p\<in>set (AndroidPackageNames i). p \<in> set xs))"
  "meets env md (NewPackageNameItem xs) \<longleftrightarrow> processField md (\<lambda>i. \<exists>p\<in>set (AndroidPackageNames i). p \<in> set xs)"
  "meets env md (NewUserItem xs) \<longleftrightarrow> processField md (\<lambda>i. UserName i \<noteq> [] \<and> UserName i \<in> set xs)"
  "meets env md (NewUserIDItem ids) \<longleftrightarrow> processField md (\<lambda>i. UserId i \<noteq> - 1 \<and> UserId i \<in> set ids)"
  by (auto simp: meets_def started_def RuleItem_Start_def RuleItem_Match_def processField_def list_ex_iff
      NewProcessItem_def ProcessItem_Match_def NewProcessPathItem_def ProcessPathItem_Match_def NewPackageNameItem_def
      PackageNameItem_Match_def NewUserItem_def UserItem_Match_def NewUserIDItem_def UserIdItem_Match_def
      split: option.splits)

lemma meets_network [simp]:
  "meets env md (NetworkTypeItem ts) \<longleftrightarrow> (\<exists>i. DefaultNetworkInterface env = Some i \<and> ni_Type i \<in> set ts)"
  "meets env md NetworkIsExpensiveItem \<longleftrightarrow> (\<exists>i. DefaultNetworkInterface env = Some i \<and> ni_Expensive i)"
  "meets env md NetworkIsConstrainedItem \<longleftrightarrow> (\<exists>i. DefaultNetworkInterface env = Some i \<and> ni_Constrained i)"
  "meets env md (ClashModeItem srv m) \<longleftrightarrow> (\<exists>m'. clashMode env = Some m' \<and> strings_EqualFold env m' m)"
  by (auto simp: meets_def started_def RuleItem_Start_def RuleItem_Match_def NetworkTypeItem_Match_def
      NetworkIsExpensiveItem_Match_def NetworkIsConstrainedItem_Match_def ClashModeItem_Start_def
      ClashModeItem_Match_def split: option.splits)

lemma PreferredByItem_Start_tags: "PreferredByItem_Start env tags = Inr os \<Longrightarrow> os = tags"
  by (induction tags arbitrary: os) (auto simp: bindR_eq_Inr split: option.splits if_splits prod.splits)

lemma meets_preferred:
  "RuleItem_Start env (PreferredByItem tags []) = Inr it \<Longrightarrow>
     meets env md (PreferredByItem tags []) \<longleftrightarrow> PreferredByItem_Match env tags md"
  using PreferredByItem_Start_tags [of env tags]
  by (auto simp: meets_def started_def RuleItem_Start_def RuleItem_Match_def bindR_eq_Inr)

lemma compileAll_same: "compileAll env i xs = Inr ms \<Longrightarrow> ms = xs"
  by (induction env i xs arbitrary: ms rule: compileAll.induct) (auto simp: bindR_eq_Inr split: option.splits)

lemma meets_regex:
  "NewProcessPathRegexItem env xs = Inr it \<Longrightarrow> meets env md it \<longleftrightarrow> processField md (\<lambda>i. ConnectionOwner.ProcessPath i \<noteq> [] \<and>
     (\<exists>e\<in>set xs. regexp_MatchString env e (ConnectionOwner.ProcessPath i)))"
  "isASCII (domainHost md) \<Longrightarrow> NewDomainRegexItem env xs = Inr it \<Longrightarrow>
     meets env md it \<longleftrightarrow> hostField md (\<lambda>host. \<exists>e\<in>set xs. regexp_MatchString env e host)"
  by (auto simp: NewProcessPathRegexItem_def NewDomainRegexItem_def bindR_eq_Inr meets_def started_def RuleItem_Start_def
      RuleItem_Match_def ProcessPathRegexItem_Match_def DomainRegexItem_Match_def processField_def hostField_def
      list_ex_iff strings_ToLower_def dest!: compileAll_same split: option.splits if_splits)

lemma meets_keyword:
  "isASCII (domainHost md) \<Longrightarrow>
     meets env md (DomainKeywordItem xs) \<longleftrightarrow> hostField md (\<lambda>host. \<exists>k\<in>set xs. strings_Contains host k)"
  by (auto simp: meets_def started_def RuleItem_Start_def RuleItem_Match_def DomainKeywordItem_Match_def hostField_def
      list_ex_iff strings_ToLower_def)

lemma meets_domain:
  assumes "\<forall>d\<in>set domains \<union> set domainSuffixes. hostName d" "domains \<noteq> [] \<or> domainSuffixes \<noteq> []"
    and "hostName (domainHost md)" "NewDomainItem domains domainSuffixes = Inr it"
  shows "meets env md it \<longleftrightarrow> hostField md (\<lambda>host. host \<in> set domains \<or> (\<exists>s\<in>set domainSuffixes. covers s host))"
proof -
  have "[] \<notin> set domains" "[] \<notin> set domainSuffixes" using assms(4) by (auto simp: NewDomainItem_def split: if_splits)
  then obtain m where m: "NewMatcher domains domainSuffixes False = Some m" "\<And>q. hostName q \<Longrightarrow>
      Matcher_Match m q = Some (q \<in> set domains \<or> (\<exists>s\<in>set domainSuffixes. covers s q))"
    using matcher_correct [of domains domainSuffixes False] assms(1,2) by (metis UnCI)
  then obtain d where it: "it = DomainItem m d" using assms(4) by (auto simp: NewDomainItem_def split: if_splits)
  have "strings_ToLower env (domainHost md) = map lowerChar (domainHost md)"
    using assms(3) by (simp add: strings_ToLower_def isASCII_def hostName_def ascii_def list_all_iff)
  then show ?thesis using m(2) [OF hostName_lower [OF assms(3)]]
    by (simp add: it meets_def started_def RuleItem_Start_def RuleItem_Match_def DomainItem_Match_def hostField_def)
qed

lemma ipcidrEntries_covers:
  "ipcidrEntries i xs = Inr es \<Longrightarrow> (\<exists>e\<in>set es. entryCovers e a) \<longleftrightarrow> cidrCovers xs a"
proof (induction xs arbitrary: i es)
  case (Cons x rest)
  show ?case
  proof (cases "ParsePrefix x")
    case (Inr p)
    then obtain es' where "ipcidrEntries (i + 1) rest = Inr es'" "es = IPSetPrefix p # es'"
      using Cons.prems by (auto simp: bindR_eq_Inr)
    then show ?thesis using Cons.IH [of "i + 1" es'] Inr by (simp add: cidrCovers_def)
  next
    case (Inl err)
    then obtain b es' where "ParseAddr x = Inr b" "ipcidrEntries (i + 1) rest = Inr es'" "es = IPSetAddr b # es'"
      using Cons.prems by (auto simp: bindR_eq_Inr split: sum.splits)
    then show ?thesis using Cons.IH [of "i + 1" es'] Inl by (auto simp: cidrCovers_def)
  qed
qed (simp add: cidrCovers_def)

lemma meets_cidr:
  assumes "ipset_contract env" "NewIPCIDRItem env isSource xs = Inr it"
    and "\<not> md_IPCIDRMatchSource md" "\<not> md_IPCIDRAcceptEmpty md"
  shows "meets env md it \<longleftrightarrow> (if isSource then cidrCovers xs (sa_Addr (md_Source md))
    else \<exists>a\<in>set (destinationAddresses md). cidrCovers xs a)"
proof -
  obtain es d where es: "ipcidrEntries 0 xs = Inr es" "it = IPCIDRItem es isSource d"
    using assms(2) by (auto simp: NewIPCIDRItem_def bindR_eq_Inr Let_def split: option.splits)
  have "ipset_Contains env es a \<longleftrightarrow> cidrCovers xs a" for a
    using assms(1) ipcidrEntries_covers [OF es(1)] by (simp add: ipset_contract_def)
  then show ?thesis using assms(3,4)
    by (auto simp: es(2) meets_def started_def RuleItem_Start_def RuleItem_Match_def IPCIDRItem_Match_def
        destinationAddresses_def sa_IsIP_def list_ex_iff)
qed

lemma meets_private:
  "meets env md (IPIsPrivateItem isSource) \<longleftrightarrow> (if isSource
     then addr_IsValid (sa_Addr (md_Source md)) \<and> \<not> IsPublicAddr (sa_Addr (md_Source md))
     else \<exists>a\<in>set (destinationAddresses md). \<not> IsPublicAddr a)"
  by (auto simp: meets_def started_def RuleItem_Start_def RuleItem_Match_def IPIsPrivateItem_Match_def Let_def
      destinationAddresses_def list_ex_iff)

lemma parsePortRanges_covers:
  "parsePortRanges xs = Inr rs \<Longrightarrow> (\<exists>(lo, hi)\<in>set rs. lo \<le> port \<and> port \<le> hi) \<longleftrightarrow> rangeCovers xs port"
proof (induction xs arbitrary: rs)
  case (Cons x xs)
  then obtain lo hi rs' where "parsePortRange x = Inr (lo, hi)" "parsePortRanges xs = Inr rs'" "rs = (lo, hi) # rs'"
    by (auto simp: bindR_eq_Inr)
  with Cons.IH [of rs'] show ?case by (auto simp: rangeCovers_def)
qed (simp add: rangeCovers_def)

lemma meets_ports:
  "meets env md (NewPortItem isSource ps) \<longleftrightarrow> (if isSource then sa_Port (md_Source md) else sa_Port (md_Destination md)) \<in> set ps"
  "NewPortRangeItem isSource xs = Inr it \<Longrightarrow>
     meets env md it \<longleftrightarrow> rangeCovers xs (if isSource then sa_Port (md_Source md) else sa_Port (md_Destination md))"
  using parsePortRanges_covers [of xs]
  by (auto simp: meets_def started_def RuleItem_Start_def RuleItem_Match_def NewPortItem_def PortItem_Match_def
      NewPortRangeItem_def PortRangeItem_Match_def bindR_eq_Inr list_ex_iff Let_def)

section \<open>The rule that the options describe\<close>

lemma ball_onlyIf [simp]:
  "(\<forall>it\<in>set (added g (onlyIf b (Add g' res))). P it) \<longleftrightarrow> (b \<longrightarrow> g' = g \<longrightarrow> (\<forall>it. res = Inr it \<longrightarrow> P it))"
  by (cases b; cases res) simp_all

lemma ball_Fail [simp]: "added g (onlyIf b (Fail e)) = []"
  by simp

lemma added_geoSteps [simp]: "added g (geoSteps opts) = []"
  by (simp add: geoSteps_def del: added_onlyIf)

lemma otherFields_items:
  assumes "succeeds (defaultRuleSteps env opts)"
    and "\<And>it. it \<in> set (allAdded (defaultRuleSteps env opts)) \<Longrightarrow> RuleItem_Start env it = Inr (started env it)"
  shows "(\<forall>it\<in>set (added Items (defaultRuleSteps env opts)). meets env md it) \<longleftrightarrow> otherFields env opts md"
proof -
  have regex: "(ProcessPathRegex opts \<noteq> [] \<longrightarrow> (\<forall>it. NewProcessPathRegexItem env (ProcessPathRegex opts) = Inr it \<longrightarrow> meets env md it)) \<longleftrightarrow>
      (ProcessPathRegex opts = [] \<or> processField md (\<lambda>i. ConnectionOwner.ProcessPath i \<noteq> [] \<and>
        (\<exists>e\<in>set (ProcessPathRegex opts). regexp_MatchString env e (ConnectionOwner.ProcessPath i))))"
    using assms(1) meets_regex(1) by (auto simp: defaultRuleSteps_def processSteps_def)
  have pref: "(PreferredBy opts \<noteq> [] \<longrightarrow> meets env md (PreferredByItem (PreferredBy opts) [])) \<longleftrightarrow>
      (PreferredBy opts = [] \<or> PreferredByItem_Match env (PreferredBy opts) md)"
    using meets_preferred [OF assms(2), of "PreferredBy opts"] by (auto simp: defaultRuleSteps_def onlyIf_def)
  have version: "(\<forall>it\<in>set (added Items (ipVersionStep (IPVersion opts))). meets env md it) \<longleftrightarrow>
      (IPVersion opts \<le> 0 \<or> IPVersionItem_Match (IPVersion opts = 6) md)"
    using assms(1) by (auto simp: defaultRuleSteps_def ipVersionStep_def)
  show ?thesis
    unfolding defaultRuleSteps_def processSteps_def networkSteps_def interfaceSteps_def namedInterfaceSteps_def portSteps_def
      otherFields_def added_append set_append ball_Un ball_onlyIf regex [symmetric] pref [symmetric] version [symmetric]
    by (simp add: disj_imp del: added_onlyIf)
qed

lemma groupMeets_iff:
  assumes "list_all2 (\<lambda>it b. meets env md it = b) its bs"
  shows "groupMeets env md its \<longleftrightarrow> anyField bs"
proof -
  have "(\<exists>it\<in>set its. meets env md it) \<longleftrightarrow> True \<in> set bs" using assms by (induction rule: list_all2_induct) auto
  moreover have "its = [] \<longleftrightarrow> bs = []" using assms by auto
  ultimately show ?thesis by (simp add: groupMeets_def anyField_def)
qed

lemma steps_Cons [simp]:
  "succeeds (Add g res # ss) \<longleftrightarrow> (\<exists>it. res = Inr it) \<and> succeeds ss"
  "added g (Add g' res # ss) = (case res of Inr it \<Rightarrow> if g' = g then [it] else [] | Inl _ \<Rightarrow> []) @ added g ss"
  by (cases res; simp)+

lemma added_other [simp]:
  "g' \<noteq> g \<Longrightarrow> added g (onlyIf b (Add g' res)) = []"
  "g \<noteq> Items \<Longrightarrow> added g (ipVersionStep v) = []"
  "g \<noteq> Items \<Longrightarrow> added g (processSteps env opts) = []"
  "g \<noteq> Items \<Longrightarrow> added g (networkSteps env opts) = []"
  "g \<noteq> Items \<Longrightarrow> added g (interfaceSteps opts) = []"
  "g \<noteq> Items \<Longrightarrow> added g (namedInterfaceSteps ropts) = []"
  "g \<noteq> SourcePortItems \<Longrightarrow> g \<noteq> DestinationPortItems \<Longrightarrow> added g (portSteps opts) = []"
  by (cases res; auto simp: ipVersionStep_def processSteps_def networkSteps_def interfaceSteps_def
      namedInterfaceSteps_def portSteps_def onlyIf_def split: sum.splits)+

text \<open>The groups of a route rule, without the steps of other groups.\<close>

lemma defaultRule_groups:
  "added SourceAddressItems (defaultRuleSteps env opts) =
     added SourceAddressItems (onlyIf (SourceIPCIDR opts \<noteq> []) (Add SourceAddressItems
       (causeR (NewIPCIDRItem env True (SourceIPCIDR opts)) ''source_ip_cidr'')))
     @ added SourceAddressItems (onlyIf (SourceIPIsPrivate opts) (Add SourceAddressItems (Inr (IPIsPrivateItem True))))"
  "added SourcePortItems (defaultRuleSteps env opts) = added SourcePortItems (portSteps opts)"
  "added DestinationPortItems (defaultRuleSteps env opts) = added DestinationPortItems (portSteps opts)"
  "added DestinationAddressItems (defaultRuleSteps env opts) =
     added DestinationAddressItems (onlyIf (Domain opts \<noteq> [] \<or> DomainSuffix opts \<noteq> []) (Add DestinationAddressItems
       (NewDomainItem (Domain opts) (DomainSuffix opts))))
     @ added DestinationAddressItems (onlyIf (DomainKeyword opts \<noteq> []) (Add DestinationAddressItems
         (Inr (DomainKeywordItem (DomainKeyword opts)))))
     @ added DestinationAddressItems (onlyIf (DomainRegex opts \<noteq> []) (Add DestinationAddressItems
         (NewDomainRegexItem env (DomainRegex opts))))"
  "added DestinationIPCIDRItems (defaultRuleSteps env opts) =
     added DestinationIPCIDRItems (onlyIf (IPCIDR opts \<noteq> []) (Add DestinationIPCIDRItems
       (causeR (NewIPCIDRItem env False (IPCIDR opts)) ''ipcidr'')))
     @ added DestinationIPCIDRItems (onlyIf (IPIsPrivate opts) (Add DestinationIPCIDRItems (Inr (IPIsPrivateItem False))))"
  by (simp_all add: defaultRuleSteps_def del: added_onlyIf)

lemma portSteps_groups:
  "added SourcePortItems (portSteps opts) =
     added SourcePortItems (onlyIf (opt_SourcePort opts \<noteq> []) (Add SourcePortItems (Inr (NewPortItem True (opt_SourcePort opts)))))
     @ added SourcePortItems (onlyIf (SourcePortRange opts \<noteq> []) (Add SourcePortItems
         (causeR (NewPortRangeItem True (SourcePortRange opts)) ''source_port_range'')))"
  "added DestinationPortItems (portSteps opts) =
     added DestinationPortItems (onlyIf (Port opts \<noteq> []) (Add DestinationPortItems (Inr (NewPortItem False (Port opts)))))
     @ added DestinationPortItems (onlyIf (PortRange opts \<noteq> []) (Add DestinationPortItems
         (causeR (NewPortRangeItem False (PortRange opts)) ''port_range'')))"
  by (simp_all add: portSteps_def del: added_onlyIf)

lemma list_all2_if: "(b \<Longrightarrow> list_all2 P xs [y]) \<Longrightarrow> list_all2 P (if b then xs else []) (if b then [y] else [])"
  by simp

lemma list_all2_field:
  "(b \<Longrightarrow> \<exists>it. res = Inr it \<and> P it y) \<Longrightarrow> list_all2 P (added g (onlyIf b (Add g res))) (if b then [y] else [])"
  by auto

lemma sourceFields_items:
  assumes "succeeds (defaultRuleSteps env opts)" "ipset_contract env"
    and "\<not> md_IPCIDRMatchSource md" "\<not> md_IPCIDRAcceptEmpty md"
  shows "groupMeets env md (added SourceAddressItems (defaultRuleSteps env opts)) \<longleftrightarrow> anyField (sourceFields opts md)"
proof (rule groupMeets_iff)
  have "SourceIPCIDR opts \<noteq> [] \<Longrightarrow> \<exists>it. NewIPCIDRItem env True (SourceIPCIDR opts) = Inr it \<and>
      meets env md it = cidrCovers (SourceIPCIDR opts) (sa_Addr (md_Source md))"
    using assms(1) meets_cidr [OF assms(2) _ assms(3,4), of True "SourceIPCIDR opts"] by (auto simp: defaultRuleSteps_def)
  then show "list_all2 (\<lambda>it b. meets env md it = b) (added SourceAddressItems (defaultRuleSteps env opts)) (sourceFields opts md)"
    unfolding defaultRule_groups sourceFields_def
    by (intro list_all2_appendI list_all2_field) (simp_all add: meets_private)
qed

lemma portFields_items:
  assumes "succeeds (defaultRuleSteps env opts)"
  shows "groupMeets env md (added SourcePortItems (defaultRuleSteps env opts)) \<longleftrightarrow> anyField (sourcePortFields opts md)"
    and "groupMeets env md (added DestinationPortItems (defaultRuleSteps env opts)) \<longleftrightarrow> anyField (portFields opts md)"
proof -
  have s: "SourcePortRange opts \<noteq> [] \<Longrightarrow> \<exists>it. NewPortRangeItem True (SourcePortRange opts) = Inr it \<and>
      meets env md it = rangeCovers (SourcePortRange opts) (sa_Port (md_Source md))"
    and d: "PortRange opts \<noteq> [] \<Longrightarrow> \<exists>it. NewPortRangeItem False (PortRange opts) = Inr it \<and>
      meets env md it = rangeCovers (PortRange opts) (sa_Port (md_Destination md))"
    using assms meets_ports(2) [of _ _ _ env md] by (auto simp: defaultRuleSteps_def portSteps_def)
  show "groupMeets env md (added SourcePortItems (defaultRuleSteps env opts)) \<longleftrightarrow> anyField (sourcePortFields opts md)"
    unfolding defaultRule_groups portSteps_groups sourcePortFields_def
    by (intro groupMeets_iff list_all2_appendI list_all2_field) (use s in \<open>simp_all add: meets_ports(1)\<close>)
  show "groupMeets env md (added DestinationPortItems (defaultRuleSteps env opts)) \<longleftrightarrow> anyField (portFields opts md)"
    unfolding defaultRule_groups portSteps_groups portFields_def
    by (intro groupMeets_iff list_all2_appendI list_all2_field) (use d in \<open>simp_all add: meets_ports(1)\<close>)
qed

lemma destinationFields_items:
  assumes "succeeds (defaultRuleSteps env opts)" "ipset_contract env"
    and "\<not> md_IPCIDRMatchSource md" "\<not> md_IPCIDRAcceptEmpty md"
    and "\<forall>d\<in>set (Domain opts) \<union> set (DomainSuffix opts). hostName d" "hostName (domainHost md)"
  shows "groupMeets env md (added DestinationAddressItems (defaultRuleSteps env opts) @
      added DestinationIPCIDRItems (defaultRuleSteps env opts)) \<longleftrightarrow> anyField (destinationFields env opts md)"
proof (rule groupMeets_iff)
  have ascii: "isASCII (domainHost md)" using assms(6) by (simp add: isASCII_def hostName_def ascii_def list_all_iff)
  have "Domain opts \<noteq> [] \<or> DomainSuffix opts \<noteq> [] \<Longrightarrow> \<exists>it. NewDomainItem (Domain opts) (DomainSuffix opts) = Inr it \<and>
      meets env md it = hostField md (\<lambda>host. host \<in> set (Domain opts) \<or> (\<exists>s\<in>set (DomainSuffix opts). covers s host))"
    using assms(1) meets_domain [OF assms(5) _ assms(6)] by (auto simp: defaultRuleSteps_def)
  moreover have "DomainRegex opts \<noteq> [] \<Longrightarrow> \<exists>it. NewDomainRegexItem env (DomainRegex opts) = Inr it \<and>
      meets env md it = hostField md (\<lambda>host. \<exists>e\<in>set (DomainRegex opts). regexp_MatchString env e host)"
    using assms(1) meets_regex(2) [OF ascii] by (auto simp: defaultRuleSteps_def)
  moreover have "IPCIDR opts \<noteq> [] \<Longrightarrow> \<exists>it. NewIPCIDRItem env False (IPCIDR opts) = Inr it \<and>
      meets env md it = (\<exists>a\<in>set (destinationAddresses md). cidrCovers (IPCIDR opts) a)"
    using assms(1) meets_cidr [OF assms(2) _ assms(3,4), of False "IPCIDR opts"] by (auto simp: defaultRuleSteps_def)
  ultimately show "list_all2 (\<lambda>it b. meets env md it = b) (added DestinationAddressItems (defaultRuleSteps env opts) @
      added DestinationIPCIDRItems (defaultRuleSteps env opts)) (destinationFields env opts md)"
    unfolding defaultRule_groups destinationFields_def append_assoc
    by (intro list_all2_appendI list_all2_field) (simp_all add: meets_private meets_keyword [OF ascii])
qed

section \<open>Properties\<close>

text \<open>
  C16. A route rule built from options without rule-sets and then started matches a connection as
  the documentation says: up to \<open>invert\<close>, all other fields match, and of the source address, source
  port, destination (domain and IP) and port fields each group of which some field is given has a
  field that matches. Domains and host are ASCII names, and IP sets contain what their entries cover.
\<close>

theorem default_rule_as_documented:
  assumes "NewDefaultRule env newDialer (opts, actionOptions) = Inr r" "rule_Start env sets r = Inr (r', refs)"
    and "RuleSetTags opts = []" "defaultRuleSteps env opts \<noteq> []" "ipset_contract env"
    and "\<forall>d\<in>set (Domain opts) \<union> set (DomainSuffix opts). hostName d" "hostName (domainHost md)"
    and "\<not> md_IgnoreDestinationIPCIDRMatch md" "\<not> md_IPCIDRMatchSource md" "\<not> md_IPCIDRAcceptEmpty md"
  shows "rule_Match env r' md \<longleftrightarrow> Invert opts \<noteq>
    (otherFields env opts md \<and> anyField (sourceFields opts md) \<and> anyField (sourcePortFields opts md) \<and>
     anyField (destinationFields env opts md) \<and> anyField (portFields opts md))"
proof -
  let ?ss = "defaultRuleSteps env opts" and ?r = "emptyRule (Invert opts)"
  obtain action where r: "succeeds ?ss" "r = DefaultRule (withAdded ?ss ?r) None action"
    using assms(1,3) by (auto simp: NewDefaultRule_def bindR_eq_Inr runSteps_Inr withRuleSet_def)
  then obtain s where s: "abstractDefaultRule_Start env (withAdded ?ss ?r) = Inr s" "r' = DefaultRule s None action"
    using assms(2) by (auto simp: bindR_eq_Inr)
  then obtain all where "startItems env (map Inl (allAdded ?ss)) = Inr all"
    by (auto simp: abstractDefaultRule_Start_def bindR_eq_Inr withAdded_def emptyRule_def)
  then have "it \<in> set (allAdded ?ss) \<Longrightarrow> RuleItem_Start env it = Inr (started env it)" for it
    using startItems_map by fastforce
  then have other: "(\<forall>it\<in>set (added Items ?ss). meets env md it) \<longleftrightarrow> otherFields env opts md"
    by (rule otherFields_items [OF r(1)])
  show ?thesis
    unfolding s(2) started_match [OF s(1) r(1) assms(4,8,9)] other
      sourceFields_items [OF r(1) assms(5,9,10)] portFields_items [OF r(1)]
      destinationFields_items [OF r(1) assms(5,9,10,6,7)] ..
qed

text \<open>A rule on TCP connections to port 443.\<close>

definition webRule :: "RawDefaultRule" where
  "webRule = rawDefaultRuleZero\<lparr>Network := [''tcp''], Port := [443]\<rparr>"

lemma webRule_steps: "defaultRuleSteps env webRule =
    [Add Items (Inr (NewNetworkItem [''tcp''])), Add DestinationPortItems (Inr (NewPortItem False [443]))]"
  by (simp add: defaultRuleSteps_def ipVersionStep_def geoSteps_def portSteps_def processSteps_def networkSteps_def
      namedInterfaceSteps_def interfaceSteps_def mapSize_def webRule_def rawDefaultRuleZero_def routeRuleZero_def
      commonRuleZero_def commonRule.defs routeRule.defs RawDefaultRule.defs)

theorem default_rule_as_documented_witness:
  "\<exists>r r' refs. NewDefaultRule sampleEnv (\<lambda>_. Inl ErrInvalid :: unit result) (webRule, ruleActionZero) = Inr (r :: (unit, unit) RuleAction rule) \<and>
     rule_Start sampleEnv (\<lambda>_. None) r = Inr (r', refs) \<and>
     rule_Match sampleEnv r' ((portContext 1000 443)\<lparr>md_Network := ''tcp''\<rparr>) \<and>
     \<not> rule_Match sampleEnv r' ((portContext 1000 443)\<lparr>md_Network := ''udp''\<rparr>)"
proof -
  have action: "NewRuleAction (\<lambda>_. Inl ErrInvalid :: unit result) ruleActionZero = Inr (None :: (unit, unit) RuleAction option)"
    by (simp add: NewRuleAction_def ruleActionZero_def)
  have fields: "RuleSetTags webRule = []" "Domain webRule = []" "DomainSuffix webRule = []" "\<not> Invert webRule"
    "Network webRule = [''tcp'']" "Port webRule = [443]" "PortRange webRule = []"
    by (simp_all add: webRule_def rawDefaultRuleZero_def routeRuleZero_def
      commonRuleZero_def commonRule.defs routeRule.defs RawDefaultRule.defs)
  obtain r :: "(unit, unit) RuleAction rule" where r: "NewDefaultRule sampleEnv (\<lambda>_. Inl ErrInvalid :: unit result) (webRule, ruleActionZero) = Inr r"
    "r = DefaultRule (withAdded (defaultRuleSteps sampleEnv webRule) (emptyRule False)) None None"
    using fields(1,4) by (simp add: NewDefaultRule_def action withRuleSet_def webRule_steps withAdded_def appendItem_def emptyRule_def)
  obtain r' refs where r': "rule_Start sampleEnv (\<lambda>_. None) r = Inr (r', refs)"
    by (simp add: r(2) webRule_steps abstractDefaultRule_Start_def withAdded_def emptyRule_def RuleItem_Start_def
        NewNetworkItem_def NewPortItem_def)
  have match: "rule_Match sampleEnv r' ((portContext 1000 443)\<lparr>md_Network := n\<rparr>) \<longleftrightarrow> n = ''tcp''" for n
  proof -
    let ?md = "(portContext 1000 443)\<lparr>md_Network := n\<rparr>"
    have "hostName (domainHost ?md)" by (simp add: domainHost_def portContext_def emptyContext_def hostName_def ascii_def)
    then have "rule_Match sampleEnv r' ?md \<longleftrightarrow> Invert webRule \<noteq> (otherFields sampleEnv webRule ?md \<and>
        anyField (sourceFields webRule ?md) \<and> anyField (sourcePortFields webRule ?md) \<and>
        anyField (destinationFields sampleEnv webRule ?md) \<and> anyField (portFields webRule ?md))"
      using default_rule_as_documented [OF r(1) r' fields(1) _ sampleEnv_contract, of ?md] fields(2,3)
      by (simp add: webRule_steps portContext_def emptyContext_def)
    then show ?thesis
      by (simp add: webRule_def rawDefaultRuleZero_def routeRuleZero_def commonRuleZero_def commonRule.defs routeRule.defs
          RawDefaultRule.defs otherFields_def mapSize_def sourceFields_def sourcePortFields_def destinationFields_def
          portFields_def anyField_def portContext_def emptyContext_def)
  qed
  show ?thesis using r(1) r' match [of "''tcp''"] match [of "''udp''"] by blast
qed

end
