(* ===== verification/Srs_Format.thy ===== *)
theory Srs_Format
  imports Trie_Format Rule_Build
begin

text \<open>
  The binary rule-set format (\<open>common/srs/binary.go\<close>, \<open>ip_set.go\<close>, \<open>ip_cidr.go\<close>): \<open>Write\<close> compiles the
  headless rules of a source rule-set, \<open>Read\<close> loads them. The compression of \<open>compress/zlib\<close>, the
  normal form of the IP sets of \<open>netipx\<close> and the growth of slices are parameters, in the record
  \<open>srsLibrary\<close>. Writers go to memory, so the only errors of \<open>Write\<close> are those of its own checks.
\<close>

section \<open>Counted sequences\<close>

context codec
begin

lemma counted:
  "\<forall>x\<in>set xs. ok x \<Longrightarrow> length xs < 2 ^ 64 \<Longrightarrow>
   bindRd ReadUvarint (\<lambda>n. readMany (unat n) dec)
     (s\<lparr>pending := WriteUvarint (of_nat (length xs)) @ concat (map enc xs) @ rest\<rparr>) = Inr (xs, s\<lparr>pending := rest\<rparr>)"
  by (simp add: uvarint.then_read unat_of_nat many)

lemma counted_then:
  "\<forall>x\<in>set xs. ok x \<Longrightarrow> length xs < 2 ^ 64 \<Longrightarrow>
   bindRd ReadUvarint (\<lambda>n. bindRd (readMany (unat n) dec) f)
     (s\<lparr>pending := WriteUvarint (of_nat (length xs)) @ concat (map enc xs) @ rest\<rparr>) = f xs (s\<lparr>pending := rest\<rparr>)"
  by (simp add: uvarint.then_read unat_of_nat) (simp add: bindRd_def many)

end

lemma beEncode_byte [simp]: "beEncode (b :: uint8) = [b]"
  by (simp add: beEncode_def)

lemma readUint8_then: "bindRd (readUint :: uint8 reader) f (s\<lparr>pending := b # bs\<rparr>) = f b (s\<lparr>pending := bs\<rparr>)"
  using byte.then_read [where x = b and rest = bs] by simp

section \<open>Code outside the sources\<close>

text \<open>
  \<open>zlib_NewReader\<close> turns the rest of a source into the source of the decompressed bytes;
  \<open>ipset_Ranges\<close> lists the ranges that a built set keeps and \<open>ipset_Prefixes\<close> its prefixes;
  \<open>growSlack\<close> gives the spare capacity for an element size and a length.
\<close>

record srsLibrary =
  zlib_Compress :: "bytes \<Rightarrow> bytes"
  zlib_NewReader :: "source \<Rightarrow> source result"
  ipset_Ranges :: "ipset \<Rightarrow> (addr \<times> addr) list"
  ipset_Prefixes :: "ipset \<Rightarrow> prefix list"
  growSlack :: "nat \<Rightarrow> nat \<Rightarrow> nat"

section \<open>Addresses\<close>

fun addr_AsSlice :: "addr \<Rightarrow> bytes" where
  "addr_AsSlice AddrZero = []"
| "addr_AsSlice (Addr4 w) = beEncode w"
| "addr_AsSlice (Addr6 w z) = beEncode w"

definition AddrFromIP :: "bytes \<Rightarrow> addr" where
  "AddrFromIP bs =
     (if length bs = 4 then Addr4 (beDecode bs) else if length bs = 16 then Addr6 (beDecode bs) [] else AddrZero)"

definition writeAddr :: "addr \<Rightarrow> bytes" where
  "writeAddr a = WriteUvarint (of_nat (length (addr_AsSlice a))) @ addr_AsSlice a"

definition readIPSetAddr :: "addr reader" where
  "readIPSetAddr =
     bindRd ReadUvarint (\<lambda>addrLen.
       if addrLen \<noteq> 4 \<and> addrLen \<noteq> 16 then failRd ErrInvalid
       else bindRd (ReadFull (unat addrLen)) (\<lambda>bs. returnRd (AddrFromIP bs)))"

definition readIPRange :: "(addr \<times> addr) reader" where
  "readIPRange = bindRd readIPSetAddr (\<lambda>from. bindRd readIPSetAddr (\<lambda>to. returnRd (from, to)))"

definition readIPSet :: "ipset reader" where
  "readIPSet =
     bindRd ReadByte (\<lambda>version.
       if version \<noteq> 1 then failRd ErrInvalid
       else
         bindRd (readUint :: uint64 reader) (\<lambda>n.
         bindRd (readMany (unat n) readIPRange) (\<lambda>rr.
           returnRd (map (\<lambda>(lo, hi). IPSetRange lo hi) rr))))"

definition writeIPSet :: "srsLibrary \<Rightarrow> ipset \<Rightarrow> bytes" where
  "writeIPSet lib s =
     (let rr = ipset_Ranges lib s
      in 1 # beEncode (of_nat (length rr) :: uint64) @ concat (map (\<lambda>(lo, hi). writeAddr lo @ writeAddr hi) rr))"

definition readPrefix :: "prefix reader" where
  "readPrefix =
     bindRd ReadUvarint (\<lambda>addrLen.
       if addrLen \<noteq> 4 \<and> addrLen \<noteq> 16 then failRd ErrInvalid
       else
         bindRd (ReadFull (unat addrLen)) (\<lambda>bs.
         bindRd ReadByte (\<lambda>prefixBits.
           returnRd (PrefixFrom (AddrFromIP bs) (int (unat prefixBits))))))"

definition writePrefix :: "prefix \<Rightarrow> bytes" where
  "writePrefix p = writeAddr (pfx_ip p) @ [of_int (prefix_Bits p)]"

section \<open>Items\<close>

abbreviation (input) "ruleItemQueryType \<equiv> 0 :: uint8"
abbreviation (input) "ruleItemNetwork \<equiv> 1 :: uint8"
abbreviation (input) "ruleItemDomain \<equiv> 2 :: uint8"
abbreviation (input) "ruleItemDomainKeyword \<equiv> 3 :: uint8"
abbreviation (input) "ruleItemDomainRegex \<equiv> 4 :: uint8"
abbreviation (input) "ruleItemSourceIPCIDR \<equiv> 5 :: uint8"
abbreviation (input) "ruleItemIPCIDR \<equiv> 6 :: uint8"
abbreviation (input) "ruleItemSourcePort \<equiv> 7 :: uint8"
abbreviation (input) "ruleItemSourcePortRange \<equiv> 8 :: uint8"
abbreviation (input) "ruleItemPort \<equiv> 9 :: uint8"
abbreviation (input) "ruleItemPortRange \<equiv> 10 :: uint8"
abbreviation (input) "ruleItemProcessName \<equiv> 11 :: uint8"
abbreviation (input) "ruleItemProcessPath \<equiv> 12 :: uint8"
abbreviation (input) "ruleItemPackageName \<equiv> 13 :: uint8"
abbreviation (input) "ruleItemWIFISSID \<equiv> 14 :: uint8"
abbreviation (input) "ruleItemWIFIBSSID \<equiv> 15 :: uint8"
abbreviation (input) "ruleItemAdGuardDomain \<equiv> 16 :: uint8"
abbreviation (input) "ruleItemProcessPathRegex \<equiv> 17 :: uint8"
abbreviation (input) "ruleItemNetworkType \<equiv> 18 :: uint8"
abbreviation (input) "ruleItemNetworkIsExpensive \<equiv> 19 :: uint8"
abbreviation (input) "ruleItemNetworkIsConstrained \<equiv> 20 :: uint8"
abbreviation (input) "ruleItemNetworkInterfaceAddress \<equiv> 21 :: uint8"
abbreviation (input) "ruleItemDefaultInterfaceAddress \<equiv> 22 :: uint8"
abbreviation (input) "ruleItemFinal \<equiv> 0xFF :: uint8"

definition readRuleItemString :: "srsLibrary \<Rightarrow> string list reader" where
  "readRuleItemString lib =
     bindRd ReadUvarint (\<lambda>n.
       readMany (unat n) (bindRd (ReadSlice (growSlack lib 1)) (\<lambda>value. returnRd (stringOf value))))"

definition writeString :: "string \<Rightarrow> bytes" where
  "writeString s = WriteUvarint (of_nat (length s)) @ bytesOf s"

definition writeRuleItemString :: "uint8 \<Rightarrow> string list \<Rightarrow> bytes" where
  "writeRuleItemString itemType value =
     itemType # WriteUvarint (of_nat (length value)) @ concat (map writeString value)"

definition writeRuleItemUint8 :: "uint8 \<Rightarrow> uint8 list \<Rightarrow> bytes" where
  "writeRuleItemUint8 itemType value = itemType # WriteUvarint (of_nat (length value)) @ value"

definition writeRuleItemUint16 :: "uint8 \<Rightarrow> uint16 list \<Rightarrow> bytes" where
  "writeRuleItemUint16 itemType value =
     itemType # WriteUvarint (of_nat (length value)) @ concat (map beEncode value)"

definition writeRuleItemCIDR :: "srsLibrary \<Rightarrow> env \<Rightarrow> uint8 \<Rightarrow> string list \<Rightarrow> bytes result" where
  "writeRuleItemCIDR lib env itemType value =
     bindR (ipcidrEntries 0 value) (\<lambda>entries.
       case ipset_Build env entries of
         Some err \<Rightarrow> Inl err
       | None \<Rightarrow> Inr (itemType # writeIPSet lib entries))"

definition readPrefixes :: "Prefixable list reader" where
  "readPrefixes = bindRd ReadUvarint (\<lambda>n. readMany (unat n) (bindRd readPrefix (\<lambda>p. returnRd (Some p))))"

definition writePrefixes :: "Prefixable list \<Rightarrow> bytes" where
  "writePrefixes ps =
     WriteUvarint (of_nat (length ps)) @ concat (map (\<lambda>p. writePrefix (Prefixable_Build p prefixZero)) ps)"

text \<open>\<open>Put\<close> of the ordered map: a known key keeps its place.\<close>

fun mapPut :: "'k \<Rightarrow> 'v \<Rightarrow> ('k \<times> 'v) list \<Rightarrow> ('k \<times> 'v) list" where
  "mapPut k v [] = [(k, v)]"
| "mapPut k v ((k', v') # es) = (if k' = k then (k, v) # es else (k', v') # mapPut k v es)"

definition readEntry :: "(InterfaceType \<times> Prefixable list) reader" where
  "readEntry = bindRd (readUint :: uint8 reader) (\<lambda>key. bindRd readPrefixes (\<lambda>value. returnRd (key, value)))"

section \<open>Default rules\<close>

definition dumpR :: "'a option \<Rightarrow> ('a \<Rightarrow> 'b) \<Rightarrow> 'b reader" where
  "dumpR r f = (case r of None \<Rightarrow> failRd (Panic ''index out of range'') | Some x \<Rightarrow> returnRd (f x))"

text \<open>The item types of \<open>readDefaultRule\<close> other than the final one.\<close>

definition readItem ::
  "srsLibrary \<Rightarrow> bool \<Rightarrow> uint8 \<Rightarrow> uint8 \<Rightarrow> DefaultHeadlessRule \<Rightarrow> DefaultHeadlessRule reader" where
  "readItem lib recover lastItemType itemType rule =
     (if itemType = ruleItemQueryType then
        bindRd (ReadSlice (growSlack lib 2)) (\<lambda>v. returnRd (rule\<lparr>hr_QueryType := v\<rparr>))
      else if itemType = ruleItemNetwork then
        bindRd (readRuleItemString lib) (\<lambda>v. returnRd (rule\<lparr>Network := v\<rparr>))
      else if itemType = ruleItemDomain then
        bindRd (ReadMatcher (growSlack lib 8)) (\<lambda>matcher.
          if recover then
            dumpR (Matcher_Dump matcher) (\<lambda>(ds, ss).
              rule\<lparr>DomainMatcher := Some matcher, Domain := ds, DomainSuffix := ss\<rparr>)
          else returnRd (rule\<lparr>DomainMatcher := Some matcher\<rparr>))
      else if itemType = ruleItemDomainKeyword then
        bindRd (readRuleItemString lib) (\<lambda>v. returnRd (rule\<lparr>DomainKeyword := v\<rparr>))
      else if itemType = ruleItemDomainRegex then
        bindRd (readRuleItemString lib) (\<lambda>v. returnRd (rule\<lparr>DomainRegex := v\<rparr>))
      else if itemType = ruleItemSourceIPCIDR then
        bindRd readIPSet (\<lambda>s. returnRd
          (if recover
           then rule\<lparr>SourceIPSet := Some s, SourceIPCIDR := map prefix_String (ipset_Prefixes lib s)\<rparr>
           else rule\<lparr>SourceIPSet := Some s\<rparr>))
      else if itemType = ruleItemIPCIDR then
        bindRd readIPSet (\<lambda>s. returnRd
          (if recover then rule\<lparr>IPSet := Some s, IPCIDR := map prefix_String (ipset_Prefixes lib s)\<rparr>
           else rule\<lparr>IPSet := Some s\<rparr>))
      else if itemType = ruleItemSourcePort then
        bindRd (ReadSlice (growSlack lib 2)) (\<lambda>v. returnRd (rule\<lparr>opt_SourcePort := v\<rparr>))
      else if itemType = ruleItemSourcePortRange then
        bindRd (readRuleItemString lib) (\<lambda>v. returnRd (rule\<lparr>SourcePortRange := v\<rparr>))
      else if itemType = ruleItemPort then
        bindRd (ReadSlice (growSlack lib 2)) (\<lambda>v. returnRd (rule\<lparr>Port := v\<rparr>))
      else if itemType = ruleItemPortRange then
        bindRd (readRuleItemString lib) (\<lambda>v. returnRd (rule\<lparr>PortRange := v\<rparr>))
      else if itemType = ruleItemProcessName then
        bindRd (readRuleItemString lib) (\<lambda>v. returnRd (rule\<lparr>ProcessName := v\<rparr>))
      else if itemType = ruleItemProcessPath then
        bindRd (readRuleItemString lib) (\<lambda>v. returnRd (rule\<lparr>ProcessPath := v\<rparr>))
      else if itemType = ruleItemProcessPathRegex then
        bindRd (readRuleItemString lib) (\<lambda>v. returnRd (rule\<lparr>ProcessPathRegex := v\<rparr>))
      else if itemType = ruleItemPackageName then
        bindRd (readRuleItemString lib) (\<lambda>v. returnRd (rule\<lparr>PackageName := v\<rparr>))
      else if itemType = ruleItemWIFISSID then
        bindRd (readRuleItemString lib) (\<lambda>v. returnRd (rule\<lparr>WIFISSID := v\<rparr>))
      else if itemType = ruleItemWIFIBSSID then
        bindRd (readRuleItemString lib) (\<lambda>v. returnRd (rule\<lparr>WIFIBSSID := v\<rparr>))
      else if itemType = ruleItemAdGuardDomain then
        bindRd (ReadAdGuardMatcher (growSlack lib 8)) (\<lambda>matcher.
          if recover then
            dumpR (AdGuardMatcher_Dump matcher) (\<lambda>ls.
              rule\<lparr>AdGuardDomainMatcher := Some matcher, AdGuardDomain := ls\<rparr>)
          else returnRd (rule\<lparr>AdGuardDomainMatcher := Some matcher\<rparr>))
      else if itemType = ruleItemNetworkType then
        bindRd (ReadSlice (growSlack lib 1)) (\<lambda>v. returnRd (rule\<lparr>opt_NetworkType := v\<rparr>))
      else if itemType = ruleItemNetworkIsExpensive then returnRd (rule\<lparr>NetworkIsExpensive := True\<rparr>)
      else if itemType = ruleItemNetworkIsConstrained then returnRd (rule\<lparr>NetworkIsConstrained := True\<rparr>)
      else if itemType = ruleItemNetworkInterfaceAddress then
        bindRd ReadUvarint (\<lambda>n.
        bindRd (readMany (unat n) readEntry) (\<lambda>es.
          returnRd (rule\<lparr>NetworkInterfaceAddress := Some (foldl (\<lambda>m (k, v). mapPut k v m) [] es)\<rparr>)))
      else if itemType = ruleItemDefaultInterfaceAddress then
        bindRd readPrefixes (\<lambda>v. returnRd (rule\<lparr>DefaultInterfaceAddress := v\<rparr>))
      else failRd (ErrMsg (''unknown rule item type: '' @ itoa (unat itemType) @ '', last type: '' @
             itoa (unat lastItemType))))"

text \<open>Every round of the loop of \<open>readDefaultRule\<close> reads at least the type of an item.\<close>

lemma consumes_0: "consumes k rd \<Longrightarrow> consumes 0 rd"
  by (rule consumes_mono) simp_all

lemma consumes_bind0: "consumes 0 rd \<Longrightarrow> (\<And>x. consumes 0 (f x)) \<Longrightarrow> consumes 0 (bindRd rd f)"
  using consumes_bind [of 0 rd 0 f] by simp

lemma consumes_liftR: "consumes 0 (liftR r)"
  by (cases r) (auto simp: consumes_def liftR_def)

lemma consumes_if: "consumes 0 a \<Longrightarrow> consumes 0 b \<Longrightarrow> consumes 0 (if c then a else b)"
  by simp

lemma consumes_dumpR: "consumes 0 (dumpR r f)"
  by (cases r) (simp_all add: dumpR_def consumes_intros)

lemmas consumes_parts =
  consumes_0 [OF consumes_ReadByte] consumes_0 [OF consumes_ReadFull] consumes_0 [OF consumes_ReadUvarint]
  consumes_0 [OF consumes_ReadSlice] consumes_return consumes_fail consumes_liftR consumes_dumpR consumes_readMany
  consumes_bind0 consumes_if

lemma consumes_readers:
  "consumes 0 readIPSetAddr" "consumes 0 readIPRange" "consumes 0 readIPSet" "consumes 0 readPrefix"
  "consumes 0 (readRuleItemString lib)" "consumes 0 readPrefixes" "consumes 0 readEntry" "consumes 0 (readSuccinctSet slack)"
  "consumes 0 (readUint :: 'a::len word reader)"
  unfolding readEntry_def readPrefixes_def readIPSet_def readIPRange_def readIPSetAddr_def readPrefix_def
    readRuleItemString_def readSuccinctSet_def readUint_def
  by (intro consumes_parts)+

lemma consumes_readItem: "consumes 0 (readItem lib recover lastItemType itemType rule)"
  unfolding readItem_def ReadMatcher_def ReadAdGuardMatcher_def
  by (intro consumes_parts consumes_readers)

function readDefaultRule ::
  "srsLibrary \<Rightarrow> bool \<Rightarrow> uint8 \<Rightarrow> DefaultHeadlessRule \<Rightarrow> DefaultHeadlessRule reader" where
  "readDefaultRule lib recover lastItemType rule s =
     bindR (ReadFull 1 s) (\<lambda>p.
       let itemType = hd (fst p)
       in if itemType = ruleItemFinal then
            bindR (readBool (snd p)) (\<lambda>q. Inr (rule\<lparr>Invert := fst q\<rparr>, snd q))
          else bindR (readItem lib recover lastItemType itemType rule (snd p)) (\<lambda>q.
            readDefaultRule lib recover itemType (fst q) (snd q)))"
  by pat_completeness auto

termination readDefaultRule
proof (relation "measure (\<lambda>(lib, recover, lastItemType, rule, s). length (pending s))")
  fix lib recover lastItemType rule s p itemType q
  assume "ReadFull 1 s = Inr p" "readItem lib recover lastItemType itemType rule (snd p) = Inr q"
  then have "length (pending (snd p)) + 1 \<le> length (pending s)" "length (pending (snd q)) \<le> length (pending (snd p))"
    using consumesD [OF consumes_ReadFull, of 1 s "fst p" "snd p"]
      consumesD [OF consumes_readItem, of lib recover lastItemType itemType rule "snd p" "fst q" "snd q"] by simp_all
  then show "((lib, recover, itemType, fst q, snd q), lib, recover, lastItemType, rule, s)
      \<in> measure (\<lambda>(lib, recover, lastItemType, rule, s). length (pending s))" by (simp add: case_prod_unfold)
qed simp

declare readDefaultRule.simps [simp del]

text \<open>The pieces of \<open>writeDefaultRule\<close> are written in turn until one of them fails.\<close>

fun concatR :: "bytes result list \<Rightarrow> bytes result" where
  "concatR [] = Inr []"
| "concatR (r # rs) = bindR r (\<lambda>b. bindR (concatR rs) (\<lambda>bs. Inr (b @ bs)))"

definition onlyIfW :: "bool \<Rightarrow> bytes result \<Rightarrow> bytes result" where
  "onlyIfW c r = (if c then r else Inr [])"

definition since :: "uint8 \<Rightarrow> uint8 \<Rightarrow> string \<Rightarrow> bytes \<Rightarrow> bytes result" where
  "since version generateVersion msg bs = (if generateVersion < version then Inl (ErrMsg msg) else Inr bs)"

definition onlySince :: "string \<Rightarrow> string \<Rightarrow> string" where
  "onlySince item version =
     ''`'' @ item @ ''` rule item is only supported in version '' @ version @ '' or later''"

definition writeMatcher :: "uint8 \<Rightarrow> succinctSet option \<Rightarrow> bytes result" where
  "writeMatcher itemType m =
     (case m of None \<Rightarrow> Inl (Panic ''index out of range'') | Some ss \<Rightarrow> Inr (itemType # succinctSet_Write ss))"

definition writeEntries :: "(InterfaceType \<times> Prefixable list) list \<Rightarrow> bytes" where
  "writeEntries es =
     WriteUvarint (of_nat (length es)) @ concat (map (\<lambda>(k, v). beEncode k @ writePrefixes v) es)"

definition writeItems :: "srsLibrary \<Rightarrow> env \<Rightarrow> uint8 \<Rightarrow> DefaultHeadlessRule \<Rightarrow> bytes result list" where
  "writeItems lib env generateVersion rule =
       [onlyIfW (hr_QueryType rule \<noteq> []) (Inr (writeRuleItemUint16 ruleItemQueryType (hr_QueryType rule))),
        onlyIfW (Network rule \<noteq> []) (Inr (writeRuleItemString ruleItemNetwork (Network rule))),
        onlyIfW (Domain rule \<noteq> [] \<or> DomainSuffix rule \<noteq> [])
          (writeMatcher ruleItemDomain (NewMatcher (Domain rule) (DomainSuffix rule) (generateVersion = 1))),
        onlyIfW (DomainKeyword rule \<noteq> []) (Inr (writeRuleItemString ruleItemDomainKeyword (DomainKeyword rule))),
        onlyIfW (DomainRegex rule \<noteq> []) (Inr (writeRuleItemString ruleItemDomainRegex (DomainRegex rule))),
        onlyIfW (SourceIPCIDR rule \<noteq> [])
          (causeR (writeRuleItemCIDR lib env ruleItemSourceIPCIDR (SourceIPCIDR rule)) ''source_ip_cidr''),
        onlyIfW (IPCIDR rule \<noteq> []) (causeR (writeRuleItemCIDR lib env ruleItemIPCIDR (IPCIDR rule)) ''ipcidr''),
        onlyIfW (opt_SourcePort rule \<noteq> []) (Inr (writeRuleItemUint16 ruleItemSourcePort (opt_SourcePort rule))),
        onlyIfW (SourcePortRange rule \<noteq> [])
          (Inr (writeRuleItemString ruleItemSourcePortRange (SourcePortRange rule))),
        onlyIfW (Port rule \<noteq> []) (Inr (writeRuleItemUint16 ruleItemPort (Port rule))),
        onlyIfW (PortRange rule \<noteq> []) (Inr (writeRuleItemString ruleItemPortRange (PortRange rule))),
        onlyIfW (ProcessName rule \<noteq> []) (Inr (writeRuleItemString ruleItemProcessName (ProcessName rule))),
        onlyIfW (ProcessPath rule \<noteq> []) (Inr (writeRuleItemString ruleItemProcessPath (ProcessPath rule))),
        onlyIfW (ProcessPathRegex rule \<noteq> [])
          (Inr (writeRuleItemString ruleItemProcessPathRegex (ProcessPathRegex rule))),
        onlyIfW (PackageName rule \<noteq> []) (Inr (writeRuleItemString ruleItemPackageName (PackageName rule))),
        onlyIfW (opt_NetworkType rule \<noteq> []) (since 3 generateVersion (onlySince ''network_type'' ''3'')
          (writeRuleItemUint8 ruleItemNetworkType (opt_NetworkType rule))),
        onlyIfW (NetworkIsExpensive rule) (since 3 generateVersion (onlySince ''network_is_expensive'' ''3'')
          [ruleItemNetworkIsExpensive]),
        onlyIfW (NetworkIsConstrained rule) (since 3 generateVersion (onlySince ''network_is_constrained'' ''3'')
          [ruleItemNetworkIsConstrained]),
        onlyIfW (mapSize (NetworkInterfaceAddress rule)) (since 4 generateVersion
          (onlySince ''network_interface_address'' ''4'')
          (ruleItemNetworkInterfaceAddress # writeEntries (the (NetworkInterfaceAddress rule)))),
        onlyIfW (DefaultInterfaceAddress rule \<noteq> []) (since 4 generateVersion
          (onlySince ''default_interface_address'' ''4'')
          (ruleItemDefaultInterfaceAddress # writePrefixes (DefaultInterfaceAddress rule))),
        onlyIfW (WIFISSID rule \<noteq> []) (Inr (writeRuleItemString ruleItemWIFISSID (WIFISSID rule))),
        onlyIfW (WIFIBSSID rule \<noteq> []) (Inr (writeRuleItemString ruleItemWIFIBSSID (WIFIBSSID rule))),
        onlyIfW (AdGuardDomain rule \<noteq> [])
          (if generateVersion < 2 then Inl (ErrMsg ''AdGuard rule items is only supported in version 2 or later'')
           else writeMatcher ruleItemAdGuardDomain (NewAdGuardMatcher (AdGuardDomain rule)))]"

definition writeDefaultRule :: "srsLibrary \<Rightarrow> env \<Rightarrow> uint8 \<Rightarrow> DefaultHeadlessRule \<Rightarrow> bytes result" where
  "writeDefaultRule lib env generateVersion rule =
     concatR (Inr [0] # writeItems lib env generateVersion rule @ [Inr (ruleItemFinal # writeBool (Invert rule))])"

section \<open>Rules and rule-sets\<close>

primrec readIndexed :: "(nat \<Rightarrow> string) \<Rightarrow> nat \<Rightarrow> nat \<Rightarrow> 'a reader \<Rightarrow> 'a list reader" where
  "readIndexed msg i 0 rd = returnRd []"
| "readIndexed msg i (Suc n) rd =
     bindRd (\<lambda>s. causeR (rd s) (msg i)) (\<lambda>x. bindRd (readIndexed msg (i + 1) n rd) (\<lambda>xs. returnRd (x # xs)))"

definition logicalZero :: "(DefaultHeadlessRule, unit) LogicalRuleOptions" where
  "logicalZero = LogicalRuleOptions [] [] False ()"

definition readLogicalRule :: "HeadlessRuleOptions reader \<Rightarrow> (DefaultHeadlessRule, unit) LogicalRuleOptions reader" where
  "readLogicalRule rd =
     bindRd ReadByte (\<lambda>mode.
       if mode \<noteq> 0 \<and> mode \<noteq> 1 then failRd (ErrMsg (''unknown logical mode: '' @ itoa (unat mode)))
       else
         bindRd ReadUvarint (\<lambda>n.
         bindRd (readIndexed (\<lambda>i. ''read logical rule ['' @ itoa i @ '']'') 0 (unat n) rd) (\<lambda>rules.
         bindRd readBool (\<lambda>inverted.
           returnRd (LogicalRuleOptions (if mode = 0 then ''and'' else ''or'') rules inverted ())))))"

text \<open>\<open>readRule\<close>, with the number of levels that may still be nested instead of the depth.\<close>

primrec readRule :: "srsLibrary \<Rightarrow> bool \<Rightarrow> nat \<Rightarrow> HeadlessRuleOptions reader" where
  "readRule lib recover 0 = failRd (ErrMsg ''logical rule nested too deep'')"
| "readRule lib recover (Suc levels) =
     bindRd (readUint :: uint8 reader) (\<lambda>ruleType.
       if ruleType = 0 then
         bindRd (readDefaultRule lib recover 0 defaultHeadlessRuleZero) (\<lambda>d.
           returnRd (RuleOptions ''default'' d logicalZero))
       else if ruleType = 1 then
         bindRd (readLogicalRule (readRule lib recover levels)) (\<lambda>l.
           returnRd (RuleOptions ''logical'' defaultHeadlessRuleZero l))
       else failRd (ErrMsg (''unknown rule type: '' @ itoa (unat ruleType))))"

abbreviation (input) maxLogicalRuleDepth :: nat where
  "maxLogicalRuleDepth \<equiv> 100"

fun writeRule :: "srsLibrary \<Rightarrow> env \<Rightarrow> uint8 \<Rightarrow> HeadlessRuleOptions \<Rightarrow> bytes result"
and writeLogicalRule :: "srsLibrary \<Rightarrow> env \<Rightarrow> uint8 \<Rightarrow> (DefaultHeadlessRule, unit) LogicalRuleOptions \<Rightarrow> bytes result"
and writeRules :: "srsLibrary \<Rightarrow> env \<Rightarrow> uint8 \<Rightarrow> HeadlessRuleOptions list \<Rightarrow> bytes result" where
  "writeRule lib env generateVersion (RuleOptions ty d l) =
     (if ty = ''default'' then writeDefaultRule lib env generateVersion d
      else if ty = ''logical'' then writeLogicalRule lib env generateVersion l
      else Inl (Panic (''unknown rule type: '' @ ty)))"
| "writeLogicalRule lib env generateVersion (LogicalRuleOptions mode rules inverted action) =
     concatR
       [Inr [1],
        if mode = ''and'' then Inr [0] else if mode = ''or'' then Inr [1]
        else Inl (Panic (''unknown logical mode: '' @ mode)),
        Inr (WriteUvarint (of_nat (length rules))),
        writeRules lib env generateVersion rules,
        Inr (writeBool inverted)]"
| "writeRules lib env generateVersion [] = Inr []"
| "writeRules lib env generateVersion (r # rs) =
     bindR (writeRule lib env generateVersion r) (\<lambda>b.
     bindR (writeRules lib env generateVersion rs) (\<lambda>bs. Inr (b @ bs)))"

definition MagicBytes :: bytes where
  "MagicBytes = [0x53, 0x52, 0x53]"

abbreviation (input) RuleSetVersionCurrent :: uint8 where
  "RuleSetVersionCurrent \<equiv> 4"

definition srs_Read :: "srsLibrary \<Rightarrow> bool \<Rightarrow> source \<Rightarrow> (uint8 \<times> HeadlessRuleOptions list) result" where
  "srs_Read lib recover s0 =
     bindR (ReadFull 3 s0) (\<lambda>(magicBytes, s1).
       if magicBytes \<noteq> MagicBytes then Inl (ErrMsg ''invalid sing-box rule-set file'')
       else bindR (readUint s1) (\<lambda>(version, s2).
         if RuleSetVersionCurrent < version then Inl (ErrMsg (''unsupported version: '' @ itoa (unat version)))
         else bindR (zlib_NewReader lib s2) (\<lambda>s3.
           bindR (ReadUvarint s3) (\<lambda>(n, s4).
           bindR (readIndexed (\<lambda>i. ''read rule['' @ itoa i @ '']'') 0 (unat n)
                    (readRule lib recover (maxLogicalRuleDepth + 1)) s4) (\<lambda>(rules, _).
             Inr (version, rules))))))"

definition srs_Write :: "srsLibrary \<Rightarrow> env \<Rightarrow> HeadlessRuleOptions list \<Rightarrow> uint8 \<Rightarrow> bytes result" where
  "srs_Write lib env rules generateVersion =
     bindR (writeRules lib env generateVersion rules) (\<lambda>bs.
       Inr (MagicBytes @ [generateVersion] @ zlib_Compress lib (WriteUvarint (of_nat (length rules)) @ bs)))"

section \<open>Codecs of the format\<close>

definition plainAddr :: "addr \<Rightarrow> bool" where
  "plainAddr a \<longleftrightarrow> a \<noteq> AddrZero \<and> addr_Zone a = []"

definition wfPrefix :: "prefix \<Rightarrow> bool" where
  "wfPrefix p \<longleftrightarrow> plainAddr (pfx_ip p) \<and> 0 < pfx_bitsPlusOne p \<and> pfx_bitsPlusOne p \<le> addr_BitLen (pfx_ip p) + 1"

text \<open>
  What is assumed of the libraries: decompression inverts compression, and the ranges of an IP set
  are made of addresses without zone.
\<close>

definition srs_contract :: "srsLibrary \<Rightarrow> bool" where
  "srs_contract lib \<longleftrightarrow>
     (\<forall>bs rest e. zlib_NewReader lib \<lparr>pending = zlib_Compress lib bs @ rest, ending = e\<rparr> =
        Inr \<lparr>pending = bs, ending = EOF\<rparr>) \<and>
     (\<forall>s lo hi. (lo, hi) \<in> set (ipset_Ranges lib s) \<longrightarrow> plainAddr lo \<and> plainAddr hi)"

lemma plainAddr_slice:
  assumes "plainAddr a"
  shows "length (addr_AsSlice a) = 4 \<or> length (addr_AsSlice a) = 16" "AddrFromIP (addr_AsSlice a) = a"
  using assms by (cases a; simp add: plainAddr_def AddrFromIP_def beDecode_beEncode)+

lemma read_slice:
  assumes "plainAddr a"
  shows "bindRd ReadUvarint (\<lambda>n. if n \<noteq> 4 \<and> n \<noteq> 16 then failRd ErrInvalid else bindRd (ReadFull (unat n)) f)
    (s\<lparr>pending := writeAddr a @ rest\<rparr>) = f (addr_AsSlice a) (s\<lparr>pending := rest\<rparr>)"
proof -
  let ?bs = "addr_AsSlice a"
  have "bindRd (ReadFull (length ?bs)) f (s\<lparr>pending := ?bs @ rest\<rparr>) = f ?bs (s\<lparr>pending := rest\<rparr>)"
    by (simp add: bindRd_def ReadFull_append)
  then show ?thesis using plainAddr_slice(1) [OF assms] by (auto simp: writeAddr_def uvarint.then_read)
qed

interpretation addrs: codec writeAddr readIPSetAddr plainAddr
  by unfold_locales (simp add: readIPSetAddr_def read_slice returnRd_def plainAddr_slice)

interpretation ranges: codec "\<lambda>(lo, hi). writeAddr lo @ writeAddr hi" readIPRange "\<lambda>(lo, hi). plainAddr lo \<and> plainAddr hi"
  by unfold_locales (auto simp: readIPRange_def addrs.then_read returnRd_def)

lemma bits_byte:
  assumes "wfPrefix p"
  shows "PrefixFrom (pfx_ip p) (uint (of_int (prefix_Bits p) :: uint8)) = p"
proof -
  obtain k where k: "pfx_bitsPlusOne p = Suc k" "k \<le> addr_BitLen (pfx_ip p)"
    using assms by (cases "pfx_bitsPlusOne p") (auto simp: wfPrefix_def)
  moreover have "addr_BitLen (pfx_ip p) \<le> 128" by (cases "pfx_ip p") simp_all
  ultimately have "uint (of_int (prefix_Bits p) :: uint8) = int k" by (simp add: prefix_Bits_def unsigned_of_nat take_bit_nat_eq_self)
  moreover have "pfx_ip p \<noteq> AddrZero" "addr_WithZone (pfx_ip p) [] = pfx_ip p"
    using assms by (cases "pfx_ip p"; simp add: wfPrefix_def plainAddr_def)+
  ultimately show ?thesis using k by (simp add: PrefixFrom_def)
qed

interpretation prefixes: codec writePrefix readPrefix wfPrefix
proof
  fix p s rest
  assume p: "wfPrefix p"
  then have "plainAddr (pfx_ip p)" by (simp add: wfPrefix_def)
  then show "readPrefix (s\<lparr>pending := writePrefix p @ rest\<rparr>) = Inr (p, s\<lparr>pending := rest\<rparr>)"
    by (simp add: readPrefix_def writePrefix_def read_slice ReadByte_then returnRd_def plainAddr_slice bits_byte [OF p])
qed

definition wfPrefixable :: "Prefixable \<Rightarrow> bool" where
  "wfPrefixable p = (case p of None \<Rightarrow> False | Some q \<Rightarrow> wfPrefix q)"

interpretation prefixables: codec "\<lambda>p. writePrefix (Prefixable_Build p prefixZero)" "bindRd readPrefix (\<lambda>p. returnRd (Some p))" wfPrefixable
  by unfold_locales (auto simp: wfPrefixable_def Prefixable_Build_def prefixes.then_read returnRd_def split: option.splits)

definition wfPrefixes :: "Prefixable list \<Rightarrow> bool" where
  "wfPrefixes ps \<longleftrightarrow> length ps < 2 ^ 64 \<and> (\<forall>p\<in>set ps. wfPrefixable p)"

interpretation prefixLists: codec writePrefixes readPrefixes wfPrefixes
  by unfold_locales (simp add: wfPrefixes_def writePrefixes_def readPrefixes_def prefixables.counted)

interpretation entries: codec "\<lambda>(k, v). beEncode k @ writePrefixes v" readEntry "\<lambda>(k, v). wfPrefixes v"
proof
  fix x :: "InterfaceType \<times> Prefixable list" and s rest
  assume "case x of (k, v) \<Rightarrow> wfPrefixes v"
  then show "readEntry (s\<lparr>pending := (case x of (k, v) \<Rightarrow> beEncode k @ writePrefixes v) @ rest\<rparr>) = Inr (x, s\<lparr>pending := rest\<rparr>)"
    by (cases x) (simp add: readEntry_def readUint8_then prefixLists.then_read returnRd_def)
qed

lemma writeString_slice: "writeString s = writeSlice (bytesOf s)"
proof -
  have "concat (map beEncode bs) = (bs :: bytes)" for bs by (induction bs) simp_all
  then show ?thesis by (simp add: writeString_def writeSlice_def)
qed

interpretation strings: codec writeString "bindRd (ReadSlice slack) (\<lambda>value. returnRd (stringOf value))" "\<lambda>s. length s < 2 ^ 64"
  by unfold_locales (simp add: writeString_slice slice8.then_read returnRd_def)

definition wfStrings :: "string list \<Rightarrow> bool" where
  "wfStrings ss \<longleftrightarrow> length ss < 2 ^ 64 \<and> (\<forall>s\<in>set ss. length s < 2 ^ 64)"

lemma readRuleItemString_then:
  "wfStrings ss \<Longrightarrow> bindRd (readRuleItemString lib) f
     (s\<lparr>pending := WriteUvarint (of_nat (length ss)) @ concat (map writeString ss) @ rest\<rparr>) = f ss (s\<lparr>pending := rest\<rparr>)"
proof -
  assume "wfStrings ss"
  then have "readRuleItemString lib (s\<lparr>pending := WriteUvarint (of_nat (length ss)) @ concat (map writeString ss) @ rest\<rparr>) =
      Inr (ss, s\<lparr>pending := rest\<rparr>)"
    unfolding readRuleItemString_def wfStrings_def by (intro strings.counted) simp_all
  then show ?thesis by (simp add: bindRd_def)
qed

lemma readIPSet_then:
  assumes "srs_contract lib" "length (ipset_Ranges lib es) < 2 ^ 64"
  shows "bindRd readIPSet f (s\<lparr>pending := writeIPSet lib es @ rest\<rparr>) =
    f (map (\<lambda>(lo, hi). IPSetRange lo hi) (ipset_Ranges lib es)) (s\<lparr>pending := rest\<rparr>)"
proof -
  let ?rr = "ipset_Ranges lib es"
  have "\<forall>r\<in>set ?rr. case r of (lo, hi) \<Rightarrow> plainAddr lo \<and> plainAddr hi" using assms(1) by (auto simp: srs_contract_def)
  from ranges.many [OF this] have "bindRd (readMany (length ?rr) readIPRange) g
      (s\<lparr>pending := concat (map (\<lambda>(lo, hi). writeAddr lo @ writeAddr hi) ?rr) @ rest\<rparr>) = g ?rr (s\<lparr>pending := rest\<rparr>)" for g :: "(addr \<times> addr) list \<Rightarrow> ipset reader"
    by (simp add: bindRd_def)
  moreover have "unat (of_nat (length ?rr) :: uint64) = length ?rr" using assms(2) by (simp add: unat_of_nat)
  ultimately have "readIPSet (s\<lparr>pending := writeIPSet lib es @ rest\<rparr>) =
      Inr (map (\<lambda>(lo, hi). IPSetRange lo hi) ?rr, s\<lparr>pending := rest\<rparr>)"
    by (simp add: readIPSet_def writeIPSet_def Let_def ReadByte_then uint64.then_read returnRd_def)
  then show ?thesis by (simp add: bindRd_def)
qed

definition fitsTrie :: "succinctSet \<Rightarrow> bool" where
  "fitsTrie m \<longleftrightarrow> wfTrie m \<and> length (leaves m) < 2 ^ 64 \<and> length (labelBitmap m) < 2 ^ 64 \<and> length (labels m) < 2 ^ 64"

interpretation tries: codec succinctSet_Write "readSuccinctSet slack" fitsTrie
  by unfold_locales (simp add: fitsTrie_def readSuccinctSet_write)

section \<open>Default rules survive the round trip\<close>

text \<open>The bytes \<open>b\<close> take the loop from the rule \<open>r\<close> to the rule \<open>r'\<close>.\<close>

definition readsTo :: "srsLibrary \<Rightarrow> bytes \<Rightarrow> DefaultHeadlessRule \<Rightarrow> DefaultHeadlessRule \<Rightarrow> bool" where
  "readsTo lib b r r' \<longleftrightarrow> (\<forall>lt s rest. \<exists>t.
     readDefaultRule lib False lt r (s\<lparr>pending := b @ rest\<rparr>) = readDefaultRule lib False t r' (s\<lparr>pending := rest\<rparr>))"

lemma readsTo_Nil: "readsTo lib [] r r"
  by (auto simp: readsTo_def)

lemma readsTo_append: "readsTo lib b r r' \<Longrightarrow> readsTo lib b' r' r'' \<Longrightarrow> readsTo lib (b @ b') r r''"
  unfolding readsTo_def by (metis append.assoc)

lemma readDefaultRule_step:
  "readDefaultRule lib False lt r (s\<lparr>pending := code # rest\<rparr>) =
     (if code = ruleItemFinal then
        bindR (readBool (s\<lparr>pending := rest\<rparr>)) (\<lambda>q. Inr (r\<lparr>Invert := fst q\<rparr>, snd q))
      else bindR (readItem lib False lt code r (s\<lparr>pending := rest\<rparr>)) (\<lambda>q.
        readDefaultRule lib False code (fst q) (snd q)))"
  by (subst readDefaultRule.simps) (simp add: ReadFull_def Let_def)

lemma readsTo_item:
  assumes "\<And>lt s rest. readItem lib False lt code r (s\<lparr>pending := body @ rest\<rparr>) = Inr (r', s\<lparr>pending := rest\<rparr>)"
    and "code \<noteq> ruleItemFinal"
  shows "readsTo lib (code # body) r r'"
  using assms unfolding readsTo_def by (auto simp: readDefaultRule_step)

lemma readsTo_onlyIf:
  assumes "onlyIfW c res = Inr b" "\<And>b. c \<Longrightarrow> res = Inr b \<Longrightarrow> readsTo lib b r (u r)"
  shows "readsTo lib b r (if c then u r else r)"
  using assms by (auto simp: onlyIfW_def readsTo_Nil split: if_splits)

text \<open>The field an item of strings, of 16-bit or of 8-bit integers goes to.\<close>

definition stringField :: "uint8 \<Rightarrow> string list \<Rightarrow> DefaultHeadlessRule \<Rightarrow> DefaultHeadlessRule" where
  "stringField code v r =
     (if code = ruleItemNetwork then r\<lparr>Network := v\<rparr> else if code = ruleItemDomainKeyword then r\<lparr>DomainKeyword := v\<rparr>
      else if code = ruleItemDomainRegex then r\<lparr>DomainRegex := v\<rparr>
      else if code = ruleItemSourcePortRange then r\<lparr>SourcePortRange := v\<rparr>
      else if code = ruleItemPortRange then r\<lparr>PortRange := v\<rparr> else if code = ruleItemProcessName then r\<lparr>ProcessName := v\<rparr>
      else if code = ruleItemProcessPath then r\<lparr>ProcessPath := v\<rparr>
      else if code = ruleItemProcessPathRegex then r\<lparr>ProcessPathRegex := v\<rparr>
      else if code = ruleItemPackageName then r\<lparr>PackageName := v\<rparr> else if code = ruleItemWIFISSID then r\<lparr>WIFISSID := v\<rparr>
      else r\<lparr>WIFIBSSID := v\<rparr>)"

lemma readsTo_strings:
  assumes "code \<in> {1, 3, 4, 8, 10, 11, 12, 13, 14, 15, 17}" "wfStrings v"
  shows "readsTo lib (writeRuleItemString code v) r (stringField code v r)"
proof -
  have "readItem lib False lt code r s = bindRd (readRuleItemString lib) (\<lambda>v. returnRd (stringField code v r)) s" for lt s
    using assms(1) by (auto simp: readItem_def stringField_def)
  then show ?thesis
    unfolding writeRuleItemString_def using assms
    by (intro readsTo_item) (auto simp: readRuleItemString_then returnRd_def)
qed

definition portField :: "uint8 \<Rightarrow> uint16 list \<Rightarrow> DefaultHeadlessRule \<Rightarrow> DefaultHeadlessRule" where
  "portField code v r =
     (if code = ruleItemQueryType then r\<lparr>hr_QueryType := v\<rparr>
      else if code = ruleItemSourcePort then r\<lparr>opt_SourcePort := v\<rparr> else r\<lparr>Port := v\<rparr>)"

lemma readsTo_uint16:
  assumes "code \<in> {0, 7, 9}" "length v < 2 ^ 64"
  shows "readsTo lib (writeRuleItemUint16 code v) r (portField code v r)"
proof -
  have "readItem lib False lt code r s = bindRd (ReadSlice (growSlack lib 2)) (\<lambda>v. returnRd (portField code v r)) s" for lt s
    using assms(1) by (auto simp: readItem_def portField_def)
  moreover have "writeRuleItemUint16 code v = code # writeSlice v" by (simp add: writeRuleItemUint16_def writeSlice_def)
  ultimately show ?thesis
    using assms by (auto intro!: readsTo_item simp: slice16.then_read returnRd_def)
qed

lemma readsTo_uint8:
  assumes "length v < 2 ^ 64"
  shows "readsTo lib (writeRuleItemUint8 ruleItemNetworkType v) r (r\<lparr>opt_NetworkType := v\<rparr>)"
proof -
  have "concat (map beEncode bs) = (bs :: bytes)" for bs by (induction bs) simp_all
  then have "writeRuleItemUint8 18 v = 18 # writeSlice v" by (simp add: writeRuleItemUint8_def writeSlice_def)
  then show ?thesis
    using assms by (auto intro!: readsTo_item simp: readItem_def slice8.then_read returnRd_def)
qed

lemma readsTo_flags:
  "readsTo lib [ruleItemNetworkIsExpensive] r (r\<lparr>NetworkIsExpensive := True\<rparr>)"
  "readsTo lib [ruleItemNetworkIsConstrained] r (r\<lparr>NetworkIsConstrained := True\<rparr>)"
  by (rule readsTo_item; simp add: readItem_def returnRd_def)+

definition rangesOf :: "srsLibrary \<Rightarrow> string list \<Rightarrow> ipset" where
  "rangesOf lib cidrs =
     (case ipcidrEntries 0 cidrs of
        Inl _ \<Rightarrow> []
      | Inr es \<Rightarrow> map (\<lambda>(lo, hi). IPSetRange lo hi) (ipset_Ranges lib es))"

lemma readsTo_cidr:
  assumes "srs_contract lib" "length (rangesOf lib v) < 2 ^ 64" "causeR (writeRuleItemCIDR lib env code v) msg = Inr b"
  shows "code = ruleItemSourceIPCIDR \<Longrightarrow> readsTo lib b r (r\<lparr>SourceIPSet := Some (rangesOf lib v)\<rparr>)"
    and "code = ruleItemIPCIDR \<Longrightarrow> readsTo lib b r (r\<lparr>IPSet := Some (rangesOf lib v)\<rparr>)"
proof -
  obtain es where es: "ipcidrEntries 0 v = Inr es" "b = code # writeIPSet lib es"
    using assms(3) by (auto simp: writeRuleItemCIDR_def bindR_eq_Inr split: option.splits)
  then have rs: "rangesOf lib v = map (\<lambda>(lo, hi). IPSetRange lo hi) (ipset_Ranges lib es)" by (simp add: rangesOf_def)
  then have "length (ipset_Ranges lib es) < 2 ^ 64" using assms(2) by simp
  note read = readIPSet_then [OF assms(1) this]
  show "readsTo lib b r (r\<lparr>SourceIPSet := Some (rangesOf lib v)\<rparr>)" if "code = ruleItemSourceIPCIDR"
    unfolding es(2) that by (rule readsTo_item) (simp_all add: readItem_def read returnRd_def rs)
  show "readsTo lib b r (r\<lparr>IPSet := Some (rangesOf lib v)\<rparr>)" if "code = ruleItemIPCIDR"
    unfolding es(2) that by (rule readsTo_item) (simp_all add: readItem_def read returnRd_def rs)
qed

lemma readsTo_matchers:
  assumes "writeMatcher code m = Inr b" "\<And>t. m = Some t \<Longrightarrow> fitsTrie t"
  shows "code = ruleItemDomain \<Longrightarrow> readsTo lib b r (r\<lparr>DomainMatcher := m\<rparr>)"
    and "code = ruleItemAdGuardDomain \<Longrightarrow> readsTo lib b r (r\<lparr>AdGuardDomainMatcher := m\<rparr>)"
proof -
  obtain t where t: "m = Some t" "b = code # succinctSet_Write t" "fitsTrie t"
    using assms by (auto simp: writeMatcher_def split: option.splits)
  show "readsTo lib b r (r\<lparr>DomainMatcher := m\<rparr>)" if "code = ruleItemDomain"
    unfolding t(1,2) that by (rule readsTo_item) (simp_all add: readItem_def ReadMatcher_def tries.then_read [OF t(3)] returnRd_def)
  show "readsTo lib b r (r\<lparr>AdGuardDomainMatcher := m\<rparr>)" if "code = ruleItemAdGuardDomain"
    unfolding t(1,2) that
    by (rule readsTo_item) (simp_all add: readItem_def ReadAdGuardMatcher_def tries.then_read [OF t(3)] returnRd_def)
qed

lemma foldl_mapPut: "distinct (map fst (m @ es)) \<Longrightarrow> foldl (\<lambda>m (k, v). mapPut k v m) m es = m @ es"
proof (induction es arbitrary: m)
  case (Cons e es)
  obtain k v where e: "e = (k, v)" by (cases e)
  have "mapPut k v m = m @ [(k, v)]" if "k \<notin> set (map fst m)" for m :: "('a \<times> 'b) list"
    using that by (induction k v m rule: mapPut.induct) auto
  with Cons.prems Cons.IH [of "m @ [e]"] show ?case by (simp add: e)
qed simp

definition wfEntries :: "(InterfaceType \<times> Prefixable list) list \<Rightarrow> bool" where
  "wfEntries es \<longleftrightarrow> length es < 2 ^ 64 \<and> distinct (map fst es) \<and> (\<forall>(k, v)\<in>set es. wfPrefixes v)"

lemma readsTo_addresses:
  "wfEntries es \<Longrightarrow> readsTo lib (ruleItemNetworkInterfaceAddress # writeEntries es) r (r\<lparr>NetworkInterfaceAddress := Some es\<rparr>)"
  "wfPrefixes ps \<Longrightarrow> readsTo lib (ruleItemDefaultInterfaceAddress # writePrefixes ps) r (r\<lparr>DefaultInterfaceAddress := ps\<rparr>)"
proof -
  show "readsTo lib (ruleItemNetworkInterfaceAddress # writeEntries es) r (r\<lparr>NetworkInterfaceAddress := Some es\<rparr>)" if "wfEntries es"
  proof (rule readsTo_item)
    fix lt s rest
    have "foldl (\<lambda>m (k, v). mapPut k v m) [] es = es" using foldl_mapPut [of "[]" es] that by (simp add: wfEntries_def)
    then show "readItem lib False lt 21 r (s\<lparr>pending := writeEntries es @ rest\<rparr>) =
        Inr (r\<lparr>NetworkInterfaceAddress := Some es\<rparr>, s\<lparr>pending := rest\<rparr>)"
      using that by (simp add: readItem_def writeEntries_def wfEntries_def entries.counted_then [simplified] returnRd_def)
  qed simp
  show "readsTo lib (ruleItemDefaultInterfaceAddress # writePrefixes ps) r (r\<lparr>DefaultInterfaceAddress := ps\<rparr>)" if "wfPrefixes ps"
    by (rule readsTo_item) (simp_all add: readItem_def prefixLists.then_read [OF that] returnRd_def)
qed

text \<open>What compiling a rule keeps of it, and in which form.\<close>

definition compiledDefault :: "srsLibrary \<Rightarrow> uint8 \<Rightarrow> DefaultHeadlessRule \<Rightarrow> DefaultHeadlessRule" where
  "compiledDefault lib generateVersion rule =
     rule\<lparr>Domain := [], DomainSuffix := [],
          DomainMatcher :=
            (if Domain rule \<noteq> [] \<or> DomainSuffix rule \<noteq> []
             then NewMatcher (Domain rule) (DomainSuffix rule) (generateVersion = 1) else None),
          SourceIPCIDR := [],
          SourceIPSet := (if SourceIPCIDR rule \<noteq> [] then Some (rangesOf lib (SourceIPCIDR rule)) else None),
          IPCIDR := [], IPSet := (if IPCIDR rule \<noteq> [] then Some (rangesOf lib (IPCIDR rule)) else None),
          AdGuardDomain := [],
          AdGuardDomainMatcher := (if AdGuardDomain rule \<noteq> [] then NewAdGuardMatcher (AdGuardDomain rule) else None),
          NetworkInterfaceAddress :=
            (if mapSize (NetworkInterfaceAddress rule) then NetworkInterfaceAddress rule else None),
          TunnelSource := [], TunnelDestination := []\<rparr>"

definition wfDefaultHeadless :: "srsLibrary \<Rightarrow> uint8 \<Rightarrow> DefaultHeadlessRule \<Rightarrow> bool" where
  "wfDefaultHeadless lib generateVersion r \<longleftrightarrow>
     list_all wfStrings [Network r, DomainKeyword r, DomainRegex r, SourcePortRange r, PortRange r, ProcessName r,
       ProcessPath r, ProcessPathRegex r, PackageName r, WIFISSID r, WIFIBSSID r] \<and>
     list_all (\<lambda>v. length v < 2 ^ 64) [hr_QueryType r, opt_SourcePort r, Port r] \<and> length (opt_NetworkType r) < 2 ^ 64 \<and>
     length (rangesOf lib (SourceIPCIDR r)) < 2 ^ 64 \<and> length (rangesOf lib (IPCIDR r)) < 2 ^ 64 \<and>
     (\<forall>m. NewMatcher (Domain r) (DomainSuffix r) (generateVersion = 1) = Some m \<longrightarrow> fitsTrie m) \<and>
     (\<forall>m. NewAdGuardMatcher (AdGuardDomain r) = Some m \<longrightarrow> fitsTrie m) \<and>
     (\<forall>es. NetworkInterfaceAddress r = Some es \<longrightarrow> wfEntries es) \<and> wfPrefixes (DefaultInterfaceAddress r)"

definition itemUpdates :: "srsLibrary \<Rightarrow> uint8 \<Rightarrow> DefaultHeadlessRule \<Rightarrow> (DefaultHeadlessRule \<Rightarrow> DefaultHeadlessRule) list" where
  "itemUpdates lib generateVersion rule =
     [\<lambda>r. if hr_QueryType rule = [] then r else r\<lparr>hr_QueryType := hr_QueryType rule\<rparr>,
      \<lambda>r. if Network rule = [] then r else r\<lparr>Network := Network rule\<rparr>,
      \<lambda>r. if Domain rule = [] \<and> DomainSuffix rule = [] then r
          else r\<lparr>DomainMatcher := NewMatcher (Domain rule) (DomainSuffix rule) (generateVersion = 1)\<rparr>,
      \<lambda>r. if DomainKeyword rule = [] then r else r\<lparr>DomainKeyword := DomainKeyword rule\<rparr>,
      \<lambda>r. if DomainRegex rule = [] then r else r\<lparr>DomainRegex := DomainRegex rule\<rparr>,
      \<lambda>r. if SourceIPCIDR rule = [] then r else r\<lparr>SourceIPSet := Some (rangesOf lib (SourceIPCIDR rule))\<rparr>,
      \<lambda>r. if IPCIDR rule = [] then r else r\<lparr>IPSet := Some (rangesOf lib (IPCIDR rule))\<rparr>,
      \<lambda>r. if opt_SourcePort rule = [] then r else r\<lparr>opt_SourcePort := opt_SourcePort rule\<rparr>,
      \<lambda>r. if SourcePortRange rule = [] then r else r\<lparr>SourcePortRange := SourcePortRange rule\<rparr>,
      \<lambda>r. if Port rule = [] then r else r\<lparr>Port := Port rule\<rparr>,
      \<lambda>r. if PortRange rule = [] then r else r\<lparr>PortRange := PortRange rule\<rparr>,
      \<lambda>r. if ProcessName rule = [] then r else r\<lparr>ProcessName := ProcessName rule\<rparr>,
      \<lambda>r. if ProcessPath rule = [] then r else r\<lparr>ProcessPath := ProcessPath rule\<rparr>,
      \<lambda>r. if ProcessPathRegex rule = [] then r else r\<lparr>ProcessPathRegex := ProcessPathRegex rule\<rparr>,
      \<lambda>r. if PackageName rule = [] then r else r\<lparr>PackageName := PackageName rule\<rparr>,
      \<lambda>r. if opt_NetworkType rule = [] then r else r\<lparr>opt_NetworkType := opt_NetworkType rule\<rparr>,
      \<lambda>r. if NetworkIsExpensive rule then r\<lparr>NetworkIsExpensive := True\<rparr> else r,
      \<lambda>r. if NetworkIsConstrained rule then r\<lparr>NetworkIsConstrained := True\<rparr> else r,
      \<lambda>r. if mapSize (NetworkInterfaceAddress rule)
          then r\<lparr>NetworkInterfaceAddress := Some (the (NetworkInterfaceAddress rule))\<rparr> else r,
      \<lambda>r. if DefaultInterfaceAddress rule = [] then r else r\<lparr>DefaultInterfaceAddress := DefaultInterfaceAddress rule\<rparr>,
      \<lambda>r. if WIFISSID rule = [] then r else r\<lparr>WIFISSID := WIFISSID rule\<rparr>,
      \<lambda>r. if WIFIBSSID rule = [] then r else r\<lparr>WIFIBSSID := WIFIBSSID rule\<rparr>,
      \<lambda>r. if AdGuardDomain rule = [] then r else r\<lparr>AdGuardDomainMatcher := NewAdGuardMatcher (AdGuardDomain rule)\<rparr>]"

lemma concatR_Inr: "concatR rs = Inr bs \<longleftrightarrow> (\<exists>bss. list_all2 (\<lambda>r b. r = Inr b) rs bss \<and> bs = concat bss)"
proof (induction rs arbitrary: bs)
  case (Cons r rs)
  then show ?case by (cases r) (auto simp: bindR_eq_Inr list_all2_Cons1)
qed auto

lemma readsTo_chain:
  "list_all2 (\<lambda>b u. \<forall>r. readsTo lib b r (u r)) bss us \<Longrightarrow> readsTo lib (concat bss) r (foldl (\<lambda>r u. u r) r us)"
proof (induction bss us arbitrary: r rule: list_all2_induct)
  case (Cons b bss u us)
  then show ?case using readsTo_append [of lib b r "u r" "concat bss"] by simp
qed (simp add: readsTo_Nil)

lemma since_Inr: "since version generateVersion msg bs = Inr b \<longleftrightarrow> \<not> generateVersion < version \<and> b = bs"
  by (auto simp: since_def)

lemma if_Nil_same [simp]: "(if xs = [] then [] else xs) = xs" "(if \<not> b then False else True) = b"
  by simp_all

lemma zero_fields [simp]:
  "Network defaultHeadlessRuleZero = []"
  "Domain defaultHeadlessRuleZero = []"
  "DomainSuffix defaultHeadlessRuleZero = []"
  "DomainKeyword defaultHeadlessRuleZero = []"
  "DomainRegex defaultHeadlessRuleZero = []"
  "SourceIPCIDR defaultHeadlessRuleZero = []"
  "IPCIDR defaultHeadlessRuleZero = []"
  "opt_SourcePort defaultHeadlessRuleZero = []"
  "SourcePortRange defaultHeadlessRuleZero = []"
  "Port defaultHeadlessRuleZero = []"
  "PortRange defaultHeadlessRuleZero = []"
  "ProcessName defaultHeadlessRuleZero = []"
  "ProcessPath defaultHeadlessRuleZero = []"
  "ProcessPathRegex defaultHeadlessRuleZero = []"
  "PackageName defaultHeadlessRuleZero = []"
  "opt_NetworkType defaultHeadlessRuleZero = []"
  "WIFISSID defaultHeadlessRuleZero = []"
  "WIFIBSSID defaultHeadlessRuleZero = []"
  "TunnelSource defaultHeadlessRuleZero = []"
  "TunnelDestination defaultHeadlessRuleZero = []"
  "DefaultInterfaceAddress defaultHeadlessRuleZero = []"
  "hr_QueryType defaultHeadlessRuleZero = []"
  "AdGuardDomain defaultHeadlessRuleZero = []"
  "NetworkInterfaceAddress defaultHeadlessRuleZero = None"
  "DomainMatcher defaultHeadlessRuleZero = None"
  "SourceIPSet defaultHeadlessRuleZero = None"
  "IPSet defaultHeadlessRuleZero = None"
  "AdGuardDomainMatcher defaultHeadlessRuleZero = None"
  "\<not> NetworkIsExpensive defaultHeadlessRuleZero"
  "\<not> NetworkIsConstrained defaultHeadlessRuleZero"
  "\<not> Invert defaultHeadlessRuleZero"
  by (simp_all add: defaultHeadlessRuleZero_def commonRuleZero_def commonRule.defs DefaultHeadlessRule.defs)

lemma update_if:
  fixes r :: DefaultHeadlessRule
  shows "hr_QueryType r = [] \<Longrightarrow> (if v0 = [] then r else r\<lparr>hr_QueryType := v0\<rparr>) = r\<lparr>hr_QueryType := v0\<rparr>"
  and "Network r = [] \<Longrightarrow> (if v1 = [] then r else r\<lparr>Network := v1\<rparr>) = r\<lparr>Network := v1\<rparr>"
  and "DomainKeyword r = [] \<Longrightarrow> (if v2 = [] then r else r\<lparr>DomainKeyword := v2\<rparr>) = r\<lparr>DomainKeyword := v2\<rparr>"
  and "DomainRegex r = [] \<Longrightarrow> (if v3 = [] then r else r\<lparr>DomainRegex := v3\<rparr>) = r\<lparr>DomainRegex := v3\<rparr>"
  and "opt_SourcePort r = [] \<Longrightarrow> (if v4 = [] then r else r\<lparr>opt_SourcePort := v4\<rparr>) = r\<lparr>opt_SourcePort := v4\<rparr>"
  and "SourcePortRange r = [] \<Longrightarrow> (if v5 = [] then r else r\<lparr>SourcePortRange := v5\<rparr>) = r\<lparr>SourcePortRange := v5\<rparr>"
  and "Port r = [] \<Longrightarrow> (if v6 = [] then r else r\<lparr>Port := v6\<rparr>) = r\<lparr>Port := v6\<rparr>"
  and "PortRange r = [] \<Longrightarrow> (if v7 = [] then r else r\<lparr>PortRange := v7\<rparr>) = r\<lparr>PortRange := v7\<rparr>"
  and "ProcessName r = [] \<Longrightarrow> (if v8 = [] then r else r\<lparr>ProcessName := v8\<rparr>) = r\<lparr>ProcessName := v8\<rparr>"
  and "ProcessPath r = [] \<Longrightarrow> (if v9 = [] then r else r\<lparr>ProcessPath := v9\<rparr>) = r\<lparr>ProcessPath := v9\<rparr>"
  and "ProcessPathRegex r = [] \<Longrightarrow> (if v10 = [] then r else r\<lparr>ProcessPathRegex := v10\<rparr>) = r\<lparr>ProcessPathRegex := v10\<rparr>"
  and "PackageName r = [] \<Longrightarrow> (if v11 = [] then r else r\<lparr>PackageName := v11\<rparr>) = r\<lparr>PackageName := v11\<rparr>"
  and "opt_NetworkType r = [] \<Longrightarrow> (if v12 = [] then r else r\<lparr>opt_NetworkType := v12\<rparr>) = r\<lparr>opt_NetworkType := v12\<rparr>"
  and "DefaultInterfaceAddress r = [] \<Longrightarrow> (if v13 = [] then r else r\<lparr>DefaultInterfaceAddress := v13\<rparr>) = r\<lparr>DefaultInterfaceAddress := v13\<rparr>"
  and "WIFISSID r = [] \<Longrightarrow> (if v14 = [] then r else r\<lparr>WIFISSID := v14\<rparr>) = r\<lparr>WIFISSID := v14\<rparr>"
  and "WIFIBSSID r = [] \<Longrightarrow> (if v15 = [] then r else r\<lparr>WIFIBSSID := v15\<rparr>) = r\<lparr>WIFIBSSID := v15\<rparr>"
  and "DomainMatcher r = None \<Longrightarrow> (if c then r\<lparr>DomainMatcher := w0\<rparr> else r) = r\<lparr>DomainMatcher := if c then w0 else None\<rparr>"
  and "SourceIPSet r = None \<Longrightarrow> (if c then r\<lparr>SourceIPSet := w1\<rparr> else r) = r\<lparr>SourceIPSet := if c then w1 else None\<rparr>"
  and "IPSet r = None \<Longrightarrow> (if c then r\<lparr>IPSet := w2\<rparr> else r) = r\<lparr>IPSet := if c then w2 else None\<rparr>"
  and "AdGuardDomainMatcher r = None \<Longrightarrow> (if c then r\<lparr>AdGuardDomainMatcher := w3\<rparr> else r) = r\<lparr>AdGuardDomainMatcher := if c then w3 else None\<rparr>"
  and "NetworkInterfaceAddress r = None \<Longrightarrow> (if c then r\<lparr>NetworkInterfaceAddress := w4\<rparr> else r) = r\<lparr>NetworkInterfaceAddress := if c then w4 else None\<rparr>"
  and "\<not> NetworkIsExpensive r \<Longrightarrow> (if b then r\<lparr>NetworkIsExpensive := True\<rparr> else r) = r\<lparr>NetworkIsExpensive := b\<rparr>"
  and "\<not> NetworkIsConstrained r \<Longrightarrow> (if b then r\<lparr>NetworkIsConstrained := True\<rparr> else r) = r\<lparr>NetworkIsConstrained := b\<rparr>"
  and "DomainMatcher r = None \<Longrightarrow> (if c then r else r\<lparr>DomainMatcher := w0\<rparr>) = r\<lparr>DomainMatcher := if c then None else w0\<rparr>"
  and "SourceIPSet r = None \<Longrightarrow> (if c then r else r\<lparr>SourceIPSet := w1\<rparr>) = r\<lparr>SourceIPSet := if c then None else w1\<rparr>"
  and "IPSet r = None \<Longrightarrow> (if c then r else r\<lparr>IPSet := w2\<rparr>) = r\<lparr>IPSet := if c then None else w2\<rparr>"
  and "AdGuardDomainMatcher r = None \<Longrightarrow> (if c then r else r\<lparr>AdGuardDomainMatcher := w3\<rparr>) = r\<lparr>AdGuardDomainMatcher := if c then None else w3\<rparr>"
  and "NetworkInterfaceAddress r = None \<Longrightarrow> (if c then r else r\<lparr>NetworkInterfaceAddress := w4\<rparr>) = r\<lparr>NetworkInterfaceAddress := if c then None else w4\<rparr>"
  by (cases r; simp)+

lemma itemUpdates_eq:
  "foldl (\<lambda>r u. u r) defaultHeadlessRuleZero (itemUpdates lib generateVersion rule) =
     defaultHeadlessRuleZero\<lparr>hr_QueryType := hr_QueryType rule,
       Network := Network rule,
       DomainMatcher := if Domain rule = [] \<and> DomainSuffix rule = [] then None else NewMatcher (Domain rule) (DomainSuffix rule) (generateVersion = 1),
       DomainKeyword := DomainKeyword rule,
       DomainRegex := DomainRegex rule,
       SourceIPSet := if SourceIPCIDR rule = [] then None else Some (rangesOf lib (SourceIPCIDR rule)),
       IPSet := if IPCIDR rule = [] then None else Some (rangesOf lib (IPCIDR rule)),
       opt_SourcePort := opt_SourcePort rule,
       SourcePortRange := SourcePortRange rule,
       Port := Port rule,
       PortRange := PortRange rule,
       ProcessName := ProcessName rule,
       ProcessPath := ProcessPath rule,
       ProcessPathRegex := ProcessPathRegex rule,
       PackageName := PackageName rule,
       opt_NetworkType := opt_NetworkType rule,
       NetworkIsExpensive := NetworkIsExpensive rule,
       NetworkIsConstrained := NetworkIsConstrained rule,
       NetworkInterfaceAddress := if mapSize (NetworkInterfaceAddress rule) then Some (the (NetworkInterfaceAddress rule)) else None,
       DefaultInterfaceAddress := DefaultInterfaceAddress rule,
       WIFISSID := WIFISSID rule,
       WIFIBSSID := WIFIBSSID rule,
       AdGuardDomainMatcher := if AdGuardDomain rule = [] then None else NewAdGuardMatcher (AdGuardDomain rule)\<rparr>"
  unfolding itemUpdates_def by (simp add: update_if)

lemma itemUpdates_compiled:
  "foldl (\<lambda>r u. u r) defaultHeadlessRuleZero (itemUpdates lib generateVersion rule) =
     (compiledDefault lib generateVersion rule)\<lparr>Invert := False\<rparr>"
  unfolding itemUpdates_eq by (rule DefaultHeadlessRule.equality) (simp_all add: compiledDefault_def mapSize_def split: option.split)

lemma readsTo_if:
  assumes "\<And>b r. c \<Longrightarrow> res = Inr b \<Longrightarrow> readsTo lib b r (u r)"
  shows "\<forall>b. onlyIfW c res = Inr b \<longrightarrow> (\<forall>r. readsTo lib b r (if c then u r else r))"
  using assms by (auto simp: onlyIfW_def readsTo_Nil)

lemma readsTo_unless:
  assumes "\<And>b r. c \<Longrightarrow> res = Inr b \<Longrightarrow> readsTo lib b r (u r)" "d \<longleftrightarrow> \<not> c"
  shows "\<forall>b. onlyIfW c res = Inr b \<longrightarrow> (\<forall>r. readsTo lib b r (if d then r else u r))"
  using assms by (auto simp: onlyIfW_def readsTo_Nil)

lemma readsTo_fields:
  assumes "wfDefaultHeadless lib v rule"
  shows
  "readsTo lib (writeRuleItemString 1 (Network rule)) r (r\<lparr>Network := Network rule\<rparr>)"
  "readsTo lib (writeRuleItemString 3 (DomainKeyword rule)) r (r\<lparr>DomainKeyword := DomainKeyword rule\<rparr>)"
  "readsTo lib (writeRuleItemString 4 (DomainRegex rule)) r (r\<lparr>DomainRegex := DomainRegex rule\<rparr>)"
  "readsTo lib (writeRuleItemString 8 (SourcePortRange rule)) r (r\<lparr>SourcePortRange := SourcePortRange rule\<rparr>)"
  "readsTo lib (writeRuleItemString 10 (PortRange rule)) r (r\<lparr>PortRange := PortRange rule\<rparr>)"
  "readsTo lib (writeRuleItemString 11 (ProcessName rule)) r (r\<lparr>ProcessName := ProcessName rule\<rparr>)"
  "readsTo lib (writeRuleItemString 12 (ProcessPath rule)) r (r\<lparr>ProcessPath := ProcessPath rule\<rparr>)"
  "readsTo lib (writeRuleItemString 17 (ProcessPathRegex rule)) r (r\<lparr>ProcessPathRegex := ProcessPathRegex rule\<rparr>)"
  "readsTo lib (writeRuleItemString 13 (PackageName rule)) r (r\<lparr>PackageName := PackageName rule\<rparr>)"
  "readsTo lib (writeRuleItemString 14 (WIFISSID rule)) r (r\<lparr>WIFISSID := WIFISSID rule\<rparr>)"
  "readsTo lib (writeRuleItemString 15 (WIFIBSSID rule)) r (r\<lparr>WIFIBSSID := WIFIBSSID rule\<rparr>)"
  "readsTo lib (writeRuleItemUint16 0 (hr_QueryType rule)) r (r\<lparr>hr_QueryType := hr_QueryType rule\<rparr>)"
  "readsTo lib (writeRuleItemUint16 7 (opt_SourcePort rule)) r (r\<lparr>opt_SourcePort := opt_SourcePort rule\<rparr>)"
  "readsTo lib (writeRuleItemUint16 9 (Port rule)) r (r\<lparr>Port := Port rule\<rparr>)"
  "readsTo lib (writeRuleItemUint8 18 (opt_NetworkType rule)) r (r\<lparr>opt_NetworkType := opt_NetworkType rule\<rparr>)"
  "readsTo lib (22 # writePrefixes (DefaultInterfaceAddress rule)) r (r\<lparr>DefaultInterfaceAddress := DefaultInterfaceAddress rule\<rparr>)"
proof -
  show "readsTo lib (writeRuleItemString 1 (Network rule)) r (r\<lparr>Network := Network rule\<rparr>)"
    using readsTo_strings [of 1 "Network rule" lib r] assms by (simp add: stringField_def wfDefaultHeadless_def)
  show "readsTo lib (writeRuleItemString 3 (DomainKeyword rule)) r (r\<lparr>DomainKeyword := DomainKeyword rule\<rparr>)"
    using readsTo_strings [of 3 "DomainKeyword rule" lib r] assms by (simp add: stringField_def wfDefaultHeadless_def)
  show "readsTo lib (writeRuleItemString 4 (DomainRegex rule)) r (r\<lparr>DomainRegex := DomainRegex rule\<rparr>)"
    using readsTo_strings [of 4 "DomainRegex rule" lib r] assms by (simp add: stringField_def wfDefaultHeadless_def)
  show "readsTo lib (writeRuleItemString 8 (SourcePortRange rule)) r (r\<lparr>SourcePortRange := SourcePortRange rule\<rparr>)"
    using readsTo_strings [of 8 "SourcePortRange rule" lib r] assms by (simp add: stringField_def wfDefaultHeadless_def)
  show "readsTo lib (writeRuleItemString 10 (PortRange rule)) r (r\<lparr>PortRange := PortRange rule\<rparr>)"
    using readsTo_strings [of 10 "PortRange rule" lib r] assms by (simp add: stringField_def wfDefaultHeadless_def)
  show "readsTo lib (writeRuleItemString 11 (ProcessName rule)) r (r\<lparr>ProcessName := ProcessName rule\<rparr>)"
    using readsTo_strings [of 11 "ProcessName rule" lib r] assms by (simp add: stringField_def wfDefaultHeadless_def)
  show "readsTo lib (writeRuleItemString 12 (ProcessPath rule)) r (r\<lparr>ProcessPath := ProcessPath rule\<rparr>)"
    using readsTo_strings [of 12 "ProcessPath rule" lib r] assms by (simp add: stringField_def wfDefaultHeadless_def)
  show "readsTo lib (writeRuleItemString 17 (ProcessPathRegex rule)) r (r\<lparr>ProcessPathRegex := ProcessPathRegex rule\<rparr>)"
    using readsTo_strings [of 17 "ProcessPathRegex rule" lib r] assms by (simp add: stringField_def wfDefaultHeadless_def)
  show "readsTo lib (writeRuleItemString 13 (PackageName rule)) r (r\<lparr>PackageName := PackageName rule\<rparr>)"
    using readsTo_strings [of 13 "PackageName rule" lib r] assms by (simp add: stringField_def wfDefaultHeadless_def)
  show "readsTo lib (writeRuleItemString 14 (WIFISSID rule)) r (r\<lparr>WIFISSID := WIFISSID rule\<rparr>)"
    using readsTo_strings [of 14 "WIFISSID rule" lib r] assms by (simp add: stringField_def wfDefaultHeadless_def)
  show "readsTo lib (writeRuleItemString 15 (WIFIBSSID rule)) r (r\<lparr>WIFIBSSID := WIFIBSSID rule\<rparr>)"
    using readsTo_strings [of 15 "WIFIBSSID rule" lib r] assms by (simp add: stringField_def wfDefaultHeadless_def)
  show "readsTo lib (writeRuleItemUint16 0 (hr_QueryType rule)) r (r\<lparr>hr_QueryType := hr_QueryType rule\<rparr>)"
    using readsTo_uint16 [of 0 "hr_QueryType rule" lib r] assms by (simp add: portField_def wfDefaultHeadless_def)
  show "readsTo lib (writeRuleItemUint16 7 (opt_SourcePort rule)) r (r\<lparr>opt_SourcePort := opt_SourcePort rule\<rparr>)"
    using readsTo_uint16 [of 7 "opt_SourcePort rule" lib r] assms by (simp add: portField_def wfDefaultHeadless_def)
  show "readsTo lib (writeRuleItemUint16 9 (Port rule)) r (r\<lparr>Port := Port rule\<rparr>)"
    using readsTo_uint16 [of 9 "Port rule" lib r] assms by (simp add: portField_def wfDefaultHeadless_def)
qed (use assms in \<open>simp_all add: wfDefaultHeadless_def readsTo_uint8 readsTo_addresses(2)\<close>)

lemma writeItems_read:
  assumes lib: "srs_contract lib" and wf: "wfDefaultHeadless lib v rule"
  shows "list_all2 (\<lambda>p u. \<forall>b. p = Inr b \<longrightarrow> (\<forall>r. readsTo lib b r (u r))) (writeItems lib env v rule) (itemUpdates lib v rule)"
proof -
  note fields = readsTo_fields [OF wf]
  have c: "\<And>b r. causeR (writeRuleItemCIDR lib env 5 (SourceIPCIDR rule)) ''source_ip_cidr'' = Inr b \<Longrightarrow>
      readsTo lib b r (r\<lparr>SourceIPSet := Some (rangesOf lib (SourceIPCIDR rule))\<rparr>)"
    "\<And>b r. causeR (writeRuleItemCIDR lib env 6 (IPCIDR rule)) ''ipcidr'' = Inr b \<Longrightarrow>
      readsTo lib b r (r\<lparr>IPSet := Some (rangesOf lib (IPCIDR rule))\<rparr>)"
    using readsTo_cidr [OF lib] wf by (simp_all add: wfDefaultHeadless_def)
  have m: "\<And>b r. writeMatcher 2 (NewMatcher (Domain rule) (DomainSuffix rule) (v = 1)) = Inr b \<Longrightarrow>
      readsTo lib b r (r\<lparr>DomainMatcher := NewMatcher (Domain rule) (DomainSuffix rule) (v = 1)\<rparr>)"
    "\<And>b r. writeMatcher 16 (NewAdGuardMatcher (AdGuardDomain rule)) = Inr b \<Longrightarrow>
      readsTo lib b r (r\<lparr>AdGuardDomainMatcher := NewAdGuardMatcher (AdGuardDomain rule)\<rparr>)"
    using readsTo_matchers wf by (simp_all add: wfDefaultHeadless_def)
  have e: "\<And>r. mapSize (NetworkInterfaceAddress rule) \<Longrightarrow>
      readsTo lib (21 # writeEntries (the (NetworkInterfaceAddress rule))) r (r\<lparr>NetworkInterfaceAddress := Some (the (NetworkInterfaceAddress rule))\<rparr>)"
    using readsTo_addresses(1) wf by (auto simp: wfDefaultHeadless_def mapSize_def split: option.splits)
  show ?thesis
    unfolding writeItems_def itemUpdates_def
    by (intro list.rel_intros readsTo_if readsTo_unless)
      (auto simp: fields since_Inr readsTo_flags c m e split: if_splits)
qed

lemma readDefaultRule_write:
  assumes "srs_contract lib" "wfDefaultHeadless lib v rule" "writeDefaultRule lib env v rule = Inr bs"
  shows "\<exists>body. bs = 0 # body \<and> readDefaultRule lib False 0 defaultHeadlessRuleZero (s\<lparr>pending := body @ rest\<rparr>) =
    Inr (compiledDefault lib v rule, s\<lparr>pending := rest\<rparr>)"
proof -
  obtain bss where bss: "list_all2 (\<lambda>p b. p = Inr b) (writeItems lib env v rule) bss"
    "bs = 0 # concat bss @ ruleItemFinal # writeBool (Invert rule)"
    using assms(3) unfolding writeDefaultRule_def concatR_Inr by (auto simp: list_all2_Cons1 list_all2_append1)
  have "list_all2 (\<lambda>b u. \<forall>r. readsTo lib b r (u r)) bss (itemUpdates lib v rule)"
    using bss(1) writeItems_read [OF assms(1,2), of env] by (auto simp: list_all2_conv_all_nth)
  from readsTo_chain [OF this, of defaultHeadlessRuleZero, unfolded itemUpdates_compiled]
  obtain t where "readDefaultRule lib False 0 defaultHeadlessRuleZero (s\<lparr>pending := concat bss @ ruleItemFinal # writeBool (Invert rule) @ rest\<rparr>) =
      readDefaultRule lib False t ((compiledDefault lib v rule)\<lparr>Invert := False\<rparr>) (s\<lparr>pending := ruleItemFinal # writeBool (Invert rule) @ rest\<rparr>)"
    unfolding readsTo_def by blast
  moreover have "(compiledDefault lib v rule)\<lparr>Invert := Invert rule\<rparr> = compiledDefault lib v rule" by (simp add: compiledDefault_def)
  ultimately show ?thesis
    using bss(2) by (auto simp: readDefaultRule_step bools.decodes)
qed

section \<open>Rules and rule-sets survive the round trip\<close>

fun compiledRule :: "srsLibrary \<Rightarrow> uint8 \<Rightarrow> HeadlessRuleOptions \<Rightarrow> HeadlessRuleOptions"
and compiledLogical :: "srsLibrary \<Rightarrow> uint8 \<Rightarrow> (DefaultHeadlessRule, unit) LogicalRuleOptions \<Rightarrow> (DefaultHeadlessRule, unit) LogicalRuleOptions"
and compiledRules :: "srsLibrary \<Rightarrow> uint8 \<Rightarrow> HeadlessRuleOptions list \<Rightarrow> HeadlessRuleOptions list" where
  "compiledRule lib v (RuleOptions ty d l) =
     (if ty = ''default'' then RuleOptions ty (compiledDefault lib v d) logicalZero
      else RuleOptions ty defaultHeadlessRuleZero (compiledLogical lib v l))"
| "compiledLogical lib v (LogicalRuleOptions mode rules inverted action) =
     LogicalRuleOptions mode (compiledRules lib v rules) inverted ()"
| "compiledRules lib v [] = []"
| "compiledRules lib v (r # rs) = compiledRule lib v r # compiledRules lib v rs"

fun wfHeadless :: "srsLibrary \<Rightarrow> uint8 \<Rightarrow> HeadlessRuleOptions \<Rightarrow> bool"
and wfLogical :: "srsLibrary \<Rightarrow> uint8 \<Rightarrow> (DefaultHeadlessRule, unit) LogicalRuleOptions \<Rightarrow> bool"
and wfRules :: "srsLibrary \<Rightarrow> uint8 \<Rightarrow> HeadlessRuleOptions list \<Rightarrow> bool" where
  "wfHeadless lib v (RuleOptions ty d l) =
     (if ty = ''default'' then wfDefaultHeadless lib v d else wfLogical lib v l)"
| "wfLogical lib v (LogicalRuleOptions mode rules inverted action) =
     (length rules < 2 ^ 64 \<and> wfRules lib v rules)"
| "wfRules lib v [] = True"
| "wfRules lib v (r # rs) = (wfHeadless lib v r \<and> wfRules lib v rs)"

text \<open>How deep logical rules are nested in a rule.\<close>

fun ruleDepth :: "HeadlessRuleOptions \<Rightarrow> nat"
and logicalDepth :: "(DefaultHeadlessRule, unit) LogicalRuleOptions \<Rightarrow> nat"
and rulesDepth :: "HeadlessRuleOptions list \<Rightarrow> nat" where
  "ruleDepth (RuleOptions ty d l) = (if ty = ''default'' then 0 else logicalDepth l)"
| "logicalDepth (LogicalRuleOptions mode rules inverted action) = (if rules = [] then 0 else 1 + rulesDepth rules)"
| "rulesDepth [] = 0"
| "rulesDepth (r # rs) = max (ruleDepth r) (rulesDepth rs)"

lemma compiledRules_map: "compiledRules lib v rs = map (compiledRule lib v) rs"
  by (induction rs) simp_all

lemma rulesDepth_le: "rulesDepth rs \<le> n \<longleftrightarrow> (\<forall>r\<in>set rs. ruleDepth r \<le> n)"
  by (induction rs) auto

lemma wfRules_all: "wfRules lib v rs \<longleftrightarrow> (\<forall>r\<in>set rs. wfHeadless lib v r)"
  by (induction rs) auto

lemma readLogicalRule_write:
  assumes "length rules < 2 ^ 64" "writeLogicalRule lib env v (LogicalRuleOptions mode rules inverted action) = Inr bs"
  obtains body m where "writeRules lib env v rules = Inr body" "m = 0 \<and> mode = ''and'' \<or> m = 1 \<and> mode = ''or''"
    "bs = 1 # m # WriteUvarint (of_nat (length rules)) @ body @ writeBool inverted"
    "\<forall>rd rest. readLogicalRule rd (s\<lparr>pending := m # WriteUvarint (of_nat (length rules)) @ body @ writeBool inverted @ rest\<rparr>) =
      bindR (readIndexed (\<lambda>i. ''read logical rule ['' @ itoa i @ '']'') 0 (length rules) rd (s\<lparr>pending := body @ writeBool inverted @ rest\<rparr>)) (\<lambda>(rules', t).
        bindR (readBool t) (\<lambda>(inv, t'). Inr (LogicalRuleOptions mode rules' inv (), t')))"
proof -
  obtain body m where *: "writeRules lib env v rules = Inr body" "m = 0 \<and> mode = ''and'' \<or> m = 1 \<and> mode = ''or''"
    "bs = 1 # m # WriteUvarint (of_nat (length rules)) @ body @ writeBool inverted"
    using assms(2) by (auto simp: bindR_def split: if_splits sum.splits)
  have "\<forall>rd rest. readLogicalRule rd (s\<lparr>pending := m # WriteUvarint (of_nat (length rules)) @ body @ writeBool inverted @ rest\<rparr>) =
      bindR (readIndexed (\<lambda>i. ''read logical rule ['' @ itoa i @ '']'') 0 (length rules) rd (s\<lparr>pending := body @ writeBool inverted @ rest\<rparr>)) (\<lambda>(rules', t).
        bindR (readBool t) (\<lambda>(inv, t'). Inr (LogicalRuleOptions mode rules' inv (), t')))"
    using assms(1) *(2)
    by (auto simp: readLogicalRule_def uvarint.then_read unat_of_nat ReadByte_then) (simp_all add: bindRd_def returnRd_def)
  with * show thesis by (rule that)
qed

lemma readRule_write:
  shows "\<lbrakk>srs_contract lib; wfHeadless lib v r; ruleDepth r < levels; writeRule lib env v r = Inr bs\<rbrakk> \<Longrightarrow>
      readRule lib False levels (s\<lparr>pending := bs @ rest\<rparr>) = Inr (compiledRule lib v r, s\<lparr>pending := rest\<rparr>)"
    and "\<lbrakk>srs_contract lib; wfLogical lib v l; logicalDepth l \<le> levels; writeLogicalRule lib env v l = Inr bs\<rbrakk> \<Longrightarrow>
      \<exists>body. bs = 1 # body \<and> readLogicalRule (readRule lib False levels) (s\<lparr>pending := body @ rest\<rparr>) =
        Inr (compiledLogical lib v l, s\<lparr>pending := rest\<rparr>)"
    and "\<lbrakk>srs_contract lib; wfRules lib v rs; rs = [] \<or> rulesDepth rs < levels; writeRules lib env v rs = Inr bs\<rbrakk> \<Longrightarrow>
      readIndexed msg i (length rs) (readRule lib False levels) (s\<lparr>pending := bs @ rest\<rparr>) =
        Inr (compiledRules lib v rs, s\<lparr>pending := rest\<rparr>)"
proof (induction lib env v r and lib env v l and lib env v rs arbitrary: levels bs s rest and levels bs s rest and levels bs s rest msg i rule: writeRule_writeLogicalRule_writeRules.induct)
  case (1 lib env v ty d l)
  obtain k where k: "levels = Suc k" using 1(4) by (cases levels) auto
  show ?case
  proof (cases "ty = ''default''")
    case True
    then have "wfDefaultHeadless lib v d" "writeDefaultRule lib env v d = Inr bs" using 1(3,5) by auto
    from readDefaultRule_write [OF 1(2) this, where s = s and rest = rest] True show ?thesis
      by (auto simp: k readUint8_then) (simp add: bindRd_def returnRd_def)
  next
    case False
    then have ty: "ty = ''logical''" and w: "writeLogicalRule lib env v l = Inr bs" using 1(5) by (auto split: if_splits)
    have "logicalDepth l \<le> k" "wfLogical lib v l" using 1(3,4) False by (auto simp: k)
    from 1(1) [OF False ty 1(2) this(2,1) w, where s = s and rest = rest] ty show ?thesis
      by (auto simp: k readUint8_then) (simp add: bindRd_def returnRd_def)
  qed
next
  case (2 lib env v mode rules inverted action)
  have len: "length rules < 2 ^ 64" using 2(3) by simp
  obtain body m where b: "writeRules lib env v rules = Inr body" "m = 0 \<and> mode = ''and'' \<or> m = 1 \<and> mode = ''or''"
    "bs = 1 # m # WriteUvarint (of_nat (length rules)) @ body @ writeBool inverted"
    and rd: "\<forall>rd rest. readLogicalRule rd (s\<lparr>pending := m # WriteUvarint (of_nat (length rules)) @ body @ writeBool inverted @ rest\<rparr>) =
      bindR (readIndexed (\<lambda>i. ''read logical rule ['' @ itoa i @ '']'') 0 (length rules) rd (s\<lparr>pending := body @ writeBool inverted @ rest\<rparr>)) (\<lambda>(rules', t).
        bindR (readBool t) (\<lambda>(inv, t'). Inr (LogicalRuleOptions mode rules' inv (), t')))"
    by (rule readLogicalRule_write [where s = s, OF len 2(5)])
  have "rules = [] \<or> rulesDepth rules < levels" "wfRules lib v rules" using 2(3,4) by (auto split: if_splits)
  from 2(1) [OF 2(2) this(2,1) b(1)] b(3) rd show ?case
    by (auto simp: bools.decodes)
next
  case (3 lib env v)
  then show ?case by (simp add: returnRd_def)
next
  case (4 lib env v r rs)
  obtain b1 b2 where b: "writeRule lib env v r = Inr b1" "writeRules lib env v rs = Inr b2" "bs = b1 @ b2"
    using 4(6) by (auto simp: bindR_def split: sum.splits)
  have d: "ruleDepth r < levels" "rs = [] \<or> rulesDepth rs < levels" "wfHeadless lib v r" "wfRules lib v rs" using 4(4,5) by auto
  show ?case
    using 4(1) [OF 4(3) d(3,1) b(1)] 4(2) [OF b(1) 4(3) d(4,2) b(2)] b(3)
    by (simp add: bindRd_def returnRd_def causeR_def)
qed

text \<open>The default rules a rule-set is made of.\<close>

fun leafRule :: "HeadlessRuleOptions \<Rightarrow> DefaultHeadlessRule list"
and leafLogical :: "(DefaultHeadlessRule, unit) LogicalRuleOptions \<Rightarrow> DefaultHeadlessRule list"
and leafRules :: "HeadlessRuleOptions list \<Rightarrow> DefaultHeadlessRule list" where
  "leafRule (RuleOptions ty d l) = (if ty = ''default'' then [d] else leafLogical l)"
| "leafLogical (LogicalRuleOptions mode rules inverted action) = leafRules rules"
| "leafRules [] = []"
| "leafRules (r # rs) = leafRule r @ leafRules rs"

lemma writeRule_leaves:
  shows "writeRule lib env v r = Inr bs \<Longrightarrow> d \<in> set (leafRule r) \<Longrightarrow> \<exists>bs. writeDefaultRule lib env v d = Inr bs"
    and "writeLogicalRule lib env v l = Inr bs \<Longrightarrow> d \<in> set (leafLogical l) \<Longrightarrow> \<exists>bs. writeDefaultRule lib env v d = Inr bs"
    and "writeRules lib env v rs = Inr bs \<Longrightarrow> d \<in> set (leafRules rs) \<Longrightarrow> \<exists>bs. writeDefaultRule lib env v d = Inr bs"
  by (induction lib env v r and lib env v l and lib env v rs arbitrary: bs and bs and bs
      rule: writeRule_writeLogicalRule_writeRules.induct)
    (auto simp: bindR_eq_Inr split: if_splits)

lemma concatR_all: "concatR rs = Inr bs \<Longrightarrow> \<forall>p\<in>set rs. \<exists>b. p = Inr b"
  by (induction rs arbitrary: bs) (auto simp: bindR_eq_Inr)

lemma readRule_too_deep:
  shows "\<lbrakk>srs_contract lib; wfHeadless lib v r; levels \<le> ruleDepth r; writeRule lib env v r = Inr bs\<rbrakk> \<Longrightarrow>
      \<exists>e. readRule lib False levels (s\<lparr>pending := bs @ rest\<rparr>) = Inl e"
    and "\<lbrakk>srs_contract lib; wfLogical lib v l; levels < logicalDepth l; writeLogicalRule lib env v l = Inr bs\<rbrakk> \<Longrightarrow>
      \<exists>body e. bs = 1 # body \<and> readLogicalRule (readRule lib False levels) (s\<lparr>pending := body @ rest\<rparr>) = Inl e"
    and "\<lbrakk>srs_contract lib; wfRules lib v rs; rs \<noteq> []; levels \<le> rulesDepth rs; writeRules lib env v rs = Inr bs\<rbrakk> \<Longrightarrow>
      \<exists>e. readIndexed msg i (length rs) (readRule lib False levels) (s\<lparr>pending := bs @ rest\<rparr>) = Inl e"
proof (induction lib env v r and lib env v l and lib env v rs arbitrary: levels bs s rest and levels bs s rest and levels bs s rest msg i rule: writeRule_writeLogicalRule_writeRules.induct)
  case (1 lib env v ty d l)
  show ?case
  proof (cases levels)
    case 0
    then show ?thesis by (simp add: failRd_def)
  next
    case (Suc k)
    then have l: "ty \<noteq> ''default''" "k < logicalDepth l" "wfLogical lib v l" using 1(3,4) by (auto split: if_splits)
    then have ty: "ty = ''logical''" and w: "writeLogicalRule lib env v l = Inr bs" using 1(5) by (auto split: if_splits)
    from 1(1) [OF l(1) ty 1(2) l(3,2) w, where s = s and rest = rest] Suc show ?thesis
      by (auto simp: readUint8_then) (simp add: bindRd_def)
  qed
next
  case (2 lib env v mode rules inverted action)
  have len: "length rules < 2 ^ 64" using 2(3) by simp
  obtain body m where b: "writeRules lib env v rules = Inr body" "m = 0 \<and> mode = ''and'' \<or> m = 1 \<and> mode = ''or''"
    "bs = 1 # m # WriteUvarint (of_nat (length rules)) @ body @ writeBool inverted"
    and rd: "\<forall>rd rest. readLogicalRule rd (s\<lparr>pending := m # WriteUvarint (of_nat (length rules)) @ body @ writeBool inverted @ rest\<rparr>) =
      bindR (readIndexed (\<lambda>i. ''read logical rule ['' @ itoa i @ '']'') 0 (length rules) rd (s\<lparr>pending := body @ writeBool inverted @ rest\<rparr>)) (\<lambda>(rules', t).
        bindR (readBool t) (\<lambda>(inv, t'). Inr (LogicalRuleOptions mode rules' inv (), t')))"
    by (rule readLogicalRule_write [where s = s, OF len 2(5)])
  have "rules \<noteq> []" "levels \<le> rulesDepth rules" "wfRules lib v rules" using 2(3,4) by (auto split: if_splits)
  from 2(1) [OF 2(2) this(3,1,2) b(1)] obtain err where
    "readIndexed (\<lambda>i. ''read logical rule ['' @ itoa i @ '']'') 0 (length rules) (readRule lib False levels)
      (s\<lparr>pending := body @ writeBool inverted @ rest\<rparr>) = Inl err" by blast
  with b(3) rd show ?case by simp
next
  case (3 lib env v)
  then show ?case by simp
next
  case (4 lib env v r rs)
  obtain b1 b2 where b: "writeRule lib env v r = Inr b1" "writeRules lib env v rs = Inr b2" "bs = b1 @ b2"
    using 4(7) by (auto simp: bindR_def split: sum.splits)
  have d: "wfHeadless lib v r" "wfRules lib v rs" using 4(4) by auto
  show ?case
  proof (cases "levels \<le> ruleDepth r")
    case True
    from 4(1) [OF 4(3) d(1) True b(1)] obtain err where "readRule lib False levels (s\<lparr>pending := b1 @ b2 @ rest\<rparr>) = Inl err" by blast
    then show ?thesis by (simp add: b(3) bindRd_def causeR_def)
  next
    case False
    with 4(6) have deep: "levels \<le> rulesDepth rs" by (simp add: max_def split: if_splits)
    with False have "rs \<noteq> []" by (cases rs) simp_all
    from 4(2) [OF b(1) 4(3) d(2) this deep b(2)] obtain err where
      "readIndexed msg (i + 1) (length rs) (readRule lib False levels) (s\<lparr>pending := b2 @ rest\<rparr>) = Inl err" by blast
    with False show ?thesis by (simp add: b(3) bindRd_def causeR_def readRule_write(1) [OF 4(3) d(1) _ b(1)])
  qed
qed

lemma srs_Read_body:
  assumes "srs_contract lib" "length rules < 2 ^ 64" "v \<le> 4" "srs_Write lib env rules v = Inr bs"
  obtains body where "writeRules lib env v rules = Inr body"
    "srs_Read lib recover \<lparr>pending = bs @ rest, ending = e\<rparr> =
      bindR (readIndexed (\<lambda>i. ''read rule['' @ itoa i @ '']'') 0 (length rules) (readRule lib recover 101) \<lparr>pending = body, ending = EOF\<rparr>)
        (\<lambda>(rules', _). Inr (v, rules'))"
proof -
  obtain body where body: "writeRules lib env v rules = Inr body"
    "bs = MagicBytes @ [v] @ zlib_Compress lib (WriteUvarint (of_nat (length rules)) @ body)"
    using assms(4) by (auto simp: srs_Write_def bindR_eq_Inr)
  have "\<not> 4 < v" using assms(3) by simp
  moreover have "readUint \<lparr>pending = v # xs, ending = e\<rparr> = Inr (v, \<lparr>pending = xs, ending = e\<rparr>)" for xs
    using byte.decodes [where x = v and rest = xs and s = "\<lparr>pending = [], ending = e\<rparr>"] by simp
  moreover have "ReadUvarint \<lparr>pending = WriteUvarint (of_nat (length rules)) @ body, ending = EOF\<rparr> =
      Inr (of_nat (length rules), \<lparr>pending = body, ending = EOF\<rparr>)"
    using uvarint.decodes [where s = "\<lparr>pending = [], ending = EOF\<rparr>"] by simp
  moreover have "zlib_NewReader lib \<lparr>pending = zlib_Compress lib xs @ rest, ending = e\<rparr> = Inr \<lparr>pending = xs, ending = EOF\<rparr>" for xs
    using assms(1) by (simp add: srs_contract_def)
  ultimately have "srs_Read lib recover \<lparr>pending = bs @ rest, ending = e\<rparr> =
      bindR (readIndexed (\<lambda>i. ''read rule['' @ itoa i @ '']'') 0 (length rules) (readRule lib recover 101) \<lparr>pending = body, ending = EOF\<rparr>)
        (\<lambda>(rules', _). Inr (v, rules'))"
    using assms(2) by (simp add: srs_Read_def body(2) MagicBytes_def ReadFull_def unat_of_nat numeral_3_eq_3 del: readRule.simps)
  with body(1) show thesis by (rule that)
qed

section \<open>Sample rule-sets\<close>

text \<open>Libraries that satisfy the contract: bytes framed one by one, and no ranges.\<close>

fun frame :: "bytes \<Rightarrow> bytes" where
  "frame [] = [0]"
| "frame (b # bs) = 1 # b # frame bs"

fun unframe :: "bytes \<Rightarrow> bytes" where
  "unframe (f # b # bs) = (if f = 1 then b # unframe bs else [])"
| "unframe _ = []"

definition sampleLib :: srsLibrary where
  "sampleLib =
     \<lparr>zlib_Compress = frame, zlib_NewReader = (\<lambda>s. Inr \<lparr>pending = unframe (pending s), ending = EOF\<rparr>),
      ipset_Ranges = (\<lambda>_. []), ipset_Prefixes = (\<lambda>_. []), growSlack = (\<lambda>_ _. 0)\<rparr>"

lemma unframe_frame: "unframe (frame bs @ rest) = bs"
proof (induction bs)
  case Nil
  then show ?case by (cases rest) simp_all
qed simp

lemma sampleLib_contract: "srs_contract sampleLib"
  by (simp add: srs_contract_def sampleLib_def unframe_frame)

definition portRule :: HeadlessRuleOptions where
  "portRule = RuleOptions ''default'' (defaultHeadlessRuleZero\<lparr>Network := [''tcp''], Port := [443]\<rparr>) logicalZero"

primrec nestRule :: "nat \<Rightarrow> HeadlessRuleOptions" where
  "nestRule 0 = portRule"
| "nestRule (Suc n) = RuleOptions ''logical'' defaultHeadlessRuleZero (LogicalRuleOptions ''and'' [nestRule n] False ())"

lemma newSuccinctSet_Nil: "newSuccinctSet [] = None"
  by (simp add: newSuccinctSet_def buildLoop.simps index_def)

lemma portRule_wf: "wfHeadless sampleLib v portRule"
proof -
  have "NewMatcher [] [] b = newSuccinctSet []" "NewAdGuardMatcher [] = newSuccinctSet []" for b
    by (simp_all add: NewMatcher_def NewAdGuardMatcher_def)
  then show ?thesis
    by (simp add: portRule_def wfDefaultHeadless_def wfStrings_def newSuccinctSet_Nil rangesOf_def wfPrefixes_def sampleLib_def)
qed

lemma portRule_write: "\<exists>bs. writeRule lib env v portRule = Inr bs"
  by (simp add: portRule_def writeDefaultRule_def writeItems_def onlyIfW_def mapSize_def)

lemma nestRule_wf: "wfHeadless sampleLib v (nestRule n)" "ruleDepth (nestRule n) = n"
  by (induction n) (simp_all add: portRule_wf, simp add: portRule_def)

lemma nestRule_write: "\<exists>bs. writeRule lib env v (nestRule n) = Inr bs"
proof (induction n)
  case (Suc n)
  then show ?case by (auto simp: portRule_def)
qed (simp add: portRule_write)

section \<open>Properties\<close>

text \<open>
  C24. Compiling and loading a rule-set. The bytes that \<open>Write\<close> produces for the rules of a source
  rule-set, read back by \<open>Read\<close>, give the same version and the same rules in their compiled form: domain
  lists become the matcher built from them, CIDR lists the ranges of their IP set, and every other field
  is kept, for default rules and for logical rules nested up to the limit of \<open>Read\<close>. Bytes after the
  rule-set do not matter.
\<close>

theorem srs_roundtrip:
  assumes "srs_contract lib" "wfRules lib v rules" "rulesDepth rules \<le> 100" "length rules < 2 ^ 64" "v \<le> 4"
    and "srs_Write lib env rules v = Inr bs"
  shows "srs_Read lib False \<lparr>pending = bs @ rest, ending = e\<rparr> = Inr (v, map (compiledRule lib v) rules)"
proof -
  obtain body where "writeRules lib env v rules = Inr body"
    "srs_Read lib False \<lparr>pending = bs @ rest, ending = e\<rparr> =
      bindR (readIndexed (\<lambda>i. ''read rule['' @ itoa i @ '']'') 0 (length rules) (readRule lib False 101) \<lparr>pending = body, ending = EOF\<rparr>)
        (\<lambda>(rules', _). Inr (v, rules'))"
    using srs_Read_body [OF assms(1,4,5,6)] .
  with readRule_write(3) [OF assms(1,2), where levels = 101 and rest = "[]" and s = "\<lparr>pending = [], ending = EOF\<rparr>"] assms(3)
  show ?thesis by (simp add: compiledRules_map del: readRule.simps)
qed

theorem srs_roundtrip_witness:
  "\<exists>bs. srs_Write sampleLib sampleEnv [nestRule 2] 3 = Inr bs \<and>
     srs_Read sampleLib False \<lparr>pending = bs, ending = EOF\<rparr> = Inr (3, [nestRule 2])"
proof -
  obtain bs where bs: "srs_Write sampleLib sampleEnv [nestRule 2] 3 = Inr bs"
    using nestRule_write [of sampleLib sampleEnv 3 2] by (auto simp: srs_Write_def simp del: nestRule.simps)
  have "srs_Read sampleLib False \<lparr>pending = bs @ [], ending = EOF\<rparr> = Inr (3, map (compiledRule sampleLib 3) [nestRule 2])"
    by (rule srs_roundtrip [OF sampleLib_contract _ _ _ _ bs]) (simp_all add: nestRule_wf del: nestRule.simps)
  moreover have "compiledRule sampleLib 3 (nestRule 2) = nestRule 2"
    by (simp add: numeral_2_eq_2 portRule_def compiledDefault_def mapSize_def)
  ultimately show ?thesis using bs by simp
qed

text \<open>
  C25. \<open>Write\<close> does not know the nesting limit of \<open>Read\<close>: a rule-set that is compiled without an error
  can be loaded exactly when its logical rules are nested at most 100 deep.
\<close>

theorem srs_depth_limit:
  assumes "srs_contract lib" "wfRules lib v rules" "length rules < 2 ^ 64" "v \<le> 4"
    and "srs_Write lib env rules v = Inr bs"
  shows "(\<exists>out. srs_Read lib False \<lparr>pending = bs, ending = EOF\<rparr> = Inr out) \<longleftrightarrow> rulesDepth rules \<le> 100"
proof -
  obtain body where b: "writeRules lib env v rules = Inr body"
    "srs_Read lib False \<lparr>pending = bs @ [], ending = EOF\<rparr> =
      bindR (readIndexed (\<lambda>i. ''read rule['' @ itoa i @ '']'') 0 (length rules) (readRule lib False 101) \<lparr>pending = body, ending = EOF\<rparr>)
        (\<lambda>(rules', _). Inr (v, rules'))"
    using srs_Read_body [OF assms(1,3,4,5)] .
  show ?thesis
  proof (cases "rulesDepth rules \<le> 100")
    case True
    with b readRule_write(3) [OF assms(1,2), where levels = 101 and rest = "[]" and s = "\<lparr>pending = [], ending = EOF\<rparr>"]
    show ?thesis by (simp del: readRule.simps)
  next
    case False
    then have "rules \<noteq> []" "101 \<le> rulesDepth rules" by auto
    from readRule_too_deep(3) [OF assms(1,2) this b(1), where rest = "[]" and s = "\<lparr>pending = [], ending = EOF\<rparr>"]
    obtain err where "readIndexed (\<lambda>i. ''read rule['' @ itoa i @ '']'') 0 (length rules) (readRule lib False 101)
      \<lparr>pending = body, ending = EOF\<rparr> = Inl err" by auto
    with b(2) False show ?thesis by (simp del: readRule.simps)
  qed
qed

theorem srs_depth_limit_witness:
  "\<exists>bs. srs_Write sampleLib sampleEnv [nestRule 101] 3 = Inr bs \<and>
     \<not> (\<exists>out. srs_Read sampleLib False \<lparr>pending = bs, ending = EOF\<rparr> = Inr out)"
proof -
  obtain bs where bs: "srs_Write sampleLib sampleEnv [nestRule 101] 3 = Inr bs"
    using nestRule_write [of sampleLib sampleEnv 3 101] by (auto simp: srs_Write_def simp del: nestRule.simps)
  have "(\<exists>out. srs_Read sampleLib False \<lparr>pending = bs, ending = EOF\<rparr> = Inr out) \<longleftrightarrow> rulesDepth [nestRule 101] \<le> 100"
    by (rule srs_depth_limit [OF sampleLib_contract _ _ _ bs]) (simp_all add: nestRule_wf del: nestRule.simps)
  with bs show ?thesis by (simp add: nestRule_wf del: nestRule.simps)
qed




end
