(* ===== verification/Srs_Semantics.thy ===== *)
theory Srs_Semantics
  imports Srs_Format
begin

text \<open>
  Compiled rules match as their sources. A rule built from the compiled form of its options has other
  descriptions than the one built from the source, but every item of the one has an item of the other
  that matches the same connections, so both go through the same match states in every rule-set.
\<close>

section \<open>Rules that match alike\<close>

definition sameItem :: "env \<Rightarrow> RuleItem \<Rightarrow> RuleItem \<Rightarrow> bool" where
  "sameItem env x y \<longleftrightarrow> (\<forall>md. RuleItem_Match env x md = RuleItem_Match env y md)"

definition sameItems :: "env \<Rightarrow> RuleItem list \<Rightarrow> RuleItem list \<Rightarrow> bool" where
  "sameItems env = list_all2 (sameItem env)"

definition sameStep :: "env \<Rightarrow> step \<Rightarrow> step \<Rightarrow> bool" where
  "sameStep env s t \<longleftrightarrow> (\<exists>g x y. s = Add g (Inr x) \<and> t = Add g (Inr y) \<and> sameItem env x y)"

definition sameSteps :: "env \<Rightarrow> step list \<Rightarrow> step list \<Rightarrow> bool" where
  "sameSteps env = list_all2 (sameStep env)"

lemma sameItem_refl [simp]: "sameItem env x x"
  by (simp add: sameItem_def)

lemma sameItems_match:
  assumes "sameItems env xs ys"
  shows "matchAnyItem env ys = matchAnyItem env xs" "ys = [] \<longleftrightarrow> xs = []"
    and "list_all (\<lambda>it. RuleItem_Match env it md) ys \<longleftrightarrow> list_all (\<lambda>it. RuleItem_Match env it md) xs"
  using assms unfolding sameItems_def
  by (induction rule: list_all2_induct) (auto simp: matchAnyItem_def sameItem_def fun_eq_iff)

lemma sameSteps_refl: "succeeds ss \<Longrightarrow> sameSteps env ss ss"
  by (induction ss rule: succeeds.induct) (auto simp: sameSteps_def sameStep_def)

lemma sameSteps_simps [simp]:
  "sameSteps env [] []" "sameSteps env [Add g (Inr x)] [Add g (Inr y)] \<longleftrightarrow> sameItem env x y"
  by (simp_all add: sameSteps_def sameStep_def)

lemma sameSteps_append: "sameSteps env a b \<Longrightarrow> sameSteps env c d \<Longrightarrow> sameSteps env (a @ c) (b @ d)"
  by (simp add: sameSteps_def list_all2_appendI)

lemma sameSteps_added:
  assumes "sameSteps env ss ts"
  shows "succeeds ts" "sameItems env (added g ss) (added g ts)" "allAdded ts = [] \<longleftrightarrow> allAdded ss = []"
  using assms unfolding sameSteps_def
  by (induction rule: list_all2_induct) (auto simp: sameStep_def sameItems_def split: if_splits)

lemma sameRule:
  assumes "sameItems env (items r) (items r')" "sameItems env (sourceAddressItems r) (sourceAddressItems r')"
    and "sameItems env (sourcePortItems r) (sourcePortItems r')" "sameItems env (destinationAddressItems r) (destinationAddressItems r')"
    and "sameItems env (destinationIPCIDRItems r) (destinationIPCIDRItems r')"
    and "sameItems env (destinationPortItems r) (destinationPortItems r')"
    and "allItems r' = [] \<longleftrightarrow> allItems r = []" "invert r' = invert r"
  shows "abstractDefaultRule_matchStatesWithBase env r' m = abstractDefaultRule_matchStatesWithBase env r m"
proof -
  note same = sameItems_match [OF assms(1)] sameItems_match [OF assms(2)] sameItems_match [OF assms(3)]
    sameItems_match [OF assms(4)] sameItems_match [OF assms(5)] sameItems_match [OF assms(6)]
  have eqs: "defaultBaseState env r' = defaultBaseState env r" "stateFilter r' = stateFilter r" "deferredGroups r' = deferredGroups r"
    "invertedFailure r' = invertedFailure r"
    unfolding fun_eq_iff assms(8) invertedFailure_def defaultBaseState_def stateFilter_def deferredGroups_def destinationIPCIDRMatchesSource_def
      destinationIPCIDRMatchesDestination_def requiresSourceAddressMatch_def requiresDestinationAddressMatch_def same by (intro allI refl)+
  show ?thesis by (rule ext)+ (simp only: abstractDefaultRule_matchStatesWithBase_def same assms(7,8) eqs)
qed

section \<open>Compiled default rules\<close>

text \<open>
  What \<open>netipx\<close> documents of the ranges of a set: together they cover the addresses that the prefixes
  and addresses cover from which the set was built.
\<close>

definition ranges_contract :: "srsLibrary \<Rightarrow> bool" where
  "ranges_contract lib \<longleftrightarrow> (\<forall>s. (\<forall>e\<in>set s. \<forall>lo hi. e \<noteq> IPSetRange lo hi) \<longrightarrow>
     (\<forall>a. (\<exists>(lo, hi)\<in>set (ipset_Ranges lib s). entryCovers (IPSetRange lo hi) a) \<longleftrightarrow> (\<exists>e\<in>set s. entryCovers e a)))"

text \<open>Options of a source rule-set that the format can express.\<close>

definition expressible :: "DefaultHeadlessRule \<Rightarrow> bool" where
  "expressible opts \<longleftrightarrow> TunnelSource opts = [] \<and> TunnelDestination opts = [] \<and> DomainMatcher opts = None \<and>
     SourceIPSet opts = None \<and> IPSet opts = None \<and> AdGuardDomainMatcher opts = None \<and> NetworkInterfaceAddress opts \<noteq> Some []"

lemma ipcidrEntries_no_range: "ipcidrEntries i xs = Inr es \<Longrightarrow> \<forall>e\<in>set es. \<forall>lo hi. e \<noteq> IPSetRange lo hi"
  by (induction xs arbitrary: i es) (auto simp: bindR_eq_Inr split: sum.splits, blast+)

lemma sameItem_cidr:
  assumes "ipset_contract env" "ranges_contract lib" "NewIPCIDRItem env isSource xs = Inr it"
  shows "sameItem env it (NewRawIPCIDRItem isSource (rangesOf lib xs))"
proof -
  obtain es d where es: "ipcidrEntries 0 xs = Inr es" "it = IPCIDRItem es isSource d"
    using assms(3) by (auto simp: NewIPCIDRItem_def bindR_eq_Inr Let_def split: option.splits)
  have "ipset_Contains env (rangesOf lib xs) = ipset_Contains env es"
    using assms(1,2) ipcidrEntries_no_range [OF es(1)]
    by (auto simp: fun_eq_iff ipset_contract_def ranges_contract_def rangesOf_def es(1) case_prod_unfold)
  then show ?thesis
    by (simp add: sameItem_def es(2) NewRawIPCIDRItem_def RuleItem_Match_def IPCIDRItem_Match_def)
qed

lemma compiled_fields [simp]:
  "Network (compiledDefault lib v opts) = Network opts"
  "DomainKeyword (compiledDefault lib v opts) = DomainKeyword opts"
  "DomainRegex (compiledDefault lib v opts) = DomainRegex opts"
  "opt_SourcePort (compiledDefault lib v opts) = opt_SourcePort opts"
  "SourcePortRange (compiledDefault lib v opts) = SourcePortRange opts"
  "Port (compiledDefault lib v opts) = Port opts"
  "PortRange (compiledDefault lib v opts) = PortRange opts"
  "ProcessName (compiledDefault lib v opts) = ProcessName opts"
  "ProcessPath (compiledDefault lib v opts) = ProcessPath opts"
  "ProcessPathRegex (compiledDefault lib v opts) = ProcessPathRegex opts"
  "PackageName (compiledDefault lib v opts) = PackageName opts"
  "opt_NetworkType (compiledDefault lib v opts) = opt_NetworkType opts"
  "NetworkIsExpensive (compiledDefault lib v opts) = NetworkIsExpensive opts"
  "NetworkIsConstrained (compiledDefault lib v opts) = NetworkIsConstrained opts"
  "WIFISSID (compiledDefault lib v opts) = WIFISSID opts"
  "WIFIBSSID (compiledDefault lib v opts) = WIFIBSSID opts"
  "DefaultInterfaceAddress (compiledDefault lib v opts) = DefaultInterfaceAddress opts"
  "hr_QueryType (compiledDefault lib v opts) = hr_QueryType opts"
  "Invert (compiledDefault lib v opts) = Invert opts"
  by (simp_all add: compiledDefault_def)

lemma compiled_shared:
  assumes "expressible opts"
  shows "portSteps (compiledDefault lib v opts) = portSteps opts" "processSteps env (compiledDefault lib v opts) = processSteps env opts"
    and "networkSteps env (compiledDefault lib v opts) = networkSteps env opts"
    and "interfaceSteps (compiledDefault lib v opts) = interfaceSteps opts"
  using assms
  by (simp_all add: expressible_def portSteps_def processSteps_def networkSteps_def interfaceSteps_def compiledDefault_def mapSize_def)

lemma built_matchers:
  "NewDomainItem ds ss = Inr it \<Longrightarrow> \<exists>m. NewMatcher ds ss False = Some m \<and> sameItem env it (NewRawDomainItem m)"
  "NewAdGuardDomainItem ls = Inr it \<Longrightarrow> \<exists>m. NewAdGuardMatcher ls = Some m \<and> it = NewRawAdGuardDomainItem m"
  by (auto simp: NewDomainItem_def NewRawDomainItem_def NewAdGuardDomainItem_def NewRawAdGuardDomainItem_def sameItem_def
      RuleItem_Match_def split: if_splits option.splits)

lemma compiled_steps:
  assumes "ipset_contract env" "ranges_contract lib" "v \<noteq> 1" "expressible opts"
    and "succeeds (defaultHeadlessRuleSteps env nm opts)"
  shows "sameSteps env (defaultHeadlessRuleSteps env nm opts) (defaultHeadlessRuleSteps env nm (compiledDefault lib v opts))"
proof -
  let ?c = "compiledDefault lib v opts"
  have raw: "DomainMatcher opts = None" "SourceIPSet opts = None" "IPSet opts = None" "AdGuardDomainMatcher opts = None"
    using assms(4) by (simp_all add: expressible_def)
  have c: "Domain ?c = []" "DomainSuffix ?c = []" "SourceIPCIDR ?c = []" "IPCIDR ?c = []" "AdGuardDomain ?c = []"
    "SourceIPSet ?c = (if SourceIPCIDR opts \<noteq> [] then Some (rangesOf lib (SourceIPCIDR opts)) else None)"
    "IPSet ?c = (if IPCIDR opts \<noteq> [] then Some (rangesOf lib (IPCIDR opts)) else None)"
    by (simp_all add: compiledDefault_def)
  note parts = assms(5) [unfolded defaultHeadlessRuleSteps_def succeeds_append raw option.case]
  have dom: "Domain opts \<noteq> [] \<or> DomainSuffix opts \<noteq> [] \<Longrightarrow> \<exists>it. NewDomainItem (Domain opts) (DomainSuffix opts) = Inr it"
    and ag: "AdGuardDomain opts \<noteq> [] \<Longrightarrow> \<exists>it. NewAdGuardDomainItem (AdGuardDomain opts) = Inr it"
    and src: "SourceIPCIDR opts \<noteq> [] \<Longrightarrow> \<exists>it. NewIPCIDRItem env True (SourceIPCIDR opts) = Inr it"
    and dst: "IPCIDR opts \<noteq> [] \<Longrightarrow> \<exists>it. NewIPCIDRItem env False (IPCIDR opts) = Inr it"
    using parts by (auto simp: causeR_def split: sum.splits)
  have "sameSteps env (if Domain opts \<noteq> [] \<or> DomainSuffix opts \<noteq> [] then [Add g (NewDomainItem (Domain opts) (DomainSuffix opts))] else [])
      (case DomainMatcher ?c of Some m \<Rightarrow> [Add g (Inr (NewRawDomainItem m))] | None \<Rightarrow> [])" for g
  proof (cases "Domain opts \<noteq> [] \<or> DomainSuffix opts \<noteq> []")
    case True
    then obtain it where "NewDomainItem (Domain opts) (DomainSuffix opts) = Inr it" using dom by blast
    moreover from this obtain m where "NewMatcher (Domain opts) (DomainSuffix opts) False = Some m" "sameItem env it (NewRawDomainItem m)"
      using built_matchers(1) by blast
    ultimately show ?thesis using True assms(3) by (simp add: compiledDefault_def)
  qed (simp add: compiledDefault_def)
  moreover have "sameSteps env (if AdGuardDomain opts \<noteq> [] then [Add g (NewAdGuardDomainItem (AdGuardDomain opts))] else [])
      (case AdGuardDomainMatcher ?c of Some m \<Rightarrow> [Add g (Inr (NewRawAdGuardDomainItem m))] | None \<Rightarrow> [])" for g
  proof (cases "AdGuardDomain opts = []")
    case False
    then obtain it where "NewAdGuardDomainItem (AdGuardDomain opts) = Inr it" using ag by blast
    with False built_matchers(2) [OF this] show ?thesis by (auto simp: compiledDefault_def)
  qed (simp add: compiledDefault_def)
  moreover have "sameSteps env (if xs \<noteq> [] then [Add g (causeR (NewIPCIDRItem env isSource xs) msg)] else [])
      (case if xs \<noteq> [] then Some (rangesOf lib xs) else None of Some s \<Rightarrow> [Add g (Inr (NewRawIPCIDRItem isSource s))] | None \<Rightarrow> [])"
    if "xs \<noteq> [] \<Longrightarrow> \<exists>it. NewIPCIDRItem env isSource xs = Inr it" for g isSource xs msg
    using that sameItem_cidr [OF assms(1,2)] by (cases "xs = []") auto
  moreover note src dst parts
  ultimately show ?thesis
    unfolding defaultHeadlessRuleSteps_def raw option.case compiled_shared [OF assms(4)] compiled_fields c
    by (intro sameSteps_append) (simp_all only: sameSteps_refl not_True_eq_False simp_thms if_False)
qed

lemma compiled_valid:
  assumes "expressible opts" "DefaultHeadlessRule_IsValid opts"
    and "Domain opts \<noteq> [] \<or> DomainSuffix opts \<noteq> [] \<Longrightarrow> NewMatcher (Domain opts) (DomainSuffix opts) (v = 1) \<noteq> None"
    and "AdGuardDomain opts \<noteq> [] \<Longrightarrow> NewAdGuardMatcher (AdGuardDomain opts) \<noteq> None"
  shows "DefaultHeadlessRule_IsValid (compiledDefault lib v opts)"
  unfolding DefaultHeadlessRule_IsValid_def
proof
  assume "compiledDefault lib v opts = defaultHeadlessRuleZero\<lparr>Invert := Invert (compiledDefault lib v opts)\<rparr>"
  note eq = arg_cong [OF this]
  have lists: "Domain opts = []" "DomainSuffix opts = []" "SourceIPCIDR opts = []" "IPCIDR opts = []" "AdGuardDomain opts = []"
    using eq [of DomainMatcher] eq [of SourceIPSet] eq [of IPSet] eq [of AdGuardDomainMatcher] assms(3,4)
    by (auto simp: compiledDefault_def split: if_splits)
  have nia: "NetworkInterfaceAddress opts = None"
    using eq [of NetworkInterfaceAddress] assms(1) by (auto simp: compiledDefault_def expressible_def mapSize_def split: option.splits if_splits)
  note fields = eq [of Network, simplified] eq [of DomainKeyword, simplified] eq [of DomainRegex, simplified] eq [of opt_SourcePort, simplified] eq [of SourcePortRange, simplified] eq [of Port, simplified] eq [of PortRange, simplified] eq [of ProcessName, simplified] eq [of ProcessPath, simplified] eq [of ProcessPathRegex, simplified] eq [of PackageName, simplified] eq [of opt_NetworkType, simplified] eq [of NetworkIsExpensive, simplified] eq [of NetworkIsConstrained, simplified] eq [of WIFISSID, simplified] eq [of WIFIBSSID, simplified] eq [of DefaultInterfaceAddress, simplified] eq [of hr_QueryType, simplified]
  have "opts = defaultHeadlessRuleZero\<lparr>Invert := Invert opts\<rparr>"
    by (rule DefaultHeadlessRule.equality)
      (simp_all add: lists nia fields assms(1) [unfolded expressible_def])
  with assms(2) show False unfolding DefaultHeadlessRule_IsValid_def by (rule notE)
qed

lemma compiled_default:
  assumes "ipset_contract env" "ranges_contract lib" "v \<noteq> 1" "expressible opts"
    and "NewDefaultHeadlessRule env nm opts = Inr (r :: 'a rule)" "DefaultHeadlessRule_IsValid opts"
  shows "DefaultHeadlessRule_IsValid (compiledDefault lib v opts) \<and>
    (\<exists>r' :: 'a rule. NewDefaultHeadlessRule env nm (compiledDefault lib v opts) = Inr r' \<and>
      matchStatesWithBase env r' = matchStatesWithBase env r)"
proof
  let ?ss = "defaultHeadlessRuleSteps env nm opts" and ?ts = "defaultHeadlessRuleSteps env nm (compiledDefault lib v opts)"
  have r: "succeeds ?ss" "r = DefaultRule (withAdded ?ss (emptyRule (Invert opts))) None None"
    using assms(5) by (auto simp: NewDefaultHeadlessRule_def bindR_eq_Inr runSteps_Inr)
  have "Domain opts \<noteq> [] \<or> DomainSuffix opts \<noteq> [] \<Longrightarrow> \<exists>it. NewDomainItem (Domain opts) (DomainSuffix opts) = Inr it"
    "AdGuardDomain opts \<noteq> [] \<Longrightarrow> \<exists>it. NewAdGuardDomainItem (AdGuardDomain opts) = Inr it"
    using r(1) by (auto simp: defaultHeadlessRuleSteps_def)
  then show "DefaultHeadlessRule_IsValid (compiledDefault lib v opts)"
    using assms(3) by (intro compiled_valid [OF assms(4,6)]) (auto dest!: built_matchers)
  note same = sameSteps_added [OF compiled_steps [OF assms(1-4) r(1)]]
  have eq: "abstractDefaultRule_matchStatesWithBase env (withAdded ?ts (emptyRule (Invert opts))) None =
      abstractDefaultRule_matchStatesWithBase env (withAdded ?ss (emptyRule (Invert opts))) None"
    using same by (intro sameRule) (simp_all only: withAdded_def emptyRule_def abstractDefaultRule.select_convs append_Nil map_is_Nil_conv)
  have "NewDefaultHeadlessRule env nm (compiledDefault lib v opts) = Inr (DefaultRule (withAdded ?ts (emptyRule (Invert opts))) None None :: 'a rule)"
    using same(1) runSteps_Inr [of ?ts] by (simp add: NewDefaultHeadlessRule_def bindR_eq_Inr)
  moreover have "matchStatesWithBase env (DefaultRule (withAdded ?ts (emptyRule (Invert opts))) None None :: 'a rule) = matchStatesWithBase env r"
    by (rule ext)+ (simp only: r(2) matchStatesWithBase.simps(1) eq)
  ultimately show "\<exists>r' :: 'a rule. NewDefaultHeadlessRule env nm (compiledDefault lib v opts) = Inr r' \<and>
      matchStatesWithBase env r' = matchStatesWithBase env r" by blast
qed

section \<open>Compiled rule-sets\<close>

fun expressibleRule :: "HeadlessRuleOptions \<Rightarrow> bool"
and expressibleLogical :: "(DefaultHeadlessRule, unit) LogicalRuleOptions \<Rightarrow> bool"
and expressibleRules :: "HeadlessRuleOptions list \<Rightarrow> bool" where
  "expressibleRule (RuleOptions ty d l) =
     (if ty = ''default'' then expressible d else ty = ''logical'' \<and> expressibleLogical l)"
| "expressibleLogical (LogicalRuleOptions mode rules inverted action) = expressibleRules rules"
| "expressibleRules [] = True"
| "expressibleRules (r # rs) = (expressibleRule r \<and> expressibleRules rs)"

lemma compiled_rule:
  shows "\<lbrakk>ipset_contract env; ranges_contract lib; v \<noteq> 1; expressibleRule r; NewHeadlessRule env nm r = Inr (q :: 'a rule)\<rbrakk> \<Longrightarrow>
      RuleOptions_IsValid True DefaultHeadlessRule_IsValid (compiledRule lib v r) = Inr True \<and>
      (\<exists>q' :: 'a rule. NewHeadlessRule env nm (compiledRule lib v r) = Inr q' \<and> matchStatesWithBase env q' = matchStatesWithBase env q)"
    and "\<lbrakk>ipset_contract env; ranges_contract lib; v \<noteq> 1; expressibleLogical l; NewLogicalHeadlessRule env nm l = Inr (q :: 'a rule)\<rbrakk> \<Longrightarrow>
      (\<forall>mode rules inverted action. l = LogicalRuleOptions mode rules inverted action \<longrightarrow>
        allValid True DefaultHeadlessRule_IsValid (compiledRules lib v rules) = Inr True) \<and>
      (\<exists>q' :: 'a rule. NewLogicalHeadlessRule env nm (compiledLogical lib v l) = Inr q' \<and> matchStatesWithBase env q' = matchStatesWithBase env q)"
    and "\<lbrakk>ipset_contract env; ranges_contract lib; v \<noteq> 1; expressibleRules rs; NewSubHeadlessRules env nm i rs = Inr (qs :: 'a rule list)\<rbrakk> \<Longrightarrow>
      allValid True DefaultHeadlessRule_IsValid (compiledRules lib v rs) = Inr True \<and>
      (\<exists>qs' :: 'a rule list. NewSubHeadlessRules env nm i (compiledRules lib v rs) = Inr qs' \<and>
        map (matchStatesWithBase env) qs' = map (matchStatesWithBase env) qs)"
proof (induction env nm r and env nm l and env nm i rs arbitrary: q and q and qs
    rule: NewHeadlessRule_NewLogicalHeadlessRule_NewSubHeadlessRules.induct [where ?'a = 'a])
  case (1 env nm ty d l)
  show ?case
  proof (cases "ty = ''default''")
    case True
    then have "DefaultHeadlessRule_IsValid d" "NewDefaultHeadlessRule env nm d = Inr q" "expressible d"
      using 1(6,5) by (auto split: if_splits)
    from compiled_default [OF 1(2-4) this(3,2,1)] True show ?thesis by simp
  next
    case False
    then have ty: "ty = ''logical''" and e: "expressibleLogical l" using 1(5) by auto
    then have l: "LogicalRule_IsValid True DefaultHeadlessRule_IsValid l = Inr True" "NewLogicalHeadlessRule env nm l = Inr q"
      using 1(6) by (auto simp: bindR_eq_Inr split: if_splits)
    obtain mode rules inverted action where lr: "l = LogicalRuleOptions mode rules inverted action" by (cases l)
    have "rules \<noteq> []" using l(1) by (auto simp: lr)
    then have "compiledRules lib v rules \<noteq> []" by (simp add: compiledRules_map)
    moreover have "\<not> (ty = [] \<or> ty = ''default'')" "\<not> \<not> True" using ty by simp_all
    note 1(1) [OF this(1) ty this(2) 1(2-4) e l(2)]
    ultimately show ?thesis using ty by (auto simp: lr)
  qed
next
  case (2 env nm mode rules inverted action)
  obtain m qs where m: "logicalMode mode = Inr m" "NewSubHeadlessRules env nm 0 rules = Inr qs" "q = LogicalRule qs m inverted None"
    using 2(6) by (auto simp: bindR_eq_Inr)
  have "expressibleRules rules" using 2(5) by simp
  from 2(1) [OF 2(2-4) this m(2)] obtain qs' :: "'a rule list" where
    qs': "allValid True DefaultHeadlessRule_IsValid (compiledRules lib v rules) = Inr True"
      "NewSubHeadlessRules env nm 0 (compiledRules lib v rules) = Inr qs'" "map (matchStatesWithBase env) qs' = map (matchStatesWithBase env) qs" by blast
  have "matchStatesWithBase env (LogicalRule qs' m inverted None :: 'a rule) = matchStatesWithBase env (LogicalRule qs m inverted None)"
    by (rule ext)+ (simp only: matchStatesWithBase.simps qs'(3))
  then show ?case using qs' m by simp
next
  case (3 env nm i)
  then show ?case by simp
next
  case (4 env nm i r rs)
  obtain q1 qs1 where q: "NewHeadlessRule env nm r = Inr q1" "NewSubHeadlessRules env nm (i + 1) rs = Inr qs1" "qs = q1 # qs1"
    using 4(7) by (auto simp: bindR_eq_Inr causeR_def split: sum.splits)
  have e: "expressibleRule r" "expressibleRules rs" using 4(6) by simp_all

  from 4(1) [OF 4(3-5) e(1) q(1)] 4(2) [OF 4(3-5) e(2) q(2)] q(3) show ?case by auto
qed

section \<open>A library with exact ranges\<close>

definition lowOf :: "nat \<Rightarrow> 'a::len word \<Rightarrow> 'a word" where
  "lowOf k v = of_nat (unat v div 2 ^ k * 2 ^ k)"

definition highOf :: "nat \<Rightarrow> 'a::len word \<Rightarrow> 'a word" where
  "highOf k v = of_nat (unat v div 2 ^ k * 2 ^ k + (2 ^ k - 1))"

fun entryRanges :: "ipsetEntry \<Rightarrow> (addr \<times> addr) list" where
  "entryRanges (IPSetAddr a) = (if plainAddr a then [(a, a)] else [])"
| "entryRanges (IPSetRange lo hi) = (if plainAddr lo \<and> plainAddr hi then [(lo, hi)] else [])"
| "entryRanges (IPSetPrefix p) =
     (if \<not> prefix_IsValid p then []
      else case pfx_ip p of
        AddrZero \<Rightarrow> []
      | Addr4 v \<Rightarrow> [(Addr4 (lowOf (nat (32 - prefix_Bits p)) v), Addr4 (highOf (nat (32 - prefix_Bits p)) v))]
      | Addr6 v z \<Rightarrow> [(Addr6 (lowOf (nat (128 - prefix_Bits p)) v) [], Addr6 (highOf (nat (128 - prefix_Bits p)) v) [])])"

definition exactLib :: srsLibrary where
  "exactLib = sampleLib\<lparr>ipset_Ranges := (\<lambda>s. concat (map entryRanges s))\<rparr>"

lemma block_bounds:
  fixes v w :: nat
  assumes "k \<le> n" "v < 2 ^ n"
  shows "v div 2 ^ k * 2 ^ k + (2 ^ k - 1) < 2 ^ n" "w div 2 ^ k = v div 2 ^ k \<longleftrightarrow> v div 2 ^ k * 2 ^ k \<le> w \<and> w \<le> v div 2 ^ k * 2 ^ k + (2 ^ k - 1)"
proof -
  have "v div 2 ^ k < 2 ^ (n - k)" using assms by (simp add: div_less_iff_less_mult flip: power_add)
  then have "(v div 2 ^ k + 1) * 2 ^ k \<le> 2 ^ (n - k) * 2 ^ k" by (intro mult_right_mono) simp_all
  then have "v div 2 ^ k * 2 ^ k + 2 ^ k \<le> 2 ^ n" using assms(1) by (simp flip: power_add)
  moreover have "0 < (2 :: nat) ^ k" by simp
  ultimately show "v div 2 ^ k * 2 ^ k + (2 ^ k - 1) < 2 ^ n" by linarith
  have "w div d = q \<longleftrightarrow> q * d \<le> w \<and> w \<le> q * d + (d - 1)" if "0 < d" for d q :: nat
  proof
    assume "w div d = q"
    then have "q * d + w mod d = w" "w mod d < d" using that by auto
    then show "q * d \<le> w \<and> w \<le> q * d + (d - 1)" by linarith
  next
    assume "q * d \<le> w \<and> w \<le> q * d + (d - 1)"
    moreover from this that have "w < q * d + d" by linarith
    ultimately show "w div d = q" by (intro div_nat_eqI) (simp_all add: mult.commute add.commute)
  qed
  then show "w div 2 ^ k = v div 2 ^ k \<longleftrightarrow> v div 2 ^ k * 2 ^ k \<le> w \<and> w \<le> v div 2 ^ k * 2 ^ k + (2 ^ k - 1)" by simp
qed

lemma block_cover:
  fixes v w :: "'a::len word"
  assumes "k \<le> LENGTH('a)"
  shows "drop_bit k w XOR drop_bit k v = 0 \<longleftrightarrow> lowOf k v \<le> w \<and> w \<le> highOf k v"
proof -
  have "drop_bit k w XOR drop_bit k v = 0 \<longleftrightarrow> drop_bit k w = drop_bit k v"
    by (auto simp: bit_eq_iff bit_xor_iff)
  also have "\<dots> \<longleftrightarrow> unat w div 2 ^ k = unat v div 2 ^ k"
    unfolding word_unat_eq_iff unat_drop_bit_eq by (simp only: drop_bit_eq_div)
  also have "\<dots> \<longleftrightarrow> unat (lowOf k v) \<le> unat w \<and> unat w \<le> unat (highOf k v)"
  proof -
    note bounds = block_bounds [OF assms unsigned_less [of v]]
    have "unat (highOf k v) = unat v div 2 ^ k * 2 ^ k + (2 ^ k - 1)"
      unfolding highOf_def unat_of_nat using bounds(1) by (rule mod_less)
    moreover have "unat (lowOf k v) = unat v div 2 ^ k * 2 ^ k"
      unfolding lowOf_def unat_of_nat using bounds(1) by (intro mod_less) linarith
    ultimately show ?thesis using bounds(2) by simp
  qed
  finally show ?thesis by (simp add: word_le_nat_alt)
qed

lemma prefix6_cover: "x AND mask6 n = 0 \<longleftrightarrow> drop_bit (128 - n) x = 0"
proof -
  have "x AND NOT (mask m) = 0 \<longleftrightarrow> (\<forall>i. bit x i \<longrightarrow> i < m)" for m
    using bit_imp_le_length [of x] by (fastforce simp: bit_eq_iff bit_and_iff bit_not_iff bit_mask_iff)
  moreover have "drop_bit m x = 0 \<longleftrightarrow> (\<forall>i. bit x i \<longrightarrow> i < m)" for m
  proof
    assume "drop_bit m x = 0"
    then have "\<not> bit (drop_bit m x) i" for i by simp
    then have "\<not> bit x (m + i)" for i by (simp add: bit_drop_bit_eq)
    then show "\<forall>i. bit x i \<longrightarrow> i < m" by (metis le_Suc_ex not_less)
  next
    assume "\<forall>i. bit x i \<longrightarrow> i < m"
    then show "drop_bit m x = 0" by (intro bit_word_eqI) (auto simp: bit_drop_bit_eq)
  qed
  ultimately show ?thesis by (simp add: mask6_def)
qed

lemma entryRanges_plain: "(lo, hi) \<in> set (entryRanges e) \<Longrightarrow> plainAddr lo \<and> plainAddr hi"
  by (cases e) (auto simp: plainAddr_def split: if_splits addr.splits)

lemma entryRanges_cover:
  assumes "\<forall>lo hi. e \<noteq> IPSetRange lo hi"
  shows "(\<exists>(lo, hi)\<in>set (entryRanges e). entryCovers (IPSetRange lo hi) a) \<longleftrightarrow> entryCovers e a"
proof (cases e)
  case (IPSetPrefix p)
  have "nat (128 - prefix_Bits p) = 128 - nat (prefix_Bits p)" if "prefix_IsValid p"
    using that by (simp add: prefix_IsValid_def prefix_Bits_def)
  with IPSetPrefix show ?thesis
    by (cases "pfx_ip p"; cases a)
      (auto simp: prefix_Contains_def prefix_IsValid_def prefix_Bits_def block_cover prefix6_cover)
next
  case (IPSetAddr b)
  then show ?thesis by (cases b; cases a) (auto simp: plainAddr_def)
qed (use assms in simp)

lemma exactLib_contract: "srs_contract exactLib" "ranges_contract exactLib"
  using sampleLib_contract entryRanges_plain entryRanges_cover
  by (auto simp: exactLib_def srs_contract_def ranges_contract_def)

end
