(* ===== verification/Cache_File.thy ===== *)
theory Cache_File
  imports Varbin Netip
begin

text \<open>
  The cache file (\<open>experimental/cachefile\<close>) and the record it keeps for a downloaded file
  (\<open>SavedBinary\<close> of \<open>adapter/experimental.go\<close>). The database \<open>bbolt\<close> is a parameter: its operations on
  a path of buckets and a key, of which the lemmas assume what its documentation states. A corrupted
  database panics; the wrappers \<open>view\<close>, \<open>batch\<close> and \<open>update\<close> recover, remove the file and report an error.
\<close>

section \<open>Saved binaries\<close>

record SavedBinary =
  sb_Content :: bytes
  sb_LastUpdated :: int
  sb_LastEtag :: string

text \<open>Times are nanoseconds since 1970; \<open>Unix\<close> rounds down to seconds.\<close>

definition time_Unix :: "int \<Rightarrow> int" where
  "time_Unix t = t div 1000000000"

definition time_FromUnix :: "int \<Rightarrow> int" where
  "time_FromUnix secs = secs * 1000000000"

definition SavedBinary_MarshalBinary :: "SavedBinary \<Rightarrow> bytes" where
  "SavedBinary_MarshalBinary s =
     beEncode (1 :: uint8) @ WriteUvarint (of_nat (length (sb_Content s))) @ sb_Content s @
     beEncode (of_int (time_Unix (sb_LastUpdated s)) :: uint64) @
     WriteUvarint (of_nat (length (sb_LastEtag s))) @ bytesOf (sb_LastEtag s)"

text \<open>A length is compared with the bytes that are left before the buffer for it is made.\<close>

definition readSized :: "string \<Rightarrow> bytes reader" where
  "readSized what =
     bindRd ReadUvarint (\<lambda>n s.
       if length (pending s) < unat n then Inl (ErrMsg (''invalid '' @ what @ '' length: '' @ itoa (unat n)))
       else ReadFull (unat n) s)"

definition SavedBinary_UnmarshalBinary :: "bytes \<Rightarrow> SavedBinary result" where
  "SavedBinary_UnmarshalBinary data =
     bindR ((readUint :: uint8 reader) \<lparr>pending = data, ending = EOF\<rparr>) (\<lambda>(version, s1).
     bindR (readSized ''content'' s1) (\<lambda>(content, s2).
     bindR ((readUint :: uint64 reader) s2) (\<lambda>(lastUpdated, s3).
     bindR (readSized ''etag'' s3) (\<lambda>(etagBytes, s4).
       Inr \<lparr>sb_Content = content, sb_LastUpdated = time_FromUnix (sint lastUpdated), sb_LastEtag = stringOf etagBytes\<rparr>))))"

section \<open>The database\<close>

text \<open>
  \<open>db_Get\<close> is \<open>Inr None\<close> when a bucket of the path or the key is missing, \<open>db_Put\<close> creates the buckets
  of the path first, and a \<open>Panic\<close> stands for the panics of a corrupted file, which \<open>db_Reset\<close> replaces
  by a new one.
\<close>

record 'db bbolt =
  db_Get :: "'db \<Rightarrow> string list \<Rightarrow> string \<Rightarrow> bytes option result"
  db_Put :: "'db \<Rightarrow> string list \<Rightarrow> string \<Rightarrow> bytes \<Rightarrow> 'db result"
  db_Delete :: "'db \<Rightarrow> string list \<Rightarrow> string \<Rightarrow> 'db result"
  db_DeleteBucket :: "'db \<Rightarrow> string list \<Rightarrow> 'db result"
  db_Reset :: "'db \<Rightarrow> 'db"

text \<open>What the store of fake addresses asks to be kept (\<open>adapter/fakeip_metadata.go\<close>).\<close>

record FakeIPMetadata =
  Inet4Range :: prefix
  Inet6Range :: prefix
  Inet4Current :: addr
  Inet6Current :: addr

record 'db CacheFile =
  cacheID :: string
  storeFakeIP :: bool
  storeRDRC :: bool
  storeWARPConfig :: bool
  rdrcTimeout :: int
  DB :: 'db
  saveMetadata :: "FakeIPMetadata option"
  saveMetadataTimer :: bool
  saveDomain :: "addr \<rightharpoonup> string"
  saveAddress4 :: "string \<rightharpoonup> addr"
  saveAddress6 :: "string \<rightharpoonup> addr"
  saveRDRC :: "string \<times> string \<times> uint16 \<rightharpoonup> bool"

record CacheFileOptions =
  opt_CacheID :: string
  opt_StoreFakeIP :: bool
  opt_StoreRDRC :: bool
  opt_RDRCTimeout :: int
  opt_StoreWARPConfig :: bool

definition CacheFile_New :: "CacheFileOptions \<Rightarrow> 'db \<Rightarrow> 'db CacheFile" where
  "CacheFile_New options db =
     \<lparr>cacheID = (if opt_CacheID options \<noteq> [] then CHR 0x00 # opt_CacheID options else []),
      storeFakeIP = opt_StoreFakeIP options, storeRDRC = opt_StoreRDRC options,
      storeWARPConfig = opt_StoreWARPConfig options,
      rdrcTimeout =
        (if opt_StoreRDRC options
         then if opt_RDRCTimeout options > 0 then opt_RDRCTimeout options else 7 * 24 * 3600 * 1000000000
         else 0),
      DB = db, saveMetadata = None, saveMetadataTimer = False, saveDomain = Map.empty, saveAddress4 = Map.empty,
      saveAddress6 = Map.empty, saveRDRC = Map.empty\<rparr>"

text \<open>The wrappers of the transactions; a failed transaction changes nothing.\<close>

definition view :: "'db bbolt \<Rightarrow> 'a result \<Rightarrow> 'db CacheFile \<Rightarrow> 'a result \<times> 'db CacheFile" where
  "view lib r c =
     (case r of
        Inl (Panic m) \<Rightarrow> (Inl (ErrMsg (''database corrupted: '' @ m)), c\<lparr>DB := db_Reset lib (DB c)\<rparr>)
      | _ \<Rightarrow> (r, c))"

definition batch :: "'db bbolt \<Rightarrow> 'db result \<Rightarrow> 'db CacheFile \<Rightarrow> error option \<times> 'db CacheFile" where
  "batch lib r c =
     (case r of
        Inl (Panic m) \<Rightarrow> (Some (ErrMsg (''database corrupted: '' @ m)), c\<lparr>DB := db_Reset lib (DB c)\<rparr>)
      | Inl e \<Rightarrow> (Some e, c)
      | Inr db \<Rightarrow> (None, c\<lparr>DB := db\<rparr>))"

text \<open>\<open>bucket\<close> and \<open>createBucket\<close>: the path of a bucket, below the one of the cache id if there is one.\<close>

definition bucket :: "'db CacheFile \<Rightarrow> string \<Rightarrow> string list" where
  "bucket c key = (if cacheID c = [] then [key] else [cacheID c, key])"

abbreviation (input) "bucketSelected \<equiv> ''selected''"
abbreviation (input) "bucketExpand \<equiv> ''group_expand''"
abbreviation (input) "bucketMode \<equiv> ''clash_mode''"
abbreviation (input) "bucketRuleSet \<equiv> ''rule_set''"
abbreviation (input) "bucketRDRC \<equiv> ''rdrc2''"

definition modeKey :: "'db CacheFile \<Rightarrow> string" where
  "modeKey c = (if cacheID c \<noteq> [] then cacheID c else ''default'')"

definition LoadMode :: "'db bbolt \<Rightarrow> 'db CacheFile \<Rightarrow> string \<times> 'db CacheFile" where
  "LoadMode lib c =
     (let (r, c') = view lib (db_Get lib (DB c) [bucketMode] (modeKey c)) c
      in (case r of Inr (Some v) \<Rightarrow> stringOf v | _ \<Rightarrow> [], c'))"

definition StoreMode :: "'db bbolt \<Rightarrow> string \<Rightarrow> 'db CacheFile \<Rightarrow> error option \<times> 'db CacheFile" where
  "StoreMode lib mode c = batch lib (db_Put lib (DB c) [bucketMode] (modeKey c) (bytesOf mode)) c"

definition LoadSelected :: "'db bbolt \<Rightarrow> string \<Rightarrow> 'db CacheFile \<Rightarrow> string \<times> 'db CacheFile" where
  "LoadSelected lib groupTag c =
     (let (r, c') = view lib (db_Get lib (DB c) (bucket c bucketSelected) groupTag) c
      in (case r of Inr (Some v) \<Rightarrow> if v \<noteq> [] then stringOf v else [] | _ \<Rightarrow> [], c'))"

definition StoreSelected :: "'db bbolt \<Rightarrow> string \<Rightarrow> string \<Rightarrow> 'db CacheFile \<Rightarrow> error option \<times> 'db CacheFile" where
  "StoreSelected lib groupTag selected c =
     batch lib (db_Put lib (DB c) (bucket c bucketSelected) groupTag (bytesOf selected)) c"

definition LoadGroupExpand :: "'db bbolt \<Rightarrow> string \<Rightarrow> 'db CacheFile \<Rightarrow> (bool \<times> bool) \<times> 'db CacheFile" where
  "LoadGroupExpand lib groupTag c =
     (let (r, c') = view lib (db_Get lib (DB c) (bucket c bucketExpand) groupTag) c
      in (case r of Inr (Some [b]) \<Rightarrow> (b = 1, True) | _ \<Rightarrow> (False, False), c'))"

definition StoreGroupExpand :: "'db bbolt \<Rightarrow> string \<Rightarrow> bool \<Rightarrow> 'db CacheFile \<Rightarrow> error option \<times> 'db CacheFile" where
  "StoreGroupExpand lib groupTag isExpand c =
     batch lib (db_Put lib (DB c) (bucket c bucketExpand) groupTag [if isExpand then 1 else 0]) c"

text \<open>\<open>LoadRuleSet\<close> and \<open>LoadBinary\<close> have the same text and the same bucket, as have their writers.\<close>

definition LoadRuleSet :: "'db bbolt \<Rightarrow> string \<Rightarrow> 'db CacheFile \<Rightarrow> SavedBinary option \<times> 'db CacheFile" where
  "LoadRuleSet lib tag c =
     (let (r, c') = view lib
        (bindR (db_Get lib (DB c) (bucket c bucketRuleSet) tag) (\<lambda>v.
           case v of None \<Rightarrow> Inl ErrInvalid
           | Some setBinary \<Rightarrow> if setBinary = [] then Inl ErrInvalid else SavedBinary_UnmarshalBinary setBinary)) c
      in (case r of Inr saved \<Rightarrow> Some saved | Inl _ \<Rightarrow> None, c'))"

definition SaveRuleSet :: "'db bbolt \<Rightarrow> string \<Rightarrow> SavedBinary \<Rightarrow> 'db CacheFile \<Rightarrow> error option \<times> 'db CacheFile" where
  "SaveRuleSet lib tag saved c =
     batch lib (db_Put lib (DB c) (bucket c bucketRuleSet) tag (SavedBinary_MarshalBinary saved)) c"

definition LoadBinary :: "'db bbolt \<Rightarrow> string \<Rightarrow> 'db CacheFile \<Rightarrow> SavedBinary option \<times> 'db CacheFile" where
  "LoadBinary lib tag c = LoadRuleSet lib tag c"

definition SaveBinary :: "'db bbolt \<Rightarrow> string \<Rightarrow> SavedBinary \<Rightarrow> 'db CacheFile \<Rightarrow> error option \<times> 'db CacheFile" where
  "SaveBinary lib tag saved c = SaveRuleSet lib tag saved c"

section \<open>Rejected DNS responses\<close>

definition rdrcKey :: "uint16 \<Rightarrow> string \<Rightarrow> string" where
  "rdrcKey qType qName = stringOf (beEncode qType) @ qName"

text \<open>\<open>binary.BigEndian.Uint64\<close> reads the first eight bytes and panics when there are fewer.\<close>

definition uint64At :: "bytes \<Rightarrow> uint64 result" where
  "uint64At v = (if length v < 8 then Inl (Panic ''index out of range'') else Inr (beDecode (take 8 v)))"

definition LoadRDRC :: "'db bbolt \<Rightarrow> int \<Rightarrow> string \<Rightarrow> string \<Rightarrow> uint16 \<Rightarrow> 'db CacheFile \<Rightarrow> bool \<times> 'db CacheFile" where
  "LoadRDRC lib now transportName qName qType c =
     (case saveRDRC c (transportName, qName, qType) of
        Some rejected \<Rightarrow> (rejected, c)
      | None \<Rightarrow>
          (let path = bucket c bucketRDRC @ [transportName];
               key = rdrcKey qType qName;
               (r, c') = view lib
                 (bindR (db_Get lib (DB c) path key) (\<lambda>v.
                    case v of None \<Rightarrow> Inr (False, False)
                    | Some content \<Rightarrow> bindR (uint64At content) (\<lambda>t.
                        if time_FromUnix (sint t) < now then Inr (False, True) else Inr (True, False)))) c
           in case r of
                Inl _ \<Rightarrow> (False, c')
              | Inr (rejected, deleteCache) \<Rightarrow>
                  if deleteCache then (rejected, snd (batch lib (db_Delete lib (DB c') path key) c'))
                  else (rejected, c')))"

definition SaveRDRC :: "'db bbolt \<Rightarrow> int \<Rightarrow> string \<Rightarrow> string \<Rightarrow> uint16 \<Rightarrow> 'db CacheFile \<Rightarrow> error option \<times> 'db CacheFile" where
  "SaveRDRC lib now transportName qName qType c =
     batch lib (db_Put lib (DB c) (bucket c bucketRDRC @ [transportName]) (rdrcKey qType qName)
       (beEncode (of_int (time_Unix (now + rdrcTimeout c)) :: uint64))) c"

text \<open>\<open>SaveRDRCAsync\<close> marks the question first; the goroutine it starts saves it and clears the mark.\<close>

definition SaveRDRCAsync :: "string \<Rightarrow> string \<Rightarrow> uint16 \<Rightarrow> 'db CacheFile \<Rightarrow> 'db CacheFile" where
  "SaveRDRCAsync transportName qName qType c =
     c\<lparr>saveRDRC := (saveRDRC c)((transportName, qName, qType) \<mapsto> True)\<rparr>"

definition SaveRDRCAsync_done :: "'db bbolt \<Rightarrow> int \<Rightarrow> string \<Rightarrow> string \<Rightarrow> uint16 \<Rightarrow> 'db CacheFile \<Rightarrow> 'db CacheFile" where
  "SaveRDRCAsync_done lib now transportName qName qType c =
     (let (err, c') = SaveRDRC lib now transportName qName qType c
      in c'\<lparr>saveRDRC := (saveRDRC c')((transportName, qName, qType) := None)\<rparr>)"

section \<open>Lemmas\<close>

text \<open>What the documentation of \<open>bbolt\<close> states of a key after a committed \<open>Put\<close> or \<open>Delete\<close>.\<close>

definition bbolt_contract :: "'db bbolt \<Rightarrow> bool" where
  "bbolt_contract lib \<longleftrightarrow>
     (\<forall>db path key v db'. db_Put lib db path key v = Inr db' \<longrightarrow>
        db_Get lib db' path key = Inr (Some v) \<and>
        (\<forall>path' key'. (path', key') \<noteq> (path, key) \<longrightarrow> db_Get lib db' path' key' = db_Get lib db path' key')) \<and>
     (\<forall>db path key db'. db_Delete lib db path key = Inr db' \<longrightarrow>
        db_Get lib db' path key = Inr None \<and>
        (\<forall>path' key'. (path', key') \<noteq> (path, key) \<longrightarrow> db_Get lib db' path' key' = db_Get lib db path' key')) \<and>
     (\<forall>db path db'. db_DeleteBucket lib db path = Inr db' \<longrightarrow>
        (\<forall>path' key. db_Get lib db' path' key = (if take (length path) path' = path then Inr None else db_Get lib db path' key)))"

lemma batch_None: "batch lib r c = (None, c') \<longleftrightarrow> (\<exists>db. r = Inr db \<and> c' = c\<lparr>DB := db\<rparr>)"
  by (auto simp: batch_def split: sum.splits error.splits)

lemma bucket_DB [simp]: "bucket (c\<lparr>DB := db\<rparr>) key = bucket c key" "modeKey (c\<lparr>DB := db\<rparr>) = modeKey c"
  by (simp_all add: bucket_def modeKey_def)

lemma view_Inr [simp]: "view lib (Inr x) c = (Inr x, c)"
  by (simp add: view_def)

interpretation sized: codec "\<lambda>bs. WriteUvarint (of_nat (length bs)) @ bs" "readSized what" "\<lambda>bs. length bs < 2 ^ 64"
  by unfold_locales (simp add: readSized_def uvarint.then_read unat_of_nat ReadFull_append)

lemma savedBinary_reads:
  assumes "length (sb_Content s) < 2 ^ 64" "length (sb_LastEtag s) < 2 ^ 64"
    and "- (2 ^ 63) \<le> time_Unix (sb_LastUpdated s)" "time_Unix (sb_LastUpdated s) < 2 ^ 63"
  shows "SavedBinary_UnmarshalBinary (SavedBinary_MarshalBinary s) =
    Inr (s\<lparr>sb_LastUpdated := time_FromUnix (time_Unix (sb_LastUpdated s))\<rparr>)"
proof -
  let ?u = "of_int (time_Unix (sb_LastUpdated s)) :: uint64"
  have sec: "sint ?u = time_Unix (sb_LastUpdated s)"
    using assms(3,4) by (simp add: signed_of_int signed_take_bit_int_eq_self)
  let ?s = "\<lparr>pending = [], ending = EOF\<rparr>"
  let ?tail = "WriteUvarint (of_nat (length (bytesOf (sb_LastEtag s)))) @ bytesOf (sb_LastEtag s)"
  have "(readUint :: uint8 reader) (?s\<lparr>pending := SavedBinary_MarshalBinary s\<rparr>) =
      Inr (1, ?s\<lparr>pending := WriteUvarint (of_nat (length (sb_Content s))) @ sb_Content s @ beEncode ?u @ ?tail\<rparr>)"
    unfolding SavedBinary_MarshalBinary_def length_bytesOf by (rule byte.decodes) simp
  moreover have "readSized ''content'' (?s\<lparr>pending := WriteUvarint (of_nat (length (sb_Content s))) @ sb_Content s @ beEncode ?u @ ?tail\<rparr>) =
      Inr (sb_Content s, ?s\<lparr>pending := beEncode ?u @ ?tail\<rparr>)"
    using sized.decodes [OF assms(1), where s = ?s and rest = "beEncode ?u @ ?tail"] by simp
  moreover have "(readUint :: uint64 reader) (?s\<lparr>pending := beEncode ?u @ ?tail\<rparr>) = Inr (?u, ?s\<lparr>pending := ?tail\<rparr>)"
    by (rule uint64.decodes) simp
  moreover have "readSized ''etag'' (?s\<lparr>pending := ?tail\<rparr>) = Inr (bytesOf (sb_LastEtag s), ?s)"
    using sized.decodes [where x = "bytesOf (sb_LastEtag s)" and s = ?s and rest = "[]"] assms(2) by simp
  ultimately show ?thesis by (simp add: SavedBinary_UnmarshalBinary_def sec)
qed

lemma ruleSet_reads:
  assumes "bbolt_contract lib" "SaveRuleSet lib tag saved c = (None, c')"
    and "length (sb_Content saved) < 2 ^ 64" "length (sb_LastEtag saved) < 2 ^ 64"
    and "- (2 ^ 63) \<le> time_Unix (sb_LastUpdated saved)" "time_Unix (sb_LastUpdated saved) < 2 ^ 63"
  shows "LoadRuleSet lib tag c' = (Some (saved\<lparr>sb_LastUpdated := time_FromUnix (time_Unix (sb_LastUpdated saved))\<rparr>), c')"
proof -
  obtain db where db: "db_Put lib (DB c) (bucket c bucketRuleSet) tag (SavedBinary_MarshalBinary saved) = Inr db" "c' = c\<lparr>DB := db\<rparr>"
    using assms(2) by (auto simp: SaveRuleSet_def batch_None)
  have "db_Get lib db (bucket c bucketRuleSet) tag = Inr (Some (SavedBinary_MarshalBinary saved))"
    using assms(1) db(1) by (simp add: bbolt_contract_def)
  moreover have "SavedBinary_MarshalBinary saved \<noteq> []" by (simp add: SavedBinary_MarshalBinary_def beEncode_def)
  ultimately show ?thesis
    using savedBinary_reads [OF assms(3-6)] by (simp add: LoadRuleSet_def db(2))
qed

section \<open>A database for examples\<close>

definition mapDB :: "(string list \<times> string \<rightharpoonup> bytes) bbolt" where
  "mapDB =
     \<lparr>db_Get = (\<lambda>db path key. Inr (db (path, key))),
      db_Put = (\<lambda>db path key v. if key = [] then Inl (ErrMsg ''key required'') else Inr (db((path, key) \<mapsto> v))),
      db_Delete = (\<lambda>db path key. Inr (db((path, key) := None))),
      db_DeleteBucket = (\<lambda>db path. Inr (\<lambda>(p, k). if take (length path) p = path then None else db (p, k))),
      db_Reset = (\<lambda>_. Map.empty)\<rparr>"

lemma mapDB_contract: "bbolt_contract mapDB"
  by (auto simp: bbolt_contract_def mapDB_def)

definition sampleCacheFile :: "(string list \<times> string \<rightharpoonup> bytes) CacheFile" where
  "sampleCacheFile = CacheFile_New
     \<lparr>opt_CacheID = ''id'', opt_StoreFakeIP = True, opt_StoreRDRC = True, opt_RDRCTimeout = 0, opt_StoreWARPConfig = False\<rparr> Map.empty"

section \<open>Properties\<close>

text \<open>
  C28. A rejected DNS response is remembered for the configured time. Once \<open>SaveRDRC\<close> has succeeded at
  time \<open>t\<close>, \<open>LoadRDRC\<close> reports the question of that transport as rejected exactly until \<open>t\<close> plus the
  timeout, rounded down to a second, whatever the database held before.
\<close>

theorem rejection_expires:
  assumes "bbolt_contract lib" "SaveRDRC lib t transport name qType c = (None, c')" "saveRDRC c (transport, name, qType) = None"
    and "0 \<le> t + rdrcTimeout c" "time_Unix (t + rdrcTimeout c) < 2 ^ 63"
  shows "fst (LoadRDRC lib now transport name qType c') \<longleftrightarrow> now \<le> time_FromUnix (time_Unix (t + rdrcTimeout c))"
proof -
  let ?u = "time_Unix (t + rdrcTimeout c)"
  have sec: "sint (of_int ?u :: uint64) = ?u"
    using assms(4,5) by (simp add: signed_of_int signed_take_bit_int_eq_self time_Unix_def)
  obtain db where db: "db_Put lib (DB c) (bucket c bucketRDRC @ [transport]) (rdrcKey qType name) (beEncode (of_int ?u :: uint64)) = Inr db"
    "c' = c\<lparr>DB := db\<rparr>"
    using assms(2) by (auto simp: SaveRDRC_def batch_None)
  have "db_Get lib db (bucket c bucketRDRC @ [transport]) (rdrcKey qType name) = Inr (Some (beEncode (of_int ?u :: uint64)))"
    using assms(1) db(1) by (simp add: bbolt_contract_def)
  then show ?thesis
    using assms(3) by (auto simp: LoadRDRC_def db(2) uint64At_def beDecode_beEncode sec Let_def split: prod.splits)
qed

theorem rejection_expires_witness:
  "fst (LoadRDRC mapDB 604800000000000 ''t'' ''example.org'' 1
     (snd (SaveRDRC mapDB 5 ''t'' ''example.org'' 1 sampleCacheFile))) \<and>
   \<not> fst (LoadRDRC mapDB 604800000000001 ''t'' ''example.org'' 1
     (snd (SaveRDRC mapDB 5 ''t'' ''example.org'' 1 sampleCacheFile)))"
proof -
  let ?c = sampleCacheFile
  have t: "rdrcTimeout ?c = 604800000000000" "saveRDRC ?c = Map.empty"
    by (simp_all add: sampleCacheFile_def CacheFile_New_def)
  obtain c' where c': "SaveRDRC mapDB 5 ''t'' ''example.org'' 1 ?c = (None, c')"
    by (simp add: SaveRDRC_def batch_def mapDB_def rdrcKey_def)
  have "fst (LoadRDRC mapDB now ''t'' ''example.org'' 1 c') \<longleftrightarrow> now \<le> 604800000000000" for now
    using rejection_expires [OF mapDB_contract c', of now] by (simp add: t time_Unix_def time_FromUnix_def)
  then show ?thesis by (simp add: c')
qed

end
