(* ===== verification/Rule_Set.thy ===== *)
theory Rule_Set
  imports DNS_Rule Srs_Semantics Cache_File
begin

text \<open>
  Rule-sets (\<open>route/rule/rule_set.go\<close>, \<open>rule_set_local.go\<close>, \<open>rule_set_remote.go\<close>): loading from inline
  rules, source files, binary files and downloads, the metadata the router and the DNS rules ask for,
  reference counts, update callbacks and the update loop of a remote rule-set. JSON decoding, the file
  system, the HTTP client and the clock are parameters; what a rule-set matches is the rule engine.
\<close>

section \<open>Loading\<close>

fun HasHeadlessRule :: "(DefaultHeadlessRule \<Rightarrow> bool) \<Rightarrow> HeadlessRuleOptions list \<Rightarrow> bool"
and hasHeadlessRuleIn :: "(DefaultHeadlessRule \<Rightarrow> bool) \<Rightarrow> HeadlessRuleOptions \<Rightarrow> bool"
and hasHeadlessLogical :: "(DefaultHeadlessRule \<Rightarrow> bool) \<Rightarrow> (DefaultHeadlessRule, unit) LogicalRuleOptions \<Rightarrow> bool" where
  "HasHeadlessRule test [] = False"
| "HasHeadlessRule test (rule # rules) = (if hasHeadlessRuleIn test rule then True else HasHeadlessRule test rules)"
| "hasHeadlessRuleIn test (RuleOptions ty d l) =
     (if ty = ''default'' then test d else if ty = ''logical'' then hasHeadlessLogical test l else False)"
| "hasHeadlessLogical test (LogicalRuleOptions mode rules inverted action) = HasHeadlessRule test rules"

definition isProcessHeadlessRule :: "DefaultHeadlessRule \<Rightarrow> bool" where
  "isProcessHeadlessRule rule \<longleftrightarrow>
     ProcessName rule \<noteq> [] \<or> ProcessPath rule \<noteq> [] \<or> ProcessPathRegex rule \<noteq> [] \<or> PackageName rule \<noteq> []"

definition isWIFIHeadlessRule :: "DefaultHeadlessRule \<Rightarrow> bool" where
  "isWIFIHeadlessRule rule \<longleftrightarrow> WIFISSID rule \<noteq> [] \<or> WIFIBSSID rule \<noteq> []"

definition isIPCIDRHeadlessRule :: "DefaultHeadlessRule \<Rightarrow> bool" where
  "isIPCIDRHeadlessRule rule \<longleftrightarrow> IPCIDR rule \<noteq> [] \<or> IPSet rule \<noteq> None"

definition metadataOf :: "HeadlessRuleOptions list \<Rightarrow> RuleSetMetadata" where
  "metadataOf headlessRules =
     \<lparr>ContainsProcessRule = HasHeadlessRule isProcessHeadlessRule headlessRules,
      ContainsWIFIRule = HasHeadlessRule isWIFIHeadlessRule headlessRules,
      ContainsIPCIDRRule = HasHeadlessRule isIPCIDRHeadlessRule headlessRules\<rparr>"

text \<open>
  The state both kinds of rule-set have. A callback is known by the list element that
  \<open>RegisterCallback\<close> returns; elements are numbered in the order of their creation.
\<close>

record 'a ruleSetState =
  rs_tag :: string
  rs_rules :: "'a rule list"
  rs_metadata :: RuleSetMetadata
  rs_callbacks :: "nat list"
  rs_nextElement :: nat
  rs_refs :: "32 word"

definition metadataZero :: RuleSetMetadata where
  "metadataZero = \<lparr>ContainsProcessRule = False, ContainsWIFIRule = False, ContainsIPCIDRRule = False\<rparr>"

definition ruleSetZero :: "string \<Rightarrow> 'a ruleSetState" where
  "ruleSetZero tag =
     \<lparr>rs_tag = tag, rs_rules = [], rs_metadata = metadataZero, rs_callbacks = [], rs_nextElement = 0, rs_refs = 0\<rparr>"

text \<open>The rules a rule-set is made of, and how the rule engine sees it.\<close>

fun parseRules :: "env \<Rightarrow> bool \<Rightarrow> nat \<Rightarrow> HeadlessRuleOptions list \<Rightarrow> 'a rule list result" where
  "parseRules env networkManager i [] = Inr []"
| "parseRules env networkManager i (ruleOptions # rest) =
     bindR (causeR (NewHeadlessRule env networkManager ruleOptions) (''parse rule_set.rules.['' @ itoa i @ '']'')) (\<lambda>r.
     bindR (parseRules env networkManager (i + 1) rest) (\<lambda>rs. Inr (r # rs)))"

definition asRuleSet :: "('a, 'b) ruleSetState_scheme \<Rightarrow> 'a RuleSet" where
  "asRuleSet s = RuleSet (rs_tag s) (rs_metadata s) (rs_rules s)"

text \<open>
  \<open>reloadRules\<close> replaces the rules and the metadata together and then runs the callbacks; the result
  lists the callbacks that ran. A failure leaves the rule-set as it is.
\<close>

definition reloadRules ::
  "env \<Rightarrow> bool \<Rightarrow> HeadlessRuleOptions list \<Rightarrow> ('a, 'b) ruleSetState_scheme \<Rightarrow>
   nat list result \<times> ('a, 'b) ruleSetState_scheme" where
  "reloadRules env networkManager headlessRules s =
     (case parseRules env networkManager 0 headlessRules of
        Inl err \<Rightarrow> (Inl err, s)
      | Inr rules \<Rightarrow>
          (Inr (rs_callbacks s), s\<lparr>rs_rules := rules, rs_metadata := metadataOf headlessRules\<rparr>))"

text \<open>\<open>Upgrade\<close> of a decoded rule-set.\<close>

definition Upgrade :: "uint8 \<times> HeadlessRuleOptions list \<Rightarrow> HeadlessRuleOptions list result" where
  "Upgrade = (\<lambda>(version, rules).
     if version = 1 \<or> version = 2 \<or> version = 3 \<or> version = 4 then Inr rules
     else Inl (ErrMsg (''unknown rule-set version: '' @ itoa (unat version))))"

text \<open>The surroundings of rule-sets: \<open>json\<close> decodes a source rule-set, \<open>files\<close> gives the contents of a path,
  and the last two tell whether a file watcher can be created and started.\<close>

record surroundings =
  sur_env :: env
  sur_networkManager :: bool
  sur_lib :: srsLibrary
  sur_json :: "bytes \<Rightarrow> (uint8 \<times> HeadlessRuleOptions list) result"
  sur_files :: "string \<Rightarrow> bytes result"
  sur_newWatcher :: "string \<Rightarrow> error option"
  sur_startWatcher :: "string \<Rightarrow> error option"

definition decodeFormat :: "surroundings \<Rightarrow> bool \<Rightarrow> string \<Rightarrow> bytes \<Rightarrow> HeadlessRuleOptions list result" where
  "decodeFormat sur emptyIsSource format content =
     (if format = ''source'' \<or> emptyIsSource \<and> format = [] then bindR (sur_json sur content) Upgrade
      else if format = ''binary'' then
        bindR (srs_Read (sur_lib sur) False \<lparr>pending = content, ending = EOF\<rparr>) Upgrade
      else Inl (ErrMsg (''unknown rule-set format: '' @ format)))"

section \<open>References, callbacks and cleanup\<close>

definition IncRef :: "('a, 'b) ruleSetState_scheme \<Rightarrow> ('a, 'b) ruleSetState_scheme" where
  "IncRef s = s\<lparr>rs_refs := rs_refs s + 1\<rparr>"

definition DecRef :: "('a, 'b) ruleSetState_scheme \<Rightarrow> ('a, 'b) ruleSetState_scheme result" where
  "DecRef s =
     (if sint (rs_refs s - 1) < 0 then Inl (Panic ''rule-set: negative refs'')
      else Inr (s\<lparr>rs_refs := rs_refs s - 1\<rparr>))"

definition Cleanup :: "('a, 'b) ruleSetState_scheme \<Rightarrow> ('a, 'b) ruleSetState_scheme" where
  "Cleanup s = (if rs_refs s = 0 then s\<lparr>rs_rules := []\<rparr> else s)"

definition RegisterCallback :: "('a, 'b) ruleSetState_scheme \<Rightarrow> nat \<times> ('a, 'b) ruleSetState_scheme" where
  "RegisterCallback s =
     (rs_nextElement s,
      s\<lparr>rs_callbacks := rs_callbacks s @ [rs_nextElement s], rs_nextElement := rs_nextElement s + 1\<rparr>)"

definition UnregisterCallback :: "nat \<Rightarrow> ('a, 'b) ruleSetState_scheme \<Rightarrow> ('a, 'b) ruleSetState_scheme" where
  "UnregisterCallback element s = s\<lparr>rs_callbacks := filter (\<lambda>e. e \<noteq> element) (rs_callbacks s)\<rparr>"

fun extractIPSetFromRule :: "'a rule \<Rightarrow> ipset list" where
  "extractIPSetFromRule (DefaultRule r item action) =
     concat (map (\<lambda>it. case it of IPCIDRItem s src d \<Rightarrow> [s] | _ \<Rightarrow> []) (destinationIPCIDRItems r))"
| "extractIPSetFromRule (LogicalRule rules mode inverted action) = concat (map extractIPSetFromRule rules)"

definition ExtractIPSet :: "('a, 'b) ruleSetState_scheme \<Rightarrow> ipset list" where
  "ExtractIPSet s = concat (map extractIPSetFromRule (rs_rules s))"

definition ruleSet_String :: "env \<Rightarrow> ('a, 'b) ruleSetState_scheme \<Rightarrow> string" where
  "ruleSet_String env s = strings_Join (map (rule_String env) (rs_rules s)) '' ''"

section \<open>Local rule-sets\<close>

record RuleSetOptions =
  rso_Type :: string
  rso_Tag :: string
  rso_Format :: string
  rso_Rules :: "HeadlessRuleOptions list"
  rso_Path :: string
  rso_DownloadDetour :: string
  rso_UpdateInterval :: int

record 'a LocalRuleSet = "'a ruleSetState" +
  ls_fileFormat :: string
  ls_watcher :: "string option"
  ls_watching :: bool

definition reloadFile :: "surroundings \<Rightarrow> string \<Rightarrow> 'a LocalRuleSet \<Rightarrow> nat list result \<times> 'a LocalRuleSet" where
  "reloadFile sur path s =
     (case bindR (if ls_fileFormat s \<in> {''source'', [], ''binary''} then sur_files sur path
                  else Inl (ErrMsg (''unknown rule-set format: '' @ ls_fileFormat s)))
             (decodeFormat sur True (ls_fileFormat s)) of
        Inl err \<Rightarrow> (Inl err, s)
      | Inr rules \<Rightarrow> reloadRules (sur_env sur) (sur_networkManager sur) rules s)"

definition localZero :: "RuleSetOptions \<Rightarrow> 'a LocalRuleSet" where
  "localZero options = ruleSetState.extend (ruleSetZero (rso_Tag options)) (LocalRuleSet.fields (rso_Format options) None False)"

text \<open>\<open>absPath\<close> is the absolute path below the base path of the file manager.\<close>

definition NewLocalRuleSet :: "surroundings \<Rightarrow> (string \<Rightarrow> string) \<Rightarrow> RuleSetOptions \<Rightarrow> 'a LocalRuleSet result" where
  "NewLocalRuleSet sur absPath options =
     (if rso_Type options = ''inline'' then
        if rso_Rules options = [] then Inl (ErrMsg ''empty inline rule-set'')
        else (case reloadRules (sur_env sur) (sur_networkManager sur) (rso_Rules options) (localZero options) of
                (Inl err, _) \<Rightarrow> Inl err
              | (Inr _, s) \<Rightarrow> Inr s)
      else
        (case reloadFile sur (absPath (rso_Path options)) (localZero options) of
           (Inl err, _) \<Rightarrow> Inl err
         | (Inr _, s) \<Rightarrow>
             (case sur_newWatcher sur (absPath (rso_Path options)) of
                Some err \<Rightarrow> Inl err
              | None \<Rightarrow> Inr (s\<lparr>ls_watcher := Some (absPath (rso_Path options))\<rparr>))))"

definition LocalRuleSet_StartContext :: "surroundings \<Rightarrow> 'a LocalRuleSet \<Rightarrow> 'a LocalRuleSet" where
  "LocalRuleSet_StartContext sur s =
     (case ls_watcher s of
        None \<Rightarrow> s
      | Some path \<Rightarrow> if sur_startWatcher sur path = None then s\<lparr>ls_watching := True\<rparr> else s)"

text \<open>The callback of the file watcher, once it is started: an error is logged and the rules stay.\<close>

definition fileChanged :: "surroundings \<Rightarrow> 'a LocalRuleSet \<Rightarrow> 'a LocalRuleSet" where
  "fileChanged sur s =
     (case ls_watcher s of
        None \<Rightarrow> s
      | Some path \<Rightarrow> if ls_watching s then snd (reloadFile sur path s) else s)"

definition LocalRuleSet_Close :: "'a LocalRuleSet \<Rightarrow> 'a LocalRuleSet" where
  "LocalRuleSet_Close s = s\<lparr>rs_rules := [], ls_watching := False\<rparr>"

section \<open>Remote rule-sets\<close>

text \<open>
  \<open>rr_lastUpdated\<close> is \<open>None\<close> for the zero time. The tickers are started by \<open>StartContext\<close>; \<open>rr_closed\<close>
  tells whether the context is cancelled.
\<close>

record 'a RemoteRuleSet = "'a ruleSetState" +
  rr_options :: RuleSetOptions
  rr_updateInterval :: int
  rr_lastUpdated :: "int option"
  rr_lastEtag :: string
  rr_started :: bool
  rr_closed :: bool

definition NewRemoteRuleSet :: "RuleSetOptions \<Rightarrow> 'a RemoteRuleSet" where
  "NewRemoteRuleSet options =
     ruleSetState.extend (ruleSetZero (rso_Tag options))
       (RemoteRuleSet.fields options
          (if rso_UpdateInterval options > 0 then rso_UpdateInterval options else 24 * 3600 * 1000000000)
          None [] False False)"

definition loadBytes :: "surroundings \<Rightarrow> bytes \<Rightarrow> 'a RemoteRuleSet \<Rightarrow> nat list result \<times> 'a RemoteRuleSet" where
  "loadBytes sur content s =
     (case decodeFormat sur False (rso_Format (rr_options s)) content of
        Inl err \<Rightarrow> (Inl err, s)
      | Inr rules \<Rightarrow> reloadRules (sur_env sur) (sur_networkManager sur) rules s)"

text \<open>\<open>cache\<close> is the cache file, if there is one; \<open>outbound\<close> tells whether an outbound exists.\<close>

definition RemoteRuleSet_StartContext ::
  "surroundings \<Rightarrow> 'db bbolt \<Rightarrow> (string \<Rightarrow> bool) \<Rightarrow> 'a RemoteRuleSet \<Rightarrow> 'db CacheFile option \<Rightarrow>
   error option \<times> 'a RemoteRuleSet \<times> 'db CacheFile option" where
  "RemoteRuleSet_StartContext sur bolt outbound s cache =
     (if rso_DownloadDetour (rr_options s) \<noteq> [] \<and> \<not> outbound (rso_DownloadDetour (rr_options s)) then
        (Some (ErrMsg (''download detour not found: '' @ rso_DownloadDetour (rr_options s))), s, cache)
      else
        (let (s1, cache1) =
           (case cache of
              None \<Rightarrow> (s, None)
            | Some c \<Rightarrow>
                (case LoadRuleSet bolt (rs_tag s) c of
                   (None, c') \<Rightarrow> (s, Some c')
                 | (Some saved, c') \<Rightarrow>
                     (case loadBytes sur (sb_Content saved) s of
                        (Inl err, s') \<Rightarrow> (s', Some c')
                      | (Inr _, s') \<Rightarrow>
                          (s'\<lparr>rr_lastUpdated := Some (sb_LastUpdated saved), rr_lastEtag := sb_LastEtag saved\<rparr>, Some c'))))
         in (None, s1\<lparr>rr_started := True\<rparr>, cache1)))"

text \<open>
  What comes back from the server: an error of the client, or a status with its text, the \<open>Etag\<close> header
  and the body (which may fail while it is read). The request carries \<open>If-None-Match\<close> when a tag is known.
\<close>

datatype httpReply = HttpFailed error | HttpReply int string string "bytes result"

definition fetch ::
  "surroundings \<Rightarrow> 'db bbolt \<Rightarrow> int \<Rightarrow> httpReply \<Rightarrow> 'a RemoteRuleSet \<Rightarrow> 'db CacheFile option \<Rightarrow>
   error option \<times> 'a RemoteRuleSet \<times> 'db CacheFile option" where
  "fetch sur bolt now reply s cache =
     (case reply of
        HttpFailed err \<Rightarrow> (Some err, s, cache)
      | HttpReply status statusText etag body \<Rightarrow>
          if status = 304 then
            (None, s\<lparr>rr_lastUpdated := Some now\<rparr>,
             (case cache of
                None \<Rightarrow> None
              | Some c \<Rightarrow>
                  (case LoadRuleSet bolt (rs_tag s) c of
                     (None, c') \<Rightarrow> Some c'
                   | (Some saved, c') \<Rightarrow> Some (snd (SaveRuleSet bolt (rs_tag s) (saved\<lparr>sb_LastUpdated := now\<rparr>) c')))))
          else if status \<noteq> 200 then (Some (ErrMsg (''unexpected status: '' @ statusText)), s, cache)
          else
            (case body of
               Inl err \<Rightarrow> (Some err, s, cache)
             | Inr content \<Rightarrow>
                 (case loadBytes sur content s of
                    (Inl err, s') \<Rightarrow> (Some err, s', cache)
                  | (Inr _, s') \<Rightarrow>
                      (let s2 = s'\<lparr>rr_lastEtag := (if etag \<noteq> [] then etag else rr_lastEtag s'), rr_lastUpdated := Some now\<rparr>
                       in (None, s2,
                           map_option (\<lambda>c. snd (SaveRuleSet bolt (rs_tag s)
                             \<lparr>sb_Content = content, sb_LastUpdated = now, sb_LastEtag = rr_lastEtag s2\<rparr> c)) cache)))))"

definition updateOnce ::
  "surroundings \<Rightarrow> 'db bbolt \<Rightarrow> int \<Rightarrow> httpReply \<Rightarrow> 'a RemoteRuleSet \<Rightarrow> 'db CacheFile option \<Rightarrow>
   'a RemoteRuleSet \<times> 'db CacheFile option" where
  "updateOnce sur bolt now reply s cache =
     (case fetch sur bolt now reply s cache of
        (Some err, s', cache') \<Rightarrow> (s', cache')
      | (None, s', cache') \<Rightarrow> (if rs_refs s' = 0 then s'\<lparr>rs_rules := []\<rparr> else s', cache'))"

text \<open>
  The goroutine of \<open>loopUpdate\<close>. \<open>time.Since\<close> of the zero time is the largest duration. After the first
  check the loop waits for the startup ticker as long as nothing was loaded, and then for the update
  ticker; a tick comes with the time and the reply that the server gives to the request it causes.
\<close>

datatype loopPhase = Startup | Steady | Done

definition sinceUpdate :: "int \<Rightarrow> 'a RemoteRuleSet \<Rightarrow> int" where
  "sinceUpdate now s = (case rr_lastUpdated s of None \<Rightarrow> 2 ^ 63 - 1 | Some t \<Rightarrow> now - t)"

definition phaseOf :: "'a RemoteRuleSet \<Rightarrow> loopPhase" where
  "phaseOf s = (if rr_lastUpdated s = None then Startup else Steady)"

definition loopUpdate ::
  "surroundings \<Rightarrow> 'db bbolt \<Rightarrow> int \<Rightarrow> httpReply \<Rightarrow> 'a RemoteRuleSet \<times> 'db CacheFile option \<Rightarrow>
   loopPhase \<times> 'a RemoteRuleSet \<times> 'db CacheFile option" where
  "loopUpdate sur bolt now reply = (\<lambda>(s, cache).
     let (s1, cache1) =
       (if sinceUpdate now s > rr_updateInterval s then updateOnce sur bolt now reply s cache else (s, cache))
     in (phaseOf s1, s1, cache1))"

datatype loopEvent = ContextDone | Tick int httpReply

fun loopStep ::
  "surroundings \<Rightarrow> 'db bbolt \<Rightarrow> loopEvent \<Rightarrow> loopPhase \<times> 'a RemoteRuleSet \<times> 'db CacheFile option \<Rightarrow>
   loopPhase \<times> 'a RemoteRuleSet \<times> 'db CacheFile option" where
  "loopStep sur bolt e (Done, s, cache) = (Done, s, cache)"
| "loopStep sur bolt ContextDone (phase, s, cache) = (Done, s, cache)"
| "loopStep sur bolt (Tick now reply) (Startup, s, cache) =
     (let (s1, cache1) = updateOnce sur bolt now reply s cache in (phaseOf s1, s1, cache1))"
| "loopStep sur bolt (Tick now reply) (Steady, s, cache) =
     (let (s1, cache1) = updateOnce sur bolt now reply s cache in (Steady, s1, cache1))"

definition loopRun ::
  "surroundings \<Rightarrow> 'db bbolt \<Rightarrow> loopEvent list \<Rightarrow> loopPhase \<times> 'a RemoteRuleSet \<times> 'db CacheFile option \<Rightarrow>
   loopPhase \<times> 'a RemoteRuleSet \<times> 'db CacheFile option" where
  "loopRun sur bolt es st = foldl (\<lambda>st e. loopStep sur bolt e st) st es"

definition RemoteRuleSet_Close :: "'a RemoteRuleSet \<Rightarrow> 'a RemoteRuleSet" where
  "RemoteRuleSet_Close s = s\<lparr>rs_rules := [], rr_closed := True, rr_started := False\<rparr>"

datatype 'a anyRuleSet = LocalSet "'a LocalRuleSet" | RemoteSet "'a RemoteRuleSet"

definition NewRuleSet :: "surroundings \<Rightarrow> (string \<Rightarrow> string) \<Rightarrow> RuleSetOptions \<Rightarrow> 'a anyRuleSet result" where
  "NewRuleSet sur absPath options =
     (if rso_Type options = ''inline'' \<or> rso_Type options = ''local'' \<or> rso_Type options = [] then
        bindR (NewLocalRuleSet sur absPath options) (\<lambda>s. Inr (LocalSet s))
      else if rso_Type options = ''remote'' then Inr (RemoteSet (NewRemoteRuleSet options))
      else Inl (ErrMsg (''unknown rule-set type: '' @ rso_Type options)))"

section \<open>Rules and metadata agree\<close>

text \<open>Decoded rules have a type: JSON decoding fills in the default one, and \<open>Read\<close> sets it.\<close>

fun typedRule :: "HeadlessRuleOptions \<Rightarrow> bool"
and typedLogical :: "(DefaultHeadlessRule, unit) LogicalRuleOptions \<Rightarrow> bool"
and typedRules :: "HeadlessRuleOptions list \<Rightarrow> bool" where
  "typedRule (RuleOptions ty d l) = (if ty = ''logical'' then typedLogical l else ty \<noteq> [])"
| "typedLogical (LogicalRuleOptions mode rules inverted action) = typedRules rules"
| "typedRules [] = True"
| "typedRules (r # rs) = (typedRule r \<and> typedRules rs)"

lemma typedRules_all: "typedRules rs \<longleftrightarrow> (\<forall>r\<in>set rs. typedRule r)"
  by (induction rs) auto

lemma parseRules_iff: "parseRules env nm i rs = Inr (qs :: 'a rule list) \<longleftrightarrow> NewSubHeadlessRules env nm j rs = Inr qs"
proof (induction rs arbitrary: i j qs)
  case (Cons r rs)
  have "parseRules env nm (i + 1) rs = Inr xs \<longleftrightarrow> NewSubHeadlessRules env nm (j + 1) rs = Inr xs" for xs :: "'a rule list" by (rule Cons.IH)
  then show ?case by (simp add: bindR_eq_Inr)
qed simp

lemma added_alternative:
  "g \<noteq> g' \<Longrightarrow> added g (if b then [Add g' r] else case m of None \<Rightarrow> [] | Some x \<Rightarrow> [Add g' (Inr (f x))]) = []"
  by (simp split: option.splits sum.splits)

lemma headless_destinations:
  "added DestinationIPCIDRItems (defaultHeadlessRuleSteps env nm opts) =
   added DestinationIPCIDRItems
     (if IPCIDR opts \<noteq> [] then [Add DestinationIPCIDRItems (causeR (NewIPCIDRItem env False (IPCIDR opts)) ''ipcidr'')]
      else case IPSet opts of Some s \<Rightarrow> [Add DestinationIPCIDRItems (Inr (NewRawIPCIDRItem False s))] | None \<Rightarrow> [])"
proof -
  have "added DestinationIPCIDRItems (portSteps opts) = []" "added DestinationIPCIDRItems (processSteps env opts) = []"
    "added DestinationIPCIDRItems (if nm then networkSteps env opts @ interfaceSteps opts else []) = []"
    by (simp_all add: portSteps_def processSteps_def networkSteps_def interfaceSteps_def split: sum.splits)
  then show ?thesis
    unfolding defaultHeadlessRuleSteps_def added_append
    by (simp add: added_alternative split del: if_split) (simp split: sum.splits)
qed

lemma headless_ipsets:
  assumes "succeeds (defaultHeadlessRuleSteps env nm opts)"
  shows "concat (map (\<lambda>it. case it of IPCIDRItem s src d \<Rightarrow> [s] | _ \<Rightarrow> [])
      (added DestinationIPCIDRItems (defaultHeadlessRuleSteps env nm opts))) \<noteq> [] \<longleftrightarrow> isIPCIDRHeadlessRule opts"
proof -
  have "IPCIDR opts \<noteq> [] \<Longrightarrow> \<exists>it. NewIPCIDRItem env False (IPCIDR opts) = Inr it"
    using assms unfolding defaultHeadlessRuleSteps_def succeeds_append by (elim conjE) simp
  moreover have "NewIPCIDRItem env False xs = Inr it \<Longrightarrow> \<exists>s d. it = IPCIDRItem s False d" for xs it
    by (auto simp: NewIPCIDRItem_def bindR_eq_Inr Let_def split: option.splits)
  ultimately show ?thesis
    unfolding headless_destinations isIPCIDRHeadlessRule_def
    by (cases "IPCIDR opts = []"; cases "IPSet opts") (fastforce simp: NewRawIPCIDRItem_def)+
qed

lemma extract_iff:
  shows "NewHeadlessRule env nm r = Inr (q :: 'a rule) \<Longrightarrow> typedRule r \<Longrightarrow>
      extractIPSetFromRule q \<noteq> [] \<longleftrightarrow> hasHeadlessRuleIn isIPCIDRHeadlessRule r"
    and "NewLogicalHeadlessRule env nm l = Inr (q :: 'a rule) \<Longrightarrow> typedLogical l \<Longrightarrow>
      extractIPSetFromRule q \<noteq> [] \<longleftrightarrow> hasHeadlessLogical isIPCIDRHeadlessRule l"
    and "NewSubHeadlessRules env nm i rs = Inr (qs :: 'a rule list) \<Longrightarrow> typedRules rs \<Longrightarrow>
      concat (map extractIPSetFromRule qs) \<noteq> [] \<longleftrightarrow> HasHeadlessRule isIPCIDRHeadlessRule rs"
proof (induction env nm r and env nm l and env nm i rs arbitrary: q and q and qs
    rule: NewHeadlessRule_NewLogicalHeadlessRule_NewSubHeadlessRules.induct [where ?'a = 'a])
  case (1 env nm ty d l)
  show ?case
  proof (cases "ty = ''logical''")
    case True
    then show ?thesis using 1 by (auto simp: bindR_eq_Inr split: if_splits)
  next
    case False
    with 1 have "ty = ''default''" "NewDefaultHeadlessRule env nm d = Inr q" by (auto split: if_splits)
    then show ?thesis
      using headless_ipsets [of env nm d]
      by (auto simp: NewDefaultHeadlessRule_def bindR_eq_Inr runSteps_Inr withAdded_def emptyRule_def)
  qed
next
  case (2 env nm mode rules inverted action)
  then show ?case by (auto simp: bindR_eq_Inr)
next
  case (3 env nm i)
  then show ?case by simp
next
  case (4 env nm i r rs)
  then show ?case by (auto simp: bindR_eq_Inr)
qed

definition consistent :: "surroundings \<Rightarrow> ('a, 'b) ruleSetState_scheme \<Rightarrow> bool" where
  "consistent sur s \<longleftrightarrow> rs_rules s = [] \<or>
     (\<exists>rules. typedRules rules \<and> parseRules (sur_env sur) (sur_networkManager sur) 0 rules = Inr (rs_rules s) \<and>
        rs_metadata s = metadataOf rules)"

lemma consistent_metadata:
  assumes "consistent sur s" "rs_rules s \<noteq> []"
  shows "ContainsIPCIDRRule (rs_metadata s) \<longleftrightarrow> ExtractIPSet s \<noteq> []"
proof -
  obtain rules where "typedRules rules" "parseRules (sur_env sur) (sur_networkManager sur) 0 rules = Inr (rs_rules s)"
    "rs_metadata s = metadataOf rules" using assms by (auto simp: consistent_def)
  with extract_iff(3) [of "sur_env sur" "sur_networkManager sur" 0 rules "rs_rules s"] show ?thesis
    by (simp add: metadataOf_def ExtractIPSet_def parseRules_iff [where j = 0])
qed

lemma readIndexed_typed:
  assumes "\<And>s x s'. rd s = Inr (x, s') \<Longrightarrow> P x" "readIndexed msg i n rd s = Inr (xs, s')"
  shows "\<forall>x\<in>set xs. P x"
  using assms(2)
  by (induction n arbitrary: i s xs s') (auto simp: returnRd_def bindRd_def bindR_eq_Inr intro: assms(1))

lemma readRule_typed: "readRule lib recover levels s = Inr (r, s') \<Longrightarrow> typedRule r"
proof (induction levels arbitrary: s r s')
  case (Suc levels)
  have "typedLogical l" if "readLogicalRule (readRule lib recover levels) t = Inr (l, t')" for t l t'
    using that readIndexed_typed [of "readRule lib recover levels" typedRule] Suc.IH
    by (auto simp: readLogicalRule_def bindRd_def bindR_eq_Inr returnRd_def failRd_def typedRules_all split: if_splits)
  with Suc.prems show ?case
    by (auto simp: bindRd_def bindR_eq_Inr returnRd_def failRd_def split: if_splits)
qed (simp add: failRd_def)

lemma srs_Read_typed: "srs_Read lib recover s = Inr (v, rules) \<Longrightarrow> typedRules rules"
  using readIndexed_typed [of "readRule lib recover 101" typedRule] readRule_typed [of lib recover 101]
  by (auto simp: srs_Read_def bindR_eq_Inr typedRules_all simp del: readRule.simps split: if_splits)

definition json_contract :: "surroundings \<Rightarrow> bool" where
  "json_contract sur \<longleftrightarrow> (\<forall>content v rules. sur_json sur content = Inr (v, rules) \<longrightarrow> typedRules rules)"

lemma decodeFormat_typed:
  assumes "json_contract sur" "decodeFormat sur b format content = Inr rules"
  shows "typedRules rules"
  using assms srs_Read_typed
  by (auto simp: decodeFormat_def Upgrade_def json_contract_def bindR_eq_Inr split: if_splits)

section \<open>The life of a remote rule-set\<close>

inductive remoteStep ::
  "surroundings \<Rightarrow> 'db bbolt \<Rightarrow> 'a RemoteRuleSet \<times> 'db CacheFile option \<Rightarrow> 'a RemoteRuleSet \<times> 'db CacheFile option \<Rightarrow> bool"
  for sur bolt where
  start: "RemoteRuleSet_StartContext sur bolt outbound s cache = (err, s', cache') \<Longrightarrow> remoteStep sur bolt (s, cache) (s', cache')"
| update: "remoteStep sur bolt (s, cache) (updateOnce sur bolt now reply s cache)"
| incRef: "remoteStep sur bolt (s, cache) (IncRef s, cache)"
| decRef: "DecRef s = Inr s' \<Longrightarrow> remoteStep sur bolt (s, cache) (s', cache)"
| cleanup: "remoteStep sur bolt (s, cache) (Cleanup s, cache)"
| register: "RegisterCallback s = (element, s') \<Longrightarrow> remoteStep sur bolt (s, cache) (s', cache)"
| unregister: "remoteStep sur bolt (s, cache) (UnregisterCallback element s, cache)"
| close: "remoteStep sur bolt (s, cache) (RemoteRuleSet_Close s, cache)"

inductive remoteReach ::
  "surroundings \<Rightarrow> 'db bbolt \<Rightarrow> RuleSetOptions \<Rightarrow> 'a RemoteRuleSet \<times> 'db CacheFile option \<Rightarrow> bool"
  for sur bolt options where
  new: "remoteReach sur bolt options (NewRemoteRuleSet options, cache)"
| step: "remoteReach sur bolt options st \<Longrightarrow> remoteStep sur bolt st st' \<Longrightarrow> remoteReach sur bolt options st'"

definition remoteInv :: "surroundings \<Rightarrow> RuleSetOptions \<Rightarrow> 'a RemoteRuleSet \<Rightarrow> bool" where
  "remoteInv sur options s \<longleftrightarrow> consistent sur s \<and> rr_options s = options \<and> rs_tag s = rso_Tag options \<and>
     distinct (rs_callbacks s) \<and> (\<forall>e\<in>set (rs_callbacks s). e < rs_nextElement s)"

lemma remoteInv_update:
  "remoteInv sur options (s\<lparr>rr_lastUpdated := t\<rparr>) = remoteInv sur options s"
  "remoteInv sur options (s\<lparr>rr_lastEtag := g\<rparr>) = remoteInv sur options s"
  "remoteInv sur options (s\<lparr>rr_started := b\<rparr>) = remoteInv sur options s"
  "remoteInv sur options (s\<lparr>rr_closed := b\<rparr>) = remoteInv sur options s"
  "remoteInv sur options (s\<lparr>rs_refs := n\<rparr>) = remoteInv sur options s"
  "remoteInv sur options s \<Longrightarrow> remoteInv sur options (s\<lparr>rs_rules := []\<rparr>)"
  by (simp_all add: remoteInv_def consistent_def)

lemma remoteInv_load:
  assumes "json_contract sur" "remoteInv sur options s" "loadBytes sur content s = (r, s')"
  shows "remoteInv sur options s'"
proof (cases "decodeFormat sur False (rso_Format (rr_options s)) content")
  case (Inl e)
  then show ?thesis using assms by (simp add: loadBytes_def)
next
  case (Inr rules)
  then have "reloadRules (sur_env sur) (sur_networkManager sur) rules s = (r, s')" using assms(3) by (simp add: loadBytes_def)
  then show ?thesis
    using assms(2) decodeFormat_typed [OF assms(1) Inr]
    by (auto simp: reloadRules_def remoteInv_def consistent_def split: sum.splits)
qed

lemma remoteInv_fetch:
  assumes "json_contract sur" "remoteInv sur options s" "fetch sur bolt now reply s cache = (err, s', cache')"
  shows "remoteInv sur options s'"
  using assms(2,3) remoteInv_load [OF assms(1,2)]
  by (auto simp: fetch_def Let_def remoteInv_update split: httpReply.splits if_splits sum.splits prod.splits)

lemma remoteInv_start:
  assumes "json_contract sur" "remoteInv sur options s" "RemoteRuleSet_StartContext sur bolt outbound s cache = (err, s', cache')"
  shows "remoteInv sur options s'"
  using assms(2,3) remoteInv_load [OF assms(1,2)]
  by (auto simp: RemoteRuleSet_StartContext_def Let_def remoteInv_update split: if_splits option.splits sum.splits prod.splits)

lemma remoteInv_step:
  assumes "json_contract sur" "remoteStep sur bolt st st'" "remoteInv sur options (fst st)"
  shows "remoteInv sur options (fst st')"
  using assms(2,3)
proof (induction rule: remoteStep.induct)
  case (start outbound s cache err s' cache')
  then show ?case using remoteInv_start [OF assms(1)] by simp
next
  case (update s cache now reply)
  then show ?case
    using remoteInv_fetch [OF assms(1)]
    by (auto simp: updateOnce_def remoteInv_update(1-5) intro!: remoteInv_update(6) split: prod.splits option.splits)
next
  case (register s element s' cache)
  then show ?case by (auto simp: RegisterCallback_def remoteInv_def consistent_def less_SucI)
next
  case (unregister s cache element)
  then show ?case by (auto simp: UnregisterCallback_def remoteInv_def consistent_def)
qed (auto simp: IncRef_def DecRef_def Cleanup_def RemoteRuleSet_Close_def remoteInv_update split: if_splits)

lemma remoteReach_inv:
  assumes "json_contract sur" "remoteReach sur bolt options st"
  shows "remoteInv sur options (fst st)"
  using assms(2)
proof (induction rule: remoteReach.induct)
  case (new cache)
  show ?case by (simp add: NewRemoteRuleSet_def remoteInv_def consistent_def ruleSetZero_def ruleSetState.defs RemoteRuleSet.defs)
next
  case (step st st')
  then show ?case using remoteInv_step [OF assms(1)] by blast
qed

section \<open>Retrying\<close>

text \<open>A reply that an update takes: not modified, or a body that decodes to rules that can be built.\<close>

definition accepted :: "surroundings \<Rightarrow> 'a RemoteRuleSet \<Rightarrow> httpReply \<Rightarrow> bool" where
  "accepted sur s reply \<longleftrightarrow>
     (\<exists>status line etag body. reply = HttpReply status line etag body \<and>
        (status = 304 \<or> status = 200 \<and>
          (\<exists>content rules qs. body = Inr content \<and>
             decodeFormat sur False (rso_Format (rr_options s)) content = Inr rules \<and>
             parseRules (sur_env sur) (sur_networkManager sur) 0 rules = Inr (qs :: 'a rule list))))"

lemma loadBytes_cases:
  "(\<exists>err. loadBytes sur content (s :: 'a RemoteRuleSet) = (Inl err, s) \<and> \<not> accepted sur s (HttpReply 200 line etag (Inr content))) \<or>
   (\<exists>ran rules qs. loadBytes sur content s = (Inr ran, s\<lparr>rs_rules := qs, rs_metadata := metadataOf rules\<rparr>) \<and>
      accepted sur s (HttpReply 200 line etag (Inr content)))"
  by (cases "decodeFormat sur False (rso_Format (rr_options s)) content")
    (auto simp: loadBytes_def reloadRules_def accepted_def split: sum.splits)

lemma updateOnce_rejected:
  assumes "\<not> accepted sur s reply"
  shows "updateOnce sur bolt now reply s cache = (s, cache)"
proof (cases reply)
  case (HttpFailed err)
  then show ?thesis by (simp add: updateOnce_def fetch_def)
next
  case (HttpReply status line etag body)
  show ?thesis
  proof (cases "\<exists>content. status = 200 \<and> body = Inr content")
    case True
    then obtain content where "status = 200" "body = Inr content" by blast
    with loadBytes_cases [of sur content s line etag] assms show ?thesis
      by (auto simp: HttpReply updateOnce_def fetch_def)
  next
    case False
    then show ?thesis using assms
      by (cases body) (auto simp: HttpReply updateOnce_def fetch_def accepted_def)
  qed
qed

lemma updateOnce_accepted:
  assumes "accepted sur s reply"
  shows "rr_lastUpdated (fst (updateOnce sur bolt now reply s cache)) = Some now"
proof -
  obtain status line etag body where r: "reply = HttpReply status line etag body" using assms by (auto simp: accepted_def)
  show ?thesis
  proof (cases "status = 304")
    case False
    with assms r obtain content where "status = 200" "body = Inr content" by (auto simp: accepted_def)
    with loadBytes_cases [of sur content s line etag] assms r show ?thesis
      by (auto simp: updateOnce_def fetch_def Let_def)
  qed (simp add: r updateOnce_def fetch_def)
qed

lemma updateOnce_keeps:
  assumes "rr_lastUpdated s \<noteq> None"
  shows "rr_lastUpdated (fst (updateOnce sur bolt now reply s cache)) \<noteq> None"
  using assms updateOnce_rejected [of sur s reply bolt now cache] updateOnce_accepted [of sur s reply bolt now cache] by (cases "accepted sur s reply") auto

lemma loopRun_steady:
  assumes "ContextDone \<notin> set es" "rr_lastUpdated s \<noteq> None"
  shows "\<exists>s' cache'. loopRun sur bolt es (Steady, s, cache) = (Steady, s', cache') \<and> rr_lastUpdated s' \<noteq> None"
  using assms
proof (induction es arbitrary: s cache)
  case (Cons e es)
  then obtain now reply where "e = Tick now reply" by (cases e) auto
  moreover obtain s1 cache1 where "updateOnce sur bolt now reply s cache = (s1, cache1)" by fastforce
  ultimately show ?case
    using Cons.IH [of s1 cache1] Cons.prems updateOnce_keeps [of s sur bolt now reply cache] by (simp add: loopRun_def)
qed (simp add: loopRun_def)

section \<open>Compiled rule-sets\<close>

lemma has_compiled:
  assumes "\<And>d. expressible d \<Longrightarrow> test (compiledDefault lib v d) = test d"
  shows "expressibleRule r \<Longrightarrow> hasHeadlessRuleIn test (compiledRule lib v r) = hasHeadlessRuleIn test r"
    and "expressibleLogical l \<Longrightarrow> hasHeadlessLogical test (compiledLogical lib v l) = hasHeadlessLogical test l"
    and "expressibleRules rs \<Longrightarrow> HasHeadlessRule test (compiledRules lib v rs) = HasHeadlessRule test rs"
  by (induction r and l and rs rule: expressibleRule_expressibleLogical_expressibleRules.induct) (auto simp: assms)

lemma metadata_compiled: "expressibleRules rs \<Longrightarrow> metadataOf (compiledRules lib v rs) = metadataOf rs"
  unfolding metadataOf_def
  by (subst (1 2 3) has_compiled(3))
    (simp_all add: isProcessHeadlessRule_def isWIFIHeadlessRule_def isIPCIDRHeadlessRule_def compiledDefault_def expressible_def)

lemma decode_compiled:
  assumes "srs_contract (sur_lib sur)" "wfRules (sur_lib sur) v rules" "rulesDepth rules \<le> 100" "length rules < 2 ^ 64"
    and "v = 2 \<or> v = 3 \<or> v = 4" "srs_Write (sur_lib sur) env rules v = Inr bs"
  shows "decodeFormat sur b ''binary'' bs = Inr (compiledRules (sur_lib sur) v rules)"
proof -
  have v: "v \<le> 4" using assms(5) by auto
  obtain body where "writeRules (sur_lib sur) env v rules = Inr body"
    "srs_Read (sur_lib sur) False \<lparr>pending = bs @ [], ending = EOF\<rparr> =
      bindR (readIndexed (\<lambda>i. ''read rule['' @ itoa i @ '']'') 0 (length rules) (readRule (sur_lib sur) False 101) \<lparr>pending = body, ending = EOF\<rparr>)
        (\<lambda>(rules', _). Inr (v, rules'))"
    using srs_Read_body [OF assms(1,4) v assms(6)] .
  with readRule_write(3) [OF assms(1,2), where levels = 101 and rest = "[]" and s = "\<lparr>pending = [], ending = EOF\<rparr>"] assms(3)
  have "srs_Read (sur_lib sur) False \<lparr>pending = bs, ending = EOF\<rparr> = Inr (v, compiledRules (sur_lib sur) v rules)"
    by (simp del: readRule.simps)
  then show ?thesis using assms(5) by (auto simp: decodeFormat_def Upgrade_def)
qed

section \<open>Surroundings for examples\<close>

definition cidrRule :: HeadlessRuleOptions where
  "cidrRule = RuleOptions ''default'' (defaultHeadlessRuleZero\<lparr>IPCIDR := [''10.0.0.0/8'']\<rparr>) logicalZero"

definition sampleSur :: "bytes \<Rightarrow> surroundings" where
  "sampleSur file =
     \<lparr>sur_env = sampleEnv, sur_networkManager = False, sur_lib = exactLib,
      sur_json = (\<lambda>content. if content = [] then Inl EOF else Inr (3, [cidrRule])), sur_files = (\<lambda>_. Inr file),
      sur_newWatcher = (\<lambda>_. None), sur_startWatcher = (\<lambda>_. None)\<rparr>"

definition remoteOptions :: RuleSetOptions where
  "remoteOptions = \<lparr>rso_Type = ''remote'', rso_Tag = ''geoip'', rso_Format = ''source'', rso_Rules = [], rso_Path = [],
     rso_DownloadDetour = [], rso_UpdateInterval = 0\<rparr>"

lemma sampleSur_json: "json_contract (sampleSur file)"
  by (simp add: json_contract_def sampleSur_def cidrRule_def)

lemma sample_prefix: "ParsePrefix ''10.0.0.0/8'' = Inr \<lparr>pfx_ip = Addr4 167772160, pfx_bitsPlusOne = 9\<rparr>"
  by code_simp

lemma cidrRule_parse: "\<exists>q :: 'a rule. parseRules sampleEnv False 0 [cidrRule] = Inr [q] \<and> extractIPSetFromRule q \<noteq> []"
proof -
  have valid: "DefaultHeadlessRule_IsValid (defaultHeadlessRuleZero\<lparr>IPCIDR := [''10.0.0.0/8'']\<rparr>)"
    unfolding DefaultHeadlessRule_IsValid_def by (rule notI) (drule arg_cong [where f = IPCIDR], simp)
  show ?thesis
    by (simp add: sample_prefix cidrRule_def NewDefaultHeadlessRule_def defaultHeadlessRuleSteps_def portSteps_def processSteps_def
        NewIPCIDRItem_def causeR_def sampleEnv_def emptyRule_def appendItem_def valid)
qed

lemma cidrRule_contains: "ContainsIPCIDRRule (metadataOf [cidrRule])"
  by (simp add: metadataOf_def cidrRule_def isIPCIDRHeadlessRule_def)

lemma cidrRule_wf: "wfRules exactLib v [cidrRule]" "rulesDepth [cidrRule] = 0"
proof -
  have "NewMatcher [] [] b = newSuccinctSet []" "NewAdGuardMatcher [] = newSuccinctSet []" for b
    by (simp_all add: NewMatcher_def NewAdGuardMatcher_def)
  moreover have "length (rangesOf exactLib [''10.0.0.0/8'']) = 1" "rangesOf exactLib [] = []"
    by (simp_all add: rangesOf_def sample_prefix exactLib_def prefix_IsValid_def)
  ultimately show "wfRules exactLib v [cidrRule]"
    by (simp add: cidrRule_def wfDefaultHeadless_def wfStrings_def newSuccinctSet_Nil wfPrefixes_def)
qed (simp add: cidrRule_def)

lemma cidrRule_write: "\<exists>bs. srs_Write exactLib sampleEnv [cidrRule] 3 = Inr bs"
proof -
  have "\<exists>bs. causeR (writeRuleItemCIDR exactLib sampleEnv 6 [''10.0.0.0/8'']) ''ipcidr'' = Inr bs"
    by (simp add: writeRuleItemCIDR_def sampleEnv_def sample_prefix causeR_def)
  then show ?thesis
    by (auto simp add: srs_Write_def cidrRule_def writeDefaultRule_def writeItems_def onlyIfW_def mapSize_def)
qed

section \<open>Properties\<close>

text \<open>
  C29. Compiling a rule-set does not change what it means. When a rule-set given inline loads, the file
  that \<open>Write\<close> makes of the same rules (in a version of 2, 3 or 4, with rules the binary format can
  express) loads as a local binary rule-set too; on every connection it leaves the same match states,
  and it reports the same metadata.
\<close>

theorem compiled_rule_set_equivalent:
  assumes "srs_contract (sur_lib sur)" "ranges_contract (sur_lib sur)" "ipset_contract (sur_env sur)"
    and "wfRules (sur_lib sur) v (rso_Rules inl)" "rulesDepth (rso_Rules inl) \<le> 100" "length (rso_Rules inl) < 2 ^ 64"
    and "v = 2 \<or> v = 3 \<or> v = 4" "expressibleRules (rso_Rules inl)"
    and "srs_Write (sur_lib sur) env (rso_Rules inl) v = Inr bs"
    and "rso_Type inl = ''inline''" "NewLocalRuleSet sur absPath inl = Inr (s :: 'a LocalRuleSet)"
    and "rso_Type bin = ''local''" "rso_Format bin = ''binary''" "sur_files sur (absPath (rso_Path bin)) = Inr bs"
    and "sur_newWatcher sur (absPath (rso_Path bin)) = None"
  shows "\<exists>t :: 'a LocalRuleSet. NewLocalRuleSet sur absPath bin = Inr t \<and>
    ruleSet_matchStatesWithBase (sur_env sur) (asRuleSet t) = ruleSet_matchStatesWithBase (sur_env sur) (asRuleSet s) \<and>
    rs_metadata t = rs_metadata s"
proof -
  let ?compiled = "compiledRules (sur_lib sur) v (rso_Rules inl)"
  obtain qs :: "'a rule list" where qs: "parseRules (sur_env sur) (sur_networkManager sur) 0 (rso_Rules inl) = Inr qs"
    "rs_rules s = qs" "rs_metadata s = metadataOf (rso_Rules inl)"
    using assms(10,11) by (auto simp: NewLocalRuleSet_def reloadRules_def split: if_splits sum.splits)
  have "v \<noteq> 1" using assms(7) by auto
  from compiled_rule(3) [OF assms(3,2) this assms(8) qs(1) [unfolded parseRules_iff [where j = 0]]]
  obtain qs' :: "'a rule list" where qs': "parseRules (sur_env sur) (sur_networkManager sur) 0 ?compiled = Inr qs'"
    "map (matchStatesWithBase (sur_env sur)) qs' = map (matchStatesWithBase (sur_env sur)) qs"
    unfolding parseRules_iff [where j = 0] by blast
  have "decodeFormat sur True ''binary'' bs = Inr ?compiled" by (rule decode_compiled [OF assms(1,4-7,9)])
  then show ?thesis
    using qs qs' assms(12-15) metadata_compiled [OF assms(8)]
    by (simp add: NewLocalRuleSet_def reloadFile_def reloadRules_def localZero_def ruleSetZero_def ruleSetState.defs
        LocalRuleSet.defs asRuleSet_def matcher_eqs)
qed

text \<open>
  C30. What a remote rule-set reports about itself is true of the rules it holds. In every state that
  starting, updating, counting references, cleaning up, registering and removing callbacks and closing can
  lead to, a rule-set that holds rules says it contains destination CIDR rules exactly when \<open>ExtractIPSet\<close>
  has a set to give; each callback is registered once.
\<close>

theorem remote_metadata_exact:
  assumes "json_contract sur" "remoteReach sur bolt options (s, cache)" "rs_rules s \<noteq> []"
  shows "(ContainsIPCIDRRule (rs_metadata s) \<longleftrightarrow> ExtractIPSet s \<noteq> []) \<and> distinct (rs_callbacks s)"
  using remoteReach_inv [OF assms(1,2)] consistent_metadata [OF _ assms(3)] by (auto simp: remoteInv_def)

text \<open>
  C31. A remote rule-set survives a restart without the network. After a download that was taken and stored
  in the cache file, a new rule-set with the same options that starts on that cache file holds the same rules,
  the same metadata and the same \<open>Etag\<close>, and remembers the time of the download up to the second.
\<close>

theorem cache_restores_rule_set:
  assumes "bbolt_contract bolt"
    and "fetch sur bolt now (HttpReply 200 line etag (Inr content)) (s :: 'a RemoteRuleSet) (Some c) = (None, s', Some c')"
    and "fst (SaveRuleSet bolt (rs_tag s) \<lparr>sb_Content = content, sb_LastUpdated = now, sb_LastEtag = rr_lastEtag s'\<rparr> c) = None"
    and "length content < 2 ^ 64" "length (rr_lastEtag s') < 2 ^ 64" "- (2 ^ 63) \<le> time_Unix now" "time_Unix now < 2 ^ 63"
    and "rr_options s = options" "rs_tag s = rso_Tag options"
    and "rso_DownloadDetour options = [] \<or> outbound (rso_DownloadDetour options)"
  shows "\<exists>t :: 'a RemoteRuleSet. RemoteRuleSet_StartContext sur bolt outbound (NewRemoteRuleSet options) (Some c') = (None, t, Some c') \<and>
    rs_rules t = rs_rules s' \<and> rs_metadata t = rs_metadata s' \<and> rr_lastEtag t = rr_lastEtag s' \<and>
    rr_lastUpdated t = Some (time_FromUnix (time_Unix now))"
proof -
  let ?new = "NewRemoteRuleSet options :: 'a RemoteRuleSet"
  let ?saved = "\<lparr>sb_Content = content, sb_LastUpdated = now, sb_LastEtag = rr_lastEtag s'\<rparr>"
  obtain rules and qs :: "'a rule list" where load: "decodeFormat sur False (rso_Format options) content = Inr rules"
    "parseRules (sur_env sur) (sur_networkManager sur) 0 rules = Inr qs"
    "rs_rules s' = qs" "rs_metadata s' = metadataOf rules" "c' = snd (SaveRuleSet bolt (rs_tag s) ?saved c)"
    using assms(2,8) by (auto simp: fetch_def loadBytes_def reloadRules_def Let_def split: sum.splits)
  have new: "rs_tag ?new = rso_Tag options" "rr_options ?new = options"
    by (simp_all add: NewRemoteRuleSet_def ruleSetZero_def ruleSetState.defs RemoteRuleSet.defs)
  have "SaveRuleSet bolt (rs_tag s) ?saved c = (None, c')" using assms(3) load(5) by (metis prod.collapse)
  from ruleSet_reads [OF assms(1) this] assms(4-7)
  have "LoadRuleSet bolt (rs_tag s) c' = (Some (?saved\<lparr>sb_LastUpdated := time_FromUnix (time_Unix now)\<rparr>), c')" by simp
  with new load(1,2) assms(9,10) show ?thesis
    by (auto simp: RemoteRuleSet_StartContext_def loadBytes_def reloadRules_def load(3,4))
qed

text \<open>
  C32. Until something is loaded, the update loop keeps asking. Starting with nothing loaded and as long as
  it is not stopped, it moves to the regular interval as soon as one reply among the ticks is taken; if none
  is, it still waits for the startup ticker, with the rule-set and the cache file as they were.
\<close>

theorem startup_retries:
  assumes "rr_lastUpdated s = None" "ContextDone \<notin> set es"
  shows "if \<exists>now reply. Tick now reply \<in> set es \<and> accepted sur s reply
    then \<exists>s' cache'. loopRun sur bolt es (Startup, s, cache) = (Steady, s', cache') \<and> rr_lastUpdated s' \<noteq> None
    else loopRun sur bolt es (Startup, s, cache) = (Startup, s, cache)"
  using assms(2)
proof (induction es)
  case (Cons e es)
  then obtain now reply where e: "e = Tick now reply" by (cases e) auto
  obtain s1 cache1 where u: "updateOnce sur bolt now reply s cache = (s1, cache1)" by fastforce
  show ?case
  proof (cases "accepted sur s reply")
    case True
    then have "rr_lastUpdated s1 = Some now" using updateOnce_accepted [of sur s reply bolt now cache] u by simp
    with loopRun_steady [of es s1 sur bolt cache1] Cons.prems True u e show ?thesis
      by (auto simp: loopRun_def phaseOf_def)
  next
    case False
    then have "s1 = s" "cache1 = cache" using updateOnce_rejected [of sur s reply bolt now cache] u by simp_all
    then have run: "loopRun sur bolt (e # es) (Startup, s, cache) = loopRun sur bolt es (Startup, s, cache)"
      using u e assms(1) by (simp add: loopRun_def phaseOf_def)
    have taken: "(\<exists>now reply. Tick now reply \<in> set (e # es) \<and> accepted sur s reply) \<longleftrightarrow>
        (\<exists>now reply. Tick now reply \<in> set es \<and> accepted sur s reply)"
      using False e by auto
    show ?thesis unfolding run taken by (rule Cons.IH) (use Cons.prems in simp)
  qed
qed (simp add: loopRun_def)

theorem compiled_rule_set_equivalent_witness:
  "\<exists>bs (s :: unit LocalRuleSet) (t :: unit LocalRuleSet).
     srs_Write exactLib sampleEnv [cidrRule] 3 = Inr bs \<and>
     NewLocalRuleSet (sampleSur bs) id (remoteOptions\<lparr>rso_Type := ''inline'', rso_Rules := [cidrRule]\<rparr>) = Inr s \<and>
     NewLocalRuleSet (sampleSur bs) id (remoteOptions\<lparr>rso_Type := ''local'', rso_Format := ''binary''\<rparr>) = Inr t \<and>
     ruleSet_matchStatesWithBase sampleEnv (asRuleSet t) = ruleSet_matchStatesWithBase sampleEnv (asRuleSet s) \<and>
     ContainsIPCIDRRule (rs_metadata t)"
proof -
  let ?inl = "remoteOptions\<lparr>rso_Type := ''inline'', rso_Rules := [cidrRule]\<rparr>"
  let ?bin = "remoteOptions\<lparr>rso_Type := ''local'', rso_Format := ''binary''\<rparr>"
  obtain bs where bs: "srs_Write exactLib sampleEnv [cidrRule] 3 = Inr bs" using cidrRule_write by blast
  let ?sur = "sampleSur bs"
  have sur: "sur_lib ?sur = exactLib" "sur_env ?sur = sampleEnv" "rso_Rules ?inl = [cidrRule]"
    by (simp_all add: sampleSur_def)
  obtain s :: "unit LocalRuleSet" where s: "NewLocalRuleSet ?sur id ?inl = Inr s" "ContainsIPCIDRRule (rs_metadata s)"
    using cidrRule_parse [where ?'a = unit] cidrRule_contains
    by (auto simp: NewLocalRuleSet_def reloadRules_def sampleSur_def)
  have rest: "expressibleRules [cidrRule]" "length [cidrRule] < 2 ^ 64" "rulesDepth [cidrRule] \<le> 100"
    "sur_files ?sur (id (rso_Path ?bin)) = Inr bs" "sur_newWatcher ?sur (id (rso_Path ?bin)) = None"
    by (simp_all add: cidrRule_def expressible_def sampleSur_def)
  obtain t :: "unit LocalRuleSet" where t: "NewLocalRuleSet ?sur id ?bin = Inr t \<and>
      ruleSet_matchStatesWithBase sampleEnv (asRuleSet t) = ruleSet_matchStatesWithBase sampleEnv (asRuleSet s) \<and>
      rs_metadata t = rs_metadata s"
    by (rule exE [OF compiled_rule_set_equivalent [where sur = ?sur and absPath = id and inl = ?inl and bin = ?bin and v = 3 and env = sampleEnv, unfolded sur,
          OF exactLib_contract sampleEnv_contract cidrRule_wf(1) rest(3,2) _ rest(1) bs _ s(1) _ _ rest(4,5)]]) simp_all
  with bs s show ?thesis by metis
qed

theorem remote_metadata_exact_witness:
  "\<exists>(s :: unit RemoteRuleSet) cache.
     remoteReach (sampleSur []) mapDB remoteOptions (s, cache) \<and> rs_rules s \<noteq> [] \<and>
     ContainsIPCIDRRule (rs_metadata s) \<and> ExtractIPSet s \<noteq> []"
proof -
  let ?new = "NewRemoteRuleSet remoteOptions :: unit RemoteRuleSet"
  let ?reply = "HttpReply 200 ''200 OK'' [] (Inr [1])"
  obtain s cache where s: "updateOnce (sampleSur []) mapDB 5 ?reply (IncRef ?new) None = (s, cache)" by fastforce
  have "remoteReach (sampleSur []) mapDB remoteOptions (?new, None)" by (rule remoteReach.new)
  then have "remoteReach (sampleSur []) mapDB remoteOptions (IncRef ?new, None)"
    by (rule remoteReach.step) (rule remoteStep.incRef)
  then have reach: "remoteReach (sampleSur []) mapDB remoteOptions (s, cache)"
    by (rule remoteReach.step) (metis s remoteStep.update)
  have "rs_rules s \<noteq> []" "ContainsIPCIDRRule (rs_metadata s)"
    using s cidrRule_parse [where ?'a = unit] cidrRule_contains
    by (auto simp: updateOnce_def fetch_def loadBytes_def decodeFormat_def sampleSur_def Upgrade_def IncRef_def reloadRules_def
        NewRemoteRuleSet_def ruleSetZero_def ruleSetState.defs RemoteRuleSet.defs remoteOptions_def)
  with remote_metadata_exact [OF sampleSur_json reach] reach show ?thesis by blast
qed

theorem cache_restores_rule_set_witness:
  "\<exists>(s' :: unit RemoteRuleSet) c' (t :: unit RemoteRuleSet).
     fetch (sampleSur []) mapDB 5 (HttpReply 200 ''200 OK'' ''v1'' (Inr [1])) (NewRemoteRuleSet remoteOptions) (Some sampleCacheFile) =
       (None, s', Some c') \<and>
     RemoteRuleSet_StartContext (sampleSur []) mapDB (\<lambda>_. False) (NewRemoteRuleSet remoteOptions) (Some c') = (None, t, Some c') \<and>
     rs_rules t = rs_rules s' \<and> rs_rules t \<noteq> [] \<and> rr_lastEtag t = ''v1'' \<and> rr_lastUpdated t = Some 0"
proof -
  let ?new = "NewRemoteRuleSet remoteOptions :: unit RemoteRuleSet"
  let ?fetch = "fetch (sampleSur []) mapDB 5 (HttpReply 200 ''200 OK'' ''v1'' (Inr [1])) ?new (Some sampleCacheFile)"
  have new: "rr_options ?new = remoteOptions" "rs_tag ?new = ''geoip''" "rso_Tag remoteOptions = ''geoip''"
    by (simp_all add: NewRemoteRuleSet_def ruleSetZero_def ruleSetState.defs RemoteRuleSet.defs remoteOptions_def)
  obtain q :: "unit rule" where "parseRules sampleEnv False 0 [cidrRule] = Inr [q]" using cidrRule_parse by blast
  then have load: "loadBytes (sampleSur []) [1] ?new = (Inr (rs_callbacks ?new), ?new\<lparr>rs_rules := [q], rs_metadata := metadataOf [cidrRule]\<rparr>)"
    by (simp add: loadBytes_def decodeFormat_def sampleSur_def Upgrade_def reloadRules_def new) (simp add: remoteOptions_def)
  obtain s' c' where f: "?fetch = (None, s', Some c')" "rs_rules s' \<noteq> []" "rr_lastEtag s' = ''v1''"
    by (simp add: fetch_def load Let_def)
  have "fst (SaveRuleSet mapDB ''geoip'' saved sampleCacheFile) = None" for saved
    by (simp add: SaveRuleSet_def batch_def mapDB_def)
  from cache_restores_rule_set [OF mapDB_contract f(1), of remoteOptions "\<lambda>_. False"] this f(3) new
  have "\<exists>t. RemoteRuleSet_StartContext (sampleSur []) mapDB (\<lambda>_. False) ?new (Some c') = (None, t, Some c') \<and>
      rs_rules t = rs_rules s' \<and> rs_metadata t = rs_metadata s' \<and> rr_lastEtag t = ''v1'' \<and> rr_lastUpdated t = Some 0"
    by (simp add: time_Unix_def time_FromUnix_def) (simp add: remoteOptions_def)
  with f show ?thesis by metis
qed

theorem startup_retries_witness:
  "\<exists>(s' :: unit RemoteRuleSet) cache'.
     loopRun (sampleSur []) mapDB
       [Tick 1 (HttpFailed EOF), Tick 2 (HttpReply 200 ''200 OK'' [] (Inr [])), Tick 3 (HttpReply 200 ''200 OK'' [] (Inr [1]))]
       (Startup, NewRemoteRuleSet remoteOptions, None) = (Steady, s', cache') \<and> rr_lastUpdated s' \<noteq> None"
proof -
  let ?new = "NewRemoteRuleSet remoteOptions :: unit RemoteRuleSet"
  let ?good = "HttpReply 200 ''200 OK'' [] (Inr [1])"
  let ?es = "[Tick 1 (HttpFailed EOF), Tick 2 (HttpReply 200 ''200 OK'' [] (Inr [])), Tick 3 ?good]"
  have "accepted (sampleSur []) ?new ?good"
    using cidrRule_parse [where ?'a = unit]
    by (auto simp: accepted_def decodeFormat_def sampleSur_def Upgrade_def
        NewRemoteRuleSet_def ruleSetState.defs RemoteRuleSet.defs remoteOptions_def)
  moreover have "Tick 3 ?good \<in> set ?es" by simp
  ultimately have some: "\<exists>now reply. Tick now reply \<in> set ?es \<and> accepted (sampleSur []) ?new reply" by blast
  show ?thesis
    using startup_retries [of ?new ?es "sampleSur []" mapDB None] unfolding if_P [OF some]
    by (simp add: NewRemoteRuleSet_def ruleSetState.defs RemoteRuleSet.defs)
qed

end
