(* ===== verification/Spec2Isabelle.thy ===== *)
theory Spec2Isabelle
  imports Match_State Domain_Match Rule_Set
begin

text \<open>
  A verification development for the rule engine of inhive-sing-box.

  Parts of the program and the theories that model them:

    \<^item> \<open>Prelude\<close>: results, Go maps with boolean values, the string and number helpers of the Go
      library that the components share.
    \<^item> \<open>Netip\<close>: the addresses and prefixes of the Go library, and \<open>Socksaddr\<close> of
      \<open>replace/sing/common/metadata\<close>.
    \<^item> \<open>Match_State\<close> models \<open>route/rule/match_state.go\<close>: the masks of matched groups and the
      16-bit sets of such masks that the rule engine computes with.
    \<^item> \<open>Inbound_Context\<close>: the metadata of a connection and the services a rule reads.
    \<^item> \<open>Domain_Matcher\<close> and \<open>AdGuard_Matcher\<close>: \<open>replace/sing/common/domain\<close>.
    \<^item> \<open>Rule_Items\<close>: \<open>route/rule/rule_item_*.go\<close>.
    \<^item> \<open>Rule_Engine\<close>, \<open>Rule_Semantics\<close>: \<open>route/rule/rule_abstract.go\<close> and what it means.
    \<^item> \<open>DNS_Rule\<close>: the two phases of DNS rules.
\<close>

end
